(* ===== verification/Prelude.thy ===== *)
theory Prelude
  imports Complex_Main "HOL-Library.Word" "HOL-Library.Char_ord" "HOL-Library.List_Lexorder"
    "HOL-Library.Multiset"
begin

text \<open>
  What every component shares: Go strings (byte lists) with the \<open>strings\<close> package functions
  the source calls, 64-bit integers, computations that thread a state and may return an error,
  the stable sort of \<open>sort.SliceStable\<close>, and the lemma collections the components fill.
\<close>

named_theorems io_simps \<open>unfolding of state-and-error computations\<close>
named_theorems frame_simps \<open>fields an operation leaves alone\<close>

section \<open>Machine integers and times\<close>

text \<open>Go's \<open>int64\<close>; \<open>+\<close> wraps. A \<open>time.Time\<close> is the instant it denotes, in
  nanoseconds since 1970-01-01T00:00:00Z; a \<open>time.Duration\<close> is a number of nanoseconds.\<close>

type_synonym i64 = "64 word"
type_synonym time = int

abbreviation second :: int where "second \<equiv> 1000000000"
abbreviation minute :: int where "minute \<equiv> 60 * second"
abbreviation hour :: int where "hour \<equiv> 3600 * second"

section \<open>State-and-error computations\<close>

type_synonym ('s, 'e, 'a) io = "'s \<Rightarrow> ('e + 'a) \<times> 's"

definition returnR :: "'a \<Rightarrow> ('s, 'e, 'a) io" where
  "returnR x s = (Inr x, s)"

definition raiseR :: "'e \<Rightarrow> ('s, 'e, 'a) io" where
  "raiseR e s = (Inl e, s)"

definition bindR :: "('s, 'e, 'a) io \<Rightarrow> ('a \<Rightarrow> ('s, 'e, 'b) io) \<Rightarrow> ('s, 'e, 'b) io" where
  "bindR m f s = (case m s of (Inl e, s') \<Rightarrow> (Inl e, s') | (Inr x, s') \<Rightarrow> f x s')"

text \<open>Go's \<open>for _, x := range xs { if err := f(x); err != nil { return err } }\<close>.\<close>

fun forR :: "('a \<Rightarrow> ('s, 'e, unit) io) \<Rightarrow> 'a list \<Rightarrow> ('s, 'e, unit) io" where
  "forR f [] s = (Inr (), s)"
| "forR f (x # xs) s = (case f x s of (Inl e, s') \<Rightarrow> (Inl e, s') | (Inr _, s') \<Rightarrow> forR f xs s')"

lemma returnR_run [simp]: "returnR x s = (Inr x, s)"
  by (simp add: returnR_def)

lemma raiseR_run [simp]: "raiseR e s = (Inl e, s)"
  by (simp add: raiseR_def)

lemma bindR_Inr [io_simps]: "m s = (Inr x, s') \<Longrightarrow> bindR m f s = f x s'"
  by (simp add: bindR_def)

lemma bindR_Inl [io_simps]: "m s = (Inl e, s') \<Longrightarrow> bindR m f s = (Inl e, s')"
  by (simp add: bindR_def)

lemma bindR_okE:
  assumes "bindR m f s = (Inr y, t)"
  obtains x s' where "m s = (Inr x, s')" and "f x s' = (Inr y, t)"
  using assms by (auto simp: bindR_def split: prod.splits sum.splits)

text \<open>A relation between the states that every step of a loop respects holds for the loop.\<close>

lemma forR_rel:
  assumes step: "\<And>x s r s'. x \<in> set xs \<Longrightarrow> f x s = (r, s') \<Longrightarrow> R s s'"
    and refl: "\<And>s. R s s" and trans: "\<And>a b c. R a b \<Longrightarrow> R b c \<Longrightarrow> R a c"
    and run: "forR f xs s = (r, s')"
  shows "R s s'"
  using step run
proof (induction xs arbitrary: s)
  case Nil
  then show ?case using refl by simp
next
  case (Cons x xs)
  obtain q t where ft: "f x s = (q, t)" by (cases "f x s")
  have xt: "R s t" by (rule Cons.prems(1) [of x]) (simp_all add: ft)
  show ?case
  proof (cases q)
    case (Inl e)
    with ft Cons.prems(2) xt show ?thesis by simp
  next
    case (Inr u)
    with ft Cons.prems(2) have "forR f xs t = (r, s')" by simp
    with Cons.IH [of t] Cons.prems(1) have "R t s'" by (meson list.set_intros(2))
    with xt show ?thesis by (rule trans)
  qed
qed

section \<open>The Go strings package on byte strings\<close>

definition strings_HasPrefix :: "string \<Rightarrow> string \<Rightarrow> bool" where
  "strings_HasPrefix s p \<longleftrightarrow> take (length p) s = p"

definition strings_HasSuffix :: "string \<Rightarrow> string \<Rightarrow> bool" where
  "strings_HasSuffix s q \<longleftrightarrow> length q \<le> length s \<and> drop (length s - length q) s = q"

definition strings_TrimPrefix :: "string \<Rightarrow> string \<Rightarrow> string" where
  "strings_TrimPrefix s p = (if strings_HasPrefix s p then drop (length p) s else s)"

fun strings_Contains :: "string \<Rightarrow> string \<Rightarrow> bool" where
  "strings_Contains [] sub \<longleftrightarrow> sub = []"
| "strings_Contains (c # s) sub \<longleftrightarrow> strings_HasPrefix (c # s) sub \<or> strings_Contains s sub"

text \<open>\<open>strings.Cut\<close> at a one-byte separator.\<close>

fun strings_Cut :: "string \<Rightarrow> char \<Rightarrow> string \<times> string \<times> bool" where
  "strings_Cut [] sep = ([], [], False)"
| "strings_Cut (c # s) sep =
     (if c = sep then ([], s, True)
      else case strings_Cut s sep of (b, a, found) \<Rightarrow> (c # b, a, found))"

definition strings_TrimRight :: "string \<Rightarrow> char list \<Rightarrow> string" where
  "strings_TrimRight s cutset = rev (dropWhile (\<lambda>c. c \<in> set cutset) (rev s))"

definition strings_Trim :: "string \<Rightarrow> char list \<Rightarrow> string" where
  "strings_Trim s cutset = strings_TrimRight (dropWhile (\<lambda>c. c \<in> set cutset) s) cutset"

text \<open>\<open>strings.LastIndex\<close> of a one-byte substring: \<open>None\<close> is Go's -1.\<close>

fun last_index :: "string \<Rightarrow> char \<Rightarrow> nat option" where
  "last_index [] c = None"
| "last_index (x # s) c =
     (case last_index s c of Some i \<Rightarrow> Some (Suc i) | None \<Rightarrow> if x = c then Some 0 else None)"

definition ascii_lower :: "char \<Rightarrow> char" where
  "ascii_lower c = (if 65 \<le> (of_char c :: nat) \<and> (of_char c :: nat) \<le> 90
                    then char_of ((of_char c :: nat) + 32) else c)"

definition ascii_upper :: "char \<Rightarrow> char" where
  "ascii_upper c = (if 97 \<le> (of_char c :: nat) \<and> (of_char c :: nat) \<le> 122
                    then char_of ((of_char c :: nat) - 32) else c)"

definition is_ascii :: "char \<Rightarrow> bool" where
  "is_ascii c \<longleftrightarrow> (of_char c :: nat) < 128"

text \<open>
  \<open>strings.ToLower\<close>: byte-wise on ASCII input; on any other input it maps runes through the
  Unicode tables of package \<open>unicode\<close>, whose data is the argument \<open>uni\<close>.
\<close>

definition strings_ToLower :: "(string \<Rightarrow> string) \<Rightarrow> string \<Rightarrow> string" where
  "strings_ToLower uni s = (if list_all is_ascii s then map ascii_lower s else uni s)"

text \<open>The UTF-8 encodings of the runes for which \<open>unicode.IsSpace\<close> holds.\<close>

definition space_seqs :: "string list" where
  "space_seqs =
     [[CHR 0x09], [CHR 0x0A], [CHR 0x0B], [CHR 0x0C], [CHR 0x0D], [CHR 0x20],
      [CHR 0xC2, CHR 0x85], [CHR 0xC2, CHR 0xA0], [CHR 0xE1, CHR 0x9A, CHR 0x80],
      [CHR 0xE2, CHR 0x80, CHR 0x80], [CHR 0xE2, CHR 0x80, CHR 0x81],
      [CHR 0xE2, CHR 0x80, CHR 0x82], [CHR 0xE2, CHR 0x80, CHR 0x83],
      [CHR 0xE2, CHR 0x80, CHR 0x84], [CHR 0xE2, CHR 0x80, CHR 0x85],
      [CHR 0xE2, CHR 0x80, CHR 0x86], [CHR 0xE2, CHR 0x80, CHR 0x87],
      [CHR 0xE2, CHR 0x80, CHR 0x88], [CHR 0xE2, CHR 0x80, CHR 0x89],
      [CHR 0xE2, CHR 0x80, CHR 0x8A], [CHR 0xE2, CHR 0x80, CHR 0xA8],
      [CHR 0xE2, CHR 0x80, CHR 0xA9], [CHR 0xE2, CHR 0x80, CHR 0xAF],
      [CHR 0xE2, CHR 0x81, CHR 0x9F], [CHR 0xE3, CHR 0x80, CHR 0x80]]"

text \<open>Drop leading members of a list of non-empty byte sequences; \<open>fuel\<close> is the length.\<close>

fun drop_seqs :: "string list \<Rightarrow> nat \<Rightarrow> string \<Rightarrow> string" where
  "drop_seqs qs 0 s = s"
| "drop_seqs qs (Suc fuel) s =
     (case find (\<lambda>q. strings_HasPrefix s q) qs of
        Some q \<Rightarrow> drop_seqs qs fuel (drop (length q) s)
      | None \<Rightarrow> s)"

definition strings_TrimSpace :: "string \<Rightarrow> string" where
  "strings_TrimSpace s =
     (let l = drop_seqs space_seqs (length s) s
      in rev (drop_seqs (map rev space_seqs) (length l) (rev l)))"

section \<open>Lemmas on strings\<close>

lemma HasPrefix_append [simp]: "strings_HasPrefix (p @ s) p"
  by (simp add: strings_HasPrefix_def)

lemma HasPrefixE:
  assumes "strings_HasPrefix s p" obtains r where "s = p @ r"
  using assms by (metis append_take_drop_id strings_HasPrefix_def)

lemma TrimPrefix_append [simp]: "strings_TrimPrefix (p @ s) p = s"
  by (simp add: strings_TrimPrefix_def)

lemma Cut_notin: "sep \<notin> set s \<Longrightarrow> strings_Cut s sep = (s, [], False)"
  by (induction s) auto

lemma Cut_append: "sep \<notin> set b \<Longrightarrow> strings_Cut (b @ sep # a) sep = (b, a, True)"
  by (induction b) auto

lemma Cut_found:
  "strings_Cut s sep = (b, a, True) \<Longrightarrow> s = b @ sep # a \<and> sep \<notin> set b"
  by (induction s arbitrary: b) (auto split: if_splits prod.splits)

lemma Cut_not_found: "strings_Cut s sep = (b, a, False) \<Longrightarrow> b = s \<and> sep \<notin> set s"
  by (induction s arbitrary: b) (auto split: if_splits prod.splits)

lemma last_index_append:
  "c \<notin> set b \<Longrightarrow> last_index (a @ c # b) c = Some (length a)"
proof (induction a)
  case Nil
  then have "last_index b c = None" by (induction b) auto
  then show ?case by simp
next
  case (Cons x a)
  then show ?case by simp
qed

lemma last_index_None_iff: "last_index s c = None \<longleftrightarrow> c \<notin> set s"
  by (induction s) (auto split: option.splits)

text \<open>Nothing is trimmed from a string whose first and last bytes start and end no space.\<close>

lemma drop_seqs_id:
  assumes "\<And>q. q \<in> set qs \<Longrightarrow> q \<noteq> [] \<and> (s = [] \<or> hd q \<noteq> hd s)"
  shows "drop_seqs qs n s = s"
proof (cases n)
  case (Suc m)
  have "find (\<lambda>q. strings_HasPrefix s q) qs = None"
    using assms by (auto simp: find_None_iff strings_HasPrefix_def neq_Nil_conv)
      (metis hd_take length_greater_0_conv list.sel(1) list.discI take_eq_Nil)
  with Suc show ?thesis by simp
qed simp

lemma TrimSpace_id:
  assumes "s \<noteq> []" "hd s \<notin> set (map hd space_seqs)" "last s \<notin> set (map last space_seqs)"
  shows "strings_TrimSpace s = s"
proof -
  have ne: "\<And>q. q \<in> set space_seqs \<Longrightarrow> q \<noteq> []" by (auto simp: space_seqs_def)
  have l: "drop_seqs space_seqs (length s) s = s"
    by (rule drop_seqs_id) (use assms(2) ne in \<open>metis imageI set_map\<close>)
  have "drop_seqs (map rev space_seqs) (length s) (rev s) = rev s"
  proof (rule drop_seqs_id)
    fix q assume "q \<in> set (map rev space_seqs)"
    then obtain p where p: "q = rev p" "p \<in> set space_seqs" by auto
    then have "last p \<noteq> last s" using assms(3) by (metis imageI set_map)
    with p ne show "q \<noteq> [] \<and> (rev s = [] \<or> hd q \<noteq> hd (rev s))" by (auto simp: hd_rev)
  qed
  with l show ?thesis by (simp add: strings_TrimSpace_def Let_def)
qed

section \<open>Joining keys with a separator\<close>

text \<open>Joining with a byte the left part does not hold loses nothing.\<close>

lemma join_sep_inj:
  fixes a :: string
  assumes "sep \<notin> set a" "sep \<notin> set a'" "a @ sep # b = a' @ sep # b'"
  shows "a = a' \<and> b = b'"
proof -
  have "strings_Cut (a @ sep # b) sep = (a', b', True)"
    unfolding assms(3) by (rule Cut_append [OF assms(2)])
  then show ?thesis using Cut_append [OF assms(1), of b] by simp
qed

section \<open>Go slices: append order, sorting\<close>

text \<open>\<open>sort.SliceStable\<close> by a strict comparison \<open>lt\<close>: stable insertion from the right.\<close>

fun insert_stable :: "('a \<Rightarrow> 'a \<Rightarrow> bool) \<Rightarrow> 'a \<Rightarrow> 'a list \<Rightarrow> 'a list" where
  "insert_stable lt x [] = [x]"
| "insert_stable lt x (y # ys) = (if lt y x then y # insert_stable lt x ys else x # y # ys)"

definition sort_stable :: "('a \<Rightarrow> 'a \<Rightarrow> bool) \<Rightarrow> 'a list \<Rightarrow> 'a list" where
  "sort_stable lt xs = foldr (insert_stable lt) xs []"

lemma sort_stable_Nil [simp]: "sort_stable lt [] = []"
  by (simp add: sort_stable_def)

lemma sort_stable_Cons [simp]:
  "sort_stable lt (x # xs) = insert_stable lt x (sort_stable lt xs)"
  by (simp add: sort_stable_def)

lemma mset_insert_stable: "mset (insert_stable lt x xs) = add_mset x (mset xs)"
  by (induction xs) auto

lemma mset_sort_stable [simp]: "mset (sort_stable lt xs) = mset xs"
  by (induction xs) (auto simp: mset_insert_stable)

lemma set_sort_stable [simp]: "set (sort_stable lt xs) = set xs"
  by (metis mset_sort_stable set_mset_mset)

lemma length_sort_stable [simp]: "length (sort_stable lt xs) = length xs"
  by (metis mset_sort_stable size_mset)

text \<open>With a comparison that is asymmetric and negatively transitive (a strict weak order) no
  element of the result is preceded by one that must come after it.\<close>

lemma sorted_insert_stable:
  assumes asym: "\<And>a b. lt a b \<Longrightarrow> \<not> lt b a"
    and ntrans: "\<And>a b c. \<not> lt b a \<Longrightarrow> \<not> lt c b \<Longrightarrow> \<not> lt c a"
    and "sorted_wrt (\<lambda>a b. \<not> lt b a) xs"
  shows "sorted_wrt (\<lambda>a b. \<not> lt b a) (insert_stable lt x xs)"
  using assms(3)
proof (induction xs)
  case Nil
  then show ?case by simp
next
  case (Cons y ys)
  have members: "set (insert_stable lt x ys) = insert x (set ys)"
    by (metis mset_insert_stable set_mset_add_mset_insert set_mset_mset)
  show ?case
  proof (cases "lt y x")
    case True
    then show ?thesis using Cons asym [OF True] by (simp add: members)
  next
    case False
    with Cons.prems have "\<And>z. z \<in> set ys \<Longrightarrow> \<not> lt z x" using ntrans by auto
    with False Cons.prems show ?thesis by simp
  qed
qed

lemma sorted_sort_stable:
  assumes "\<And>a b. lt a b \<Longrightarrow> \<not> lt b a"
    and "\<And>a b c. \<not> lt b a \<Longrightarrow> \<not> lt c b \<Longrightarrow> \<not> lt c a"
  shows "sorted_wrt (\<lambda>a b. \<not> lt b a) (sort_stable lt xs)"
  by (induction xs) (simp_all add: sorted_insert_stable [of lt, OF assms])

text \<open>Only the comparisons between members matter.\<close>

lemma insert_stable_cong:
  "(\<And>y. y \<in> set ys \<Longrightarrow> lt y x = lt' y x) \<Longrightarrow> insert_stable lt x ys = insert_stable lt' x ys"
  by (induction ys) auto

lemma sort_stable_cong:
  "(\<And>a b. a \<in> set xs \<Longrightarrow> b \<in> set xs \<Longrightarrow> lt a b = lt' a b) \<Longrightarrow> sort_stable lt xs = sort_stable lt' xs"
proof (induction xs)
  case (Cons x xs)
  then have "sort_stable lt xs = sort_stable lt' xs" by simp
  then show ?case using Cons.prems by (auto intro!: insert_stable_cong)
qed simp

lemma list_all2_ex2: "list_all2 P xs ys \<Longrightarrow> y \<in> set ys \<Longrightarrow> \<exists>x \<in> set xs. P x y"
  by (induction rule: list_all2_induct) auto

lemma map_Some_rel: "map f xs = map Some ys \<Longrightarrow> list_all2 (\<lambda>x y. x \<in> set xs \<and> f x = Some y) xs ys"
proof (induction xs arbitrary: ys)
  case (Cons x xs)
  then obtain y zs where ys: "ys = y # zs" "f x = Some y" "map f xs = map Some zs" by (cases ys) auto
  with Cons.IH [OF ys(3)] show ?case by (auto elim!: list_all2_mono)
qed simp

section \<open>Association lists with unique keys (SQL tables with a primary key)\<close>

lemma distinct_map_filter: "distinct (map f xs) \<Longrightarrow> distinct (map f (filter P xs))"
  by (induction xs) auto

lemma distinct_map_eq:
  "distinct (map f xs) \<Longrightarrow> x \<in> set xs \<Longrightarrow> y \<in> set xs \<Longrightarrow> f x = f y \<Longrightarrow> x = y"
  by (metis distinct_map inj_onD)

lemma find_unique:
  assumes "distinct (map f xs)" "x \<in> set xs" "f x = k"
  shows "find (\<lambda>y. f y = k) xs = Some x"
  using assms by (induction xs) force+

lemma find_Some_iff_unique:
  assumes "distinct (map f xs)"
  shows "find (\<lambda>y. f y = k) xs = Some x \<longleftrightarrow> x \<in> set xs \<and> f x = k"
  using assms find_unique [OF assms, of x k] by (auto simp: find_Some_iff)

lemma find_None_iff_notin: "find (\<lambda>y. f y = k) xs = None \<longleftrightarrow> k \<notin> f ` set xs"
  by (auto simp: find_None_iff)

section \<open>Deduplication\<close>

text \<open>The first element with each key, in order.\<close>

fun first_by :: "('a \<Rightarrow> 'k) \<Rightarrow> 'a list \<Rightarrow> 'a list" where
  "first_by f [] = []"
| "first_by f (x # xs) = x # filter (\<lambda>y. f y \<noteq> f x) (first_by f xs)"

lemma first_by_filter: "first_by f (filter (\<lambda>x. P (f x)) xs) = filter (\<lambda>x. P (f x)) (first_by f xs)"
  by (induction xs) (auto simp: conj_commute intro!: filter_cong)

lemma first_by_distinct: "distinct (map f (first_by f xs))"
  by (induction xs) (auto simp: distinct_map_filter)

lemma first_by_keys: "f ` set (first_by f xs) = f ` set xs"
proof (induction xs)
  case (Cons x xs)
  have "f ` set (first_by f (x # xs)) = insert (f x) (f ` set (first_by f xs))" by auto
  with Cons show ?case by simp
qed simp

lemma first_by_find: "x \<in> set (first_by f xs) \<longleftrightarrow> find (\<lambda>y. f y = f x) xs = Some x"
  by (induction xs) auto

lemma first_by_subset: "set (first_by f xs) \<subseteq> set xs"
  by (induction xs) auto

lemma first_by_id: "distinct (map f xs) \<Longrightarrow> first_by f xs = xs"
  by (induction xs) (auto simp: filter_id_conv image_iff)

text \<open>A running scan that skips the keys seen so far.\<close>

lemma first_by_Cons_seen:
  "first_by f (filter (\<lambda>y. f y \<notin> insert (f x) seen) xs)
    = filter (\<lambda>y. f y \<noteq> f x) (first_by f (filter (\<lambda>y. f y \<notin> seen) xs))"
proof -
  have "filter (\<lambda>y. f y \<notin> insert (f x) seen) xs = filter (\<lambda>y. f y \<noteq> f x) (filter (\<lambda>y. f y \<notin> seen) xs)"
    by (simp add: conj_commute)
  then show ?thesis by (simp only: first_by_filter [of f "\<lambda>k. k \<noteq> f x"])
qed

end
