(* ===== verification/GoFloat.thy ===== *)
theory GoFloat
  imports Prelude "HOL-Library.Log_Nat"
begin

text \<open>
  Go's \<open>float64\<close> arithmetic: a finite double is the rational it denotes, and every operation
  is the exact rational operation followed by \<open>fl64\<close>, IEEE 754 rounding to nearest, ties to
  even, with 53 bits of precision and gradual underflow at \<open>2 ^ -1074\<close>. Overflow to infinity is
  not represented: the costs computed here stay below \<open>2 ^ 61\<close> (theorem \<open>cost_bounds\<close> of
  theory Pricing). The lemmas give monotonicity and the relative error of one rounding.
\<close>

section \<open>Rounding\<close>

type_synonym float64 = rat

text \<open>The exponent \<open>e\<close> with \<open>2 ^ e \<le> x < 2 ^ (e + 1)\<close>, from the bit lengths of \<open>x\<close>'s
  numerator and denominator.\<close>

definition ilog2 :: "rat \<Rightarrow> int" where
  "ilog2 x = (case quotient_of x of (n, d) \<Rightarrow>
     let k = bitlen n - bitlen d in if 2 powi k \<le> x then k else k - 1)"

text \<open>Round to the nearest integer, ties to even.\<close>

definition rne :: "rat \<Rightarrow> int" where
  "rne x = (let f = \<lfloor>x\<rfloor>; r = x - of_int f in
     if r < 1/2 then f else if 1/2 < r then f + 1 else if even f then f else f + 1)"

text \<open>The exponent of the last place of the double nearest to \<open>x\<close>.\<close>

definition quantum :: "rat \<Rightarrow> int" where
  "quantum x = max (ilog2 \<bar>x\<bar> - 52) (-1074)"

definition fl64 :: "rat \<Rightarrow> float64" where
  "fl64 x = (if x = 0 then 0 else of_int (rne (x / 2 powi (quantum x))) * 2 powi (quantum x))"

definition f64_add :: "float64 \<Rightarrow> float64 \<Rightarrow> float64" where "f64_add a b = fl64 (a + b)"
definition f64_mul :: "float64 \<Rightarrow> float64 \<Rightarrow> float64" where "f64_mul a b = fl64 (a * b)"
definition f64_div :: "float64 \<Rightarrow> float64 \<Rightarrow> float64" where "f64_div a b = fl64 (a / b)"

text \<open>The conversion \<open>float64(n)\<close> of an \<open>int64\<close>.\<close>

definition f64_of_i64 :: "i64 \<Rightarrow> float64" where "f64_of_i64 n = fl64 (of_int (sint n))"

section \<open>The exponent\<close>

lemma powi2_pos [simp]: "0 < (2 :: rat) powi k"
  by (simp add: zero_less_power_int)

lemma powi2_mono: "i \<le> j \<Longrightarrow> (2 :: rat) powi i \<le> 2 powi j"
  by (rule power_int_increasing) simp_all

lemma powi2_less_iff: "(2 :: rat) powi i < 2 powi j \<longleftrightarrow> i < j"
proof
  show "i < j" if "(2 :: rat) powi i < 2 powi j"
    using that powi2_mono [of j i] by (meson not_le)
  show "(2 :: rat) powi i < 2 powi j" if "i < j"
    using that by (rule power_int_strict_increasing) simp
qed

lemma powi2_add: "(2 :: rat) powi (i + j) = 2 powi i * 2 powi j"
  by (simp add: power_int_add)

lemma powi2_diff: "(2 :: rat) powi (i - j) = 2 powi i / 2 powi j"
  by (simp add: power_int_diff)

lemma powi2_nat: "0 \<le> k \<Longrightarrow> (2 :: rat) powi k = of_int (2 ^ nat k)"
  by (simp add: power_int_def)

lemma bitlen_rat_bounds:
  assumes "0 < n"
  shows "2 powi (bitlen n - 1) \<le> (of_int n :: rat)" and "(of_int n :: rat) < 2 powi (bitlen n)"
proof -
  have b: "1 \<le> bitlen n" using assms bitlen_le_iff_power [of n 0] by (simp add: not_le [symmetric])
  have "2 ^ nat (bitlen n - 1) \<le> n \<and> n < 2 ^ nat (bitlen n)"
    using bitlen_bounds [OF assms] by simp
  then show "2 powi (bitlen n - 1) \<le> (of_int n :: rat)" "(of_int n :: rat) < 2 powi (bitlen n)"
    using b by (simp_all add: powi2_nat del: of_int_power)
qed

lemma ilog2_bounds:
  assumes "0 < x"
  shows "2 powi (ilog2 x) \<le> x \<and> x < 2 powi (ilog2 x + 1)"
proof -
  obtain n d where q: "quotient_of x = (n, d)" by (cases "quotient_of x")
  have d: "0 < d" using q by (rule quotient_of_denom_pos)
  have x: "x = of_int n / of_int d" using q by (rule quotient_of_div)
  have n: "0 < n" using assms d x by (simp add: zero_less_divide_iff)
  let ?k = "bitlen n - bitlen d"
  have "x < 2 powi (bitlen n) / 2 powi (bitlen d - 1)"
    unfolding x using bitlen_rat_bounds [OF n] bitlen_rat_bounds [OF d] d n
    by (intro frac_less) simp_all
  also have "\<dots> = 2 powi (?k + 1)" by (simp add: powi2_diff [symmetric] algebra_simps)
  finally have up: "x < 2 powi (?k + 1)" .
  have "2 powi (bitlen n - 1) / 2 powi (bitlen d) \<le> x"
    unfolding x using bitlen_rat_bounds [OF n] bitlen_rat_bounds [OF d] d n
    by (intro frac_le) simp_all
  then have low: "2 powi (?k - 1) \<le> x" by (simp add: powi2_diff [symmetric] algebra_simps)
  show ?thesis using up low by (simp add: ilog2_def q Let_def)
qed

lemma ilog2_eqI:
  assumes "2 powi e \<le> x" "x < 2 powi (e + 1)"
  shows "ilog2 x = e"
proof -
  have x: "0 < x" using assms(1) powi2_pos [of e] by linarith
  have "(2 :: rat) powi (ilog2 x) < 2 powi (e + 1)" "(2 :: rat) powi e < 2 powi (ilog2 x + 1)"
    using ilog2_bounds [OF x] assms by linarith+
  then show ?thesis by (simp add: powi2_less_iff)
qed

lemma ilog2_mono: "0 < x \<Longrightarrow> x \<le> y \<Longrightarrow> ilog2 x \<le> ilog2 y"
proof -
  assume "0 < x" "x \<le> y"
  then have "2 powi (ilog2 x) \<le> x" "y < 2 powi (ilog2 y + 1)"
    using ilog2_bounds [of x] ilog2_bounds [of y] by auto
  then have "(2 :: rat) powi (ilog2 x) < 2 powi (ilog2 y + 1)" using \<open>x \<le> y\<close> by linarith
  then show ?thesis by (simp add: powi2_less_iff)
qed

section \<open>Rounding to an integer\<close>

lemma rne_error: "\<bar>of_int (rne x) - x\<bar> \<le> 1/2"
  using floor_correct [of x] by (auto simp: rne_def Let_def abs_le_iff)

lemma rne_of_int [simp]: "rne (of_int n) = n"
  by (simp add: rne_def)

lemma rne_mono: "x \<le> y \<Longrightarrow> rne x \<le> rne y"
proof -
  assume le: "x \<le> y"
  have near: "\<lfloor>z\<rfloor> \<le> rne z \<and> rne z \<le> \<lfloor>z\<rfloor> + 1" for z
    by (simp add: rne_def Let_def)
  from le have "\<lfloor>x\<rfloor> \<le> \<lfloor>y\<rfloor>" by (rule floor_mono)
  then consider "\<lfloor>x\<rfloor> = \<lfloor>y\<rfloor>" | "\<lfloor>x\<rfloor> + 1 \<le> \<lfloor>y\<rfloor>" by linarith
  then show ?thesis
  proof cases
    case 1
    with le show ?thesis by (auto simp: rne_def Let_def)
  next
    case 2
    with near [of x] near [of y] show ?thesis by linarith
  qed
qed

lemma rne_minus: "rne (- x) = - rne x"
proof (cases "x \<in> \<int>")
  case True
  then obtain n where "x = of_int n" by (auto elim: Ints_cases)
  then show ?thesis by (simp flip: of_int_minus)
next
  case False
  have f: "\<lfloor>- x\<rfloor> = - \<lfloor>x\<rfloor> - 1"
  proof (rule floor_unique)
    have "of_int \<lfloor>x\<rfloor> \<noteq> x" using False Ints_of_int by metis
    then have "of_int \<lfloor>x\<rfloor> < x" using of_int_floor_le [of x] by linarith
    then show "- x < of_int (- \<lfloor>x\<rfloor> - 1) + 1" by simp
    show "of_int (- \<lfloor>x\<rfloor> - 1) \<le> - x" using floor_correct [of x] by simp
  qed
  show ?thesis unfolding rne_def Let_def f by (auto simp: algebra_simps)
qed

section \<open>Rounding to a double\<close>

lemma fl64_0 [simp]: "fl64 0 = 0"
  by (simp add: fl64_def)

lemma fl64_minus: "fl64 (- x) = - fl64 x"
  by (simp add: fl64_def quantum_def rne_minus)

lemma fl64_error_quantum: "x \<noteq> 0 \<Longrightarrow> \<bar>fl64 x - x\<bar> \<le> 2 powi (quantum x) / 2"
proof -
  assume "x \<noteq> 0"
  let ?q = "(2 :: rat) powi (quantum x)"
  have "fl64 x - x = (of_int (rne (x / ?q)) - x / ?q) * ?q"
    using \<open>x \<noteq> 0\<close> by (simp add: fl64_def left_diff_distrib)
  then have "\<bar>fl64 x - x\<bar> = \<bar>of_int (rne (x / ?q)) - x / ?q\<bar> * ?q"
    by (simp add: abs_mult)
  also have "\<dots> \<le> 1/2 * ?q" by (intro mult_right_mono rne_error) (simp add: less_imp_le)
  finally show ?thesis by simp
qed

text \<open>Half an ulp is at most one part in \<open>2 ^ 53\<close> of a number in the normal range.\<close>

lemma fl64_rel_error:
  assumes "2 powi (-1022) \<le> \<bar>x\<bar>"
  shows "\<bar>fl64 x - x\<bar> \<le> \<bar>x\<bar> / 2 ^ 53"
proof -
  have x: "x \<noteq> 0" "0 < \<bar>x\<bar>" using assms powi2_pos [of "-1022"] by (auto simp del: powi2_pos)
  have "-1022 < ilog2 \<bar>x\<bar> + 1"
    using assms ilog2_bounds [OF x(2)] powi2_less_iff [of "-1022" "ilog2 \<bar>x\<bar> + 1"] by linarith
  then have q: "quantum x = ilog2 \<bar>x\<bar> - 52" by (simp add: quantum_def)
  have "(2 :: rat) powi (quantum x) / 2 = 2 powi (ilog2 \<bar>x\<bar>) / 2 ^ 53"
    unfolding q by (simp add: powi2_diff)
  also have "\<dots> \<le> \<bar>x\<bar> / 2 ^ 53"
    using ilog2_bounds [OF x(2)] by (intro divide_right_mono) simp_all
  finally show ?thesis using fl64_error_quantum [OF x(1)] by linarith
qed

lemma fl64_nonneg: "0 \<le> x \<Longrightarrow> 0 \<le> fl64 x"
proof (cases "x = 0")
  case False
  assume "0 \<le> x"
  then have "0 \<le> x / 2 powi (quantum x)" by (simp add: less_imp_le)
  then have "rne 0 \<le> rne (x / 2 powi (quantum x))" by (rule rne_mono)
  moreover have "rne 0 = 0" using rne_of_int [of 0] by simp
  ultimately show ?thesis using False by (simp add: fl64_def less_imp_le)
qed simp

lemma fl64_mono_pos:
  assumes "0 < x" "x \<le> y"
  shows "fl64 x \<le> fl64 y"
proof -
  have le: "quantum x \<le> quantum y" using ilog2_mono [of x y] assms by (auto simp: quantum_def)
  show ?thesis
  proof (cases "quantum x = quantum y")
    case True
    have "rne (x / 2 powi (quantum y)) \<le> rne (y / 2 powi (quantum y))"
      using assms by (intro rne_mono divide_right_mono) (simp_all add: less_imp_le)
    with True assms show ?thesis by (simp add: fl64_def)
  next
    case False
    with le have lt: "quantum x < quantum y" by simp
    then have qy: "quantum y = ilog2 y - 52" and e: "ilog2 x < ilog2 y"
      using assms by (auto simp: quantum_def max_def split: if_splits)
    let ?e = "ilog2 y"
    have "x \<le> 2 powi ?e"
    proof -
      have "x < 2 powi (ilog2 x + 1)" using ilog2_bounds assms(1) by blast
      also have "\<dots> \<le> 2 powi ?e" using e by (intro powi2_mono) simp
      finally show ?thesis by simp
    qed
    then have "x / 2 powi (quantum x) \<le> 2 powi (?e - quantum x)"
      by (simp add: powi2_diff divide_right_mono less_imp_le)
    also have "\<dots> = of_int (2 ^ nat (?e - quantum x))"
      using lt qy by (intro powi2_nat) simp
    finally have "rne (x / 2 powi (quantum x)) \<le> 2 ^ nat (?e - quantum x)"
      using rne_mono rne_of_int by metis
    then have "of_int (rne (x / 2 powi (quantum x))) \<le> (2 :: rat) powi (?e - quantum x)"
      using lt qy by (simp add: powi2_nat del: of_int_power)
    then have "fl64 x \<le> 2 powi (?e - quantum x) * 2 powi (quantum x)"
      using assms(1) by (simp add: fl64_def less_imp_le mult_right_mono)
    then have fx: "fl64 x \<le> 2 powi ?e" by (simp add: powi2_add [symmetric])
    have "of_int (2 ^ 52) \<le> y / 2 powi (quantum y)"
      using ilog2_bounds [of y] assms unfolding qy by (simp add: powi2_diff field_simps)
    then have "2 ^ 52 \<le> rne (y / 2 powi (quantum y))" using rne_mono rne_of_int by metis
    then have "(2 :: rat) powi 52 \<le> of_int (rne (y / 2 powi (quantum y)))" by simp
    then have "2 powi 52 * 2 powi (quantum y) \<le> fl64 y"
      using assms by (simp add: fl64_def less_imp_le mult_right_mono)
    moreover have "(2 :: rat) powi 52 * 2 powi (quantum y) = 2 powi ?e"
      unfolding powi2_add [symmetric] qy by simp
    ultimately have "2 powi ?e \<le> fl64 y" by simp
    with fx show ?thesis by simp
  qed
qed

lemma fl64_mono: "x \<le> y \<Longrightarrow> fl64 x \<le> fl64 y"
proof -
  assume le: "x \<le> y"
  consider "0 < x" | "x \<le> 0" "0 \<le> y" | "y < 0" by linarith
  then show ?thesis
  proof cases
    case 1
    then show ?thesis using le by (rule fl64_mono_pos)
  next
    case 2
    then have "0 \<le> fl64 (- x)" "0 \<le> fl64 y" by (auto intro!: fl64_nonneg)
    then show ?thesis by (simp add: fl64_minus)
  next
    case 3
    then have "fl64 (- y) \<le> fl64 (- x)" using le by (intro fl64_mono_pos) auto
    then show ?thesis by (simp add: fl64_minus)
  qed
qed

section \<open>Exact values and bounds\<close>

lemma fl64_powi2: "-1022 \<le> k \<Longrightarrow> fl64 (2 powi k) = 2 powi k"
proof -
  assume k: "-1022 \<le> k"
  have "ilog2 (2 powi k) = k" by (rule ilog2_eqI) (simp_all add: powi2_less_iff)
  then have q: "quantum (2 powi k) = k - 52" using k by (simp add: quantum_def less_imp_le)
  have "(2 :: rat) powi k / 2 powi (k - 52) = of_int (2 ^ 52)" by (simp add: powi2_diff)
  then have "rne (2 powi k / 2 powi (k - 52)) = 2 ^ 52" by (metis rne_of_int)
  then have "fl64 (2 powi k) = 2 ^ 52 * 2 powi (k - 52)"
    by (simp add: fl64_def q del: power_int_eq_0_iff) (simp add: powi2_diff)
  then show ?thesis by (simp add: powi2_diff)
qed

lemma fl64_abs_le_pow2: "\<bar>x\<bar> \<le> 2 ^ k \<Longrightarrow> \<bar>fl64 x\<bar> \<le> 2 ^ k"
proof -
  assume x: "\<bar>x\<bar> \<le> 2 ^ k"
  have p: "fl64 (2 ^ k) = 2 ^ k" using fl64_powi2 [of "int k"] by simp
  have "fl64 x \<le> 2 ^ k" using fl64_mono [of x "2 ^ k"] x p by simp
  moreover have "- (2 ^ k) \<le> fl64 x" using fl64_mono [of "- (2 ^ k)" x] x p by (simp add: fl64_minus)
  ultimately show ?thesis by (simp add: abs_le_iff)
qed

section \<open>Accumulated relative error\<close>

text \<open>\<open>near k a x\<close>: \<open>a\<close> is \<open>x \<ge> 0\<close> up to \<open>k\<close> roundings.\<close>

definition near :: "nat \<Rightarrow> rat \<Rightarrow> rat \<Rightarrow> bool" where
  "near k a x \<longleftrightarrow> 0 \<le> x \<and> (1 - 1 / 2 ^ 53) ^ k * x \<le> a \<and> a \<le> (1 + 1 / 2 ^ 53) ^ k * x"

lemma near_refl: "0 \<le> x \<Longrightarrow> near 0 x x"
  by (simp add: near_def)

lemma near_nonneg: "near k a x \<Longrightarrow> 0 \<le> a"
proof -
  assume "near k a x"
  then have "0 \<le> (1 - 1 / 2 ^ 53) ^ k * x" "(1 - 1 / 2 ^ 53) ^ k * x \<le> a" by (simp_all add: near_def)
  then show ?thesis by linarith
qed

lemma near_weaken: "near k a x \<Longrightarrow> k \<le> l \<Longrightarrow> near l a x"
proof -
  assume n: "near k a x" and "k \<le> l"
  then have "(1 - 1 / 2 ^ 53 :: rat) ^ l \<le> (1 - 1 / 2 ^ 53) ^ k"
    and "(1 + 1 / 2 ^ 53 :: rat) ^ k \<le> (1 + 1 / 2 ^ 53) ^ l"
    by (auto intro: power_decreasing power_increasing)
  with n show ?thesis unfolding near_def by (meson mult_right_mono order_trans)
qed

lemma near_mult: "near k a x \<Longrightarrow> near l b y \<Longrightarrow> near (k + l) (a * b) (x * y)"
proof -
  assume a: "near k a x" and b: "near l b y"
  have "((1 - 1 / 2 ^ 53) ^ k * x) * ((1 - 1 / 2 ^ 53) ^ l * y) \<le> a * b"
    using a b near_nonneg [OF a] by (intro mult_mono) (simp_all add: near_def)
  moreover have "a * b \<le> ((1 + 1 / 2 ^ 53) ^ k * x) * ((1 + 1 / 2 ^ 53) ^ l * y)"
    using a b near_nonneg [OF b] by (intro mult_mono) (simp_all add: near_def)
  ultimately show ?thesis using a b by (simp add: near_def power_add ac_simps)
qed

lemma near_divide: "near k a x \<Longrightarrow> 0 < c \<Longrightarrow> near k (a / c) (x / c)"
  unfolding near_def by (simp add: divide_le_cancel pos_le_divide_eq pos_divide_le_eq)

lemma near_add: "near k a x \<Longrightarrow> near k b y \<Longrightarrow> near k (a + b) (x + y)"
  unfolding near_def by (simp add: distrib_left)

text \<open>One more rounding, away from the underflow range.\<close>

lemma near_fl64:
  assumes n: "near k a x" and k: "k \<le> 20" and x: "x = 0 \<or> 1 / 10 ^ 8 \<le> x"
  shows "near (Suc k) (fl64 a) x"
proof (cases "x = 0")
  case True
  with n have "a = 0" by (simp add: near_def)
  with True show ?thesis by (simp add: near_def)
next
  case False
  with x have x8: "1 / 10 ^ 8 \<le> x" by simp
  have "(1 - 1 / 2 ^ 53 :: rat) ^ 20 \<le> (1 - 1 / 2 ^ 53) ^ k" using k by (intro power_decreasing) simp_all
  moreover have "(1 / 2 :: rat) \<le> (1 - 1 / 2 ^ 53) ^ 20" by (simp add: power_divide)
  ultimately have "(1 / 2 :: rat) \<le> (1 - 1 / 2 ^ 53) ^ k" by (rule order_trans [rotated])
  then have "1 / 2 * (1 / 10 ^ 8) \<le> (1 - 1 / 2 ^ 53) ^ k * x" using x8 by (intro mult_mono) simp_all
  then have a: "1 / (2 * 10 ^ 8) \<le> a" using n by (simp add: near_def)
  have "(2 :: rat) powi (-1022) \<le> 2 powi (-30)" by (rule powi2_mono) simp
  also have "\<dots> \<le> 1 / (2 * 10 ^ 8)" by (simp add: power_int_minus)
  finally have "2 powi (-1022) \<le> \<bar>a\<bar>" using a by simp
  then have e: "\<bar>fl64 a - a\<bar> \<le> a / 2 ^ 53" using fl64_rel_error [of a] a by simp
  then have "a - a / 2 ^ 53 \<le> fl64 a" "fl64 a \<le> a + a / 2 ^ 53" by linarith+
  then have "(1 - 1 / 2 ^ 53) * a \<le> fl64 a" "fl64 a \<le> (1 + 1 / 2 ^ 53) * a"
    by (simp_all add: algebra_simps)
  moreover have "(1 - 1 / 2 ^ 53) * ((1 - 1 / 2 ^ 53) ^ k * x) \<le> (1 - 1 / 2 ^ 53) * a"
    "(1 + 1 / 2 ^ 53) * a \<le> (1 + 1 / 2 ^ 53) * ((1 + 1 / 2 ^ 53) ^ k * x)"
    using n by (intro mult_left_mono; simp add: near_def)+
  ultimately show ?thesis using n by (simp add: near_def mult.assoc)
qed

end
