(* ===== verification/GoTime.thy ===== *)
theory GoTime
  imports Prelude
begin

text \<open>
  The part of package \<open>time\<close> that \<open>WindowBounds\<close> (src/internal/domain/usage/summary.go) uses:
  the calendar fields of an instant in UTC, \<open>time.Date\<close>, \<open>Weekday\<close> and \<open>AddDate\<close> in days.
  An instant is a number of nanoseconds since 1970-01-01T00:00:00Z; a day number counts days
  since 0001-01-01 of the proleptic Gregorian calendar.
\<close>

section \<open>The calendar\<close>

abbreviation day_ns :: int where "day_ns \<equiv> 24 * hour"

definition is_leap :: "int \<Rightarrow> bool" where
  "is_leap y \<longleftrightarrow> y mod 4 = 0 \<and> (y mod 100 \<noteq> 0 \<or> y mod 400 = 0)"

definition days_before_year :: "int \<Rightarrow> int" where
  "days_before_year y = 365 * (y - 1) + (y - 1) div 4 - (y - 1) div 100 + (y - 1) div 400"

definition days_in_year :: "int \<Rightarrow> int" where
  "days_in_year y = (if is_leap y then 366 else 365)"

definition month_starts :: "int list" where
  "month_starts = [0, 31, 59, 90, 120, 151, 181, 212, 243, 273, 304, 334, 365]"

definition days_before_month :: "bool \<Rightarrow> nat \<Rightarrow> int" where
  "days_before_month leap m = month_starts ! (m - 1) + (if leap \<and> 2 < m then 1 else 0)"

text \<open>The year holding day \<open>n\<close>: an estimate that is never too large and at most one short.\<close>

definition year_of :: "int \<Rightarrow> int" where
  "year_of n = (let y = 400 * n div 146097 + 1
                in if days_before_year (y + 1) \<le> n then y + 1 else y)"

text \<open>The month holding day \<open>yd\<close> of the year: the last one, from \<open>m\<close> down, not after it.\<close>

fun month_search :: "bool \<Rightarrow> int \<Rightarrow> nat \<Rightarrow> nat" where
  "month_search leap yd 0 = 1"
| "month_search leap yd (Suc m) =
     (if days_before_month leap (Suc m) \<le> yd then Suc m else month_search leap yd m)"

definition month_of :: "bool \<Rightarrow> int \<Rightarrow> nat" where
  "month_of leap yd = month_search leap yd 12"

definition epoch_day :: int where "epoch_day = 719162"

definition day_number :: "time \<Rightarrow> int" where
  "day_number t = t div day_ns + epoch_day"

definition time_Year :: "time \<Rightarrow> int" where
  "time_Year t = year_of (day_number t)"

definition year_day :: "time \<Rightarrow> int" where
  "year_day t = day_number t - days_before_year (time_Year t)"

definition time_Month :: "time \<Rightarrow> nat" where
  "time_Month t = month_of (is_leap (time_Year t)) (year_day t)"

definition time_Day :: "time \<Rightarrow> int" where
  "time_Day t = year_day t - days_before_month (is_leap (time_Year t)) (time_Month t) + 1"

text \<open>\<open>time.Weekday\<close>: Sunday is 0; 1970-01-01 was a Thursday.\<close>

definition time_Weekday :: "time \<Rightarrow> int" where
  "time_Weekday t = (t div day_ns + 4) mod 7"

text \<open>\<open>time.Date(y, m, d, 0, 0, 0, 0, time.UTC)\<close> for a month 1 to 12; \<open>d\<close> may be any integer
  (Go normalises it, which on a linear day count is addition).\<close>

definition time_Date :: "int \<Rightarrow> nat \<Rightarrow> int \<Rightarrow> time" where
  "time_Date y m d =
     (days_before_year y + days_before_month (is_leap y) m + (d - 1) - epoch_day) * day_ns"

text \<open>\<open>t.AddDate(0, 0, k)\<close> of an instant \<open>t\<close> in UTC: its date with the day moved by \<open>k\<close>, at
  the same time of day.\<close>

definition time_AddDays :: "time \<Rightarrow> int \<Rightarrow> time" where
  "time_AddDays t k = time_Date (time_Year t) (time_Month t) (time_Day t + k) + t mod day_ns"

section \<open>Lemmas\<close>

lemma days_before_year_Suc: "days_before_year (y + 1) = days_before_year y + days_in_year y"
proof -
  have d: "(y :: int) div k = (y - 1) div k + (if y mod k = 0 then 1 else 0)" if "0 < k" for k
  proof -
    have "(y - 1) div k = (if y mod k = 0 then y div k - 1 else y div k)"
    proof (cases "y mod k = 0")
      case True
      then have y: "y = k * (y div k)" by (simp add: mult_div_mod_eq [symmetric] mod_0_imp_dvd)
      have "(y - 1) div k = (k * (y div k - 1) + (k - 1)) div k" by (subst y) (simp add: algebra_simps)
      also have "\<dots> = y div k - 1" using that by (simp add: div_pos_pos_trivial)
      finally show ?thesis using True by simp
    next
      case False
      have "0 < y mod k" "y mod k < k"
        using False pos_mod_sign [OF that, of y] pos_mod_bound [OF that, of y] by linarith+
      then have "(k * (y div k) + (y mod k - 1)) div k = y div k" by (simp add: div_pos_pos_trivial)
      moreover have "k * (y div k) + (y mod k - 1) = y - 1" by simp
      ultimately show ?thesis using False by simp
    qed
    then show ?thesis by simp
  qed
  have "100 dvd (400 :: int)" "4 dvd (100 :: int)" by simp_all
  then have m: "y mod 400 = 0 \<Longrightarrow> y mod 100 = 0" "y mod 100 = 0 \<Longrightarrow> y mod 4 = 0"
    by (metis dvd_trans mod_0_imp_dvd dvd_imp_mod_0)+
  have "days_before_year (y + 1) = 365 * y + y div 4 - y div 100 + y div 400"
    by (simp only: days_before_year_def add_diff_cancel_right')
  also have "\<dots> = 365 * y + ((y - 1) div 4 + (if y mod 4 = 0 then 1 else 0))
      - ((y - 1) div 100 + (if y mod 100 = 0 then 1 else 0))
      + ((y - 1) div 400 + (if y mod 400 = 0 then 1 else 0))"
    by (simp only: d [of 4] d [of 100] d [of 400] zero_less_numeral)
  also have "\<dots> = days_before_year y + days_in_year y"
    unfolding days_before_year_def days_in_year_def is_leap_def using m
    by (cases "y mod 4 = 0"; cases "y mod 100 = 0"; cases "y mod 400 = 0") simp_all
  finally show ?thesis .
qed

lemma days_in_year_bounds: "365 \<le> days_in_year y" "days_in_year y \<le> 366"
  by (simp_all add: days_in_year_def)

lemma days_before_year_mono: "y \<le> z \<Longrightarrow> days_before_year y \<le> days_before_year z"
proof (induction z rule: int_ge_induct)
  case base
  then show ?case by simp
next
  case (step i)
  then show ?case using days_before_year_Suc [of i] days_in_year_bounds [of i] by linarith
qed

text \<open>Four hundred times the day count of a year stays close to 146097 times its number.\<close>

lemma days_before_year_close:
  "146097 * (y - 1) - 699 \<le> 400 * days_before_year y" "400 * days_before_year y \<le> 146097 * (y - 1) + 396"
proof -
  define z where "z = y - 1"
  define r where "r = z mod 400"
  define q where "q = z div 400"
  have z: "z = 400 * q + r" by (simp add: q_def r_def)
  have r: "0 \<le> r" "r < 400" by (simp_all add: r_def)
  have e: "400 * days_before_year y - 146097 * z
      = 400 * (r div 4) - 400 * (r div 100) + 400 * (r div 400) - 97 * r"
  proof -
    have d: "(400 * q + r) div 4 = 100 * q + r div 4" "(400 * q + r) div 100 = 4 * q + r div 100"
      "(400 * q + r) div 400 = q + r div 400"
      by (simp_all add: div_plus_div_distrib_dvd_left)
    show ?thesis unfolding days_before_year_def z_def [symmetric] z d by (simp add: algebra_simps)
  qed
  have "r div 400 = 0" using r by (simp add: div_pos_pos_trivial)
  moreover have "4 * (r div 4) \<le> r" "r - 3 \<le> 4 * (r div 4)" by presburger+
  moreover have "0 \<le> r div 100" "r div 100 \<le> 3" "100 * (r div 100) \<le> r" "r < 100 * (r div 100) + 100"
    using r by presburger+
  ultimately have "- 699 \<le> 400 * days_before_year y - 146097 * z"
    and "400 * days_before_year y - 146097 * z \<le> 396"
    unfolding e by linarith+
  then show "146097 * (y - 1) - 699 \<le> 400 * days_before_year y"
    "400 * days_before_year y \<le> 146097 * (y - 1) + 396" by (simp_all add: z_def)
qed

lemma year_of_bounds:
  "days_before_year (year_of n) \<le> n" "n < days_before_year (year_of n + 1)"
proof -
  define e where "e = 400 * n div 146097"
  have e: "146097 * e \<le> 400 * n" "400 * n < 146097 * e + 146097"
    using mult_div_mod_eq [of 146097 "400 * n"] pos_mod_sign [of 146097 "400 * n"]
      pos_mod_bound [of 146097 "400 * n"] unfolding e_def by linarith+
  have low: "days_before_year (e + 1) \<le> n"
  proof (rule ccontr)
    assume "\<not> days_before_year (e + 1) \<le> n"
    then have "400 * n + 400 \<le> 400 * days_before_year (e + 1)" by simp
    with days_before_year_close(2) [of "e + 1"] e show False by simp
  qed
  have high: "n < days_before_year (e + 3)"
    using days_before_year_close(1) [of "e + 3"] e by simp
  show "days_before_year (year_of n) \<le> n" "n < days_before_year (year_of n + 1)"
    using low high by (auto simp: year_of_def Let_def e_def [symmetric] add.assoc)
qed

lemma year_of_unique:
  assumes "days_before_year y \<le> n" "n < days_before_year (y + 1)"
  shows "year_of n = y"
proof -
  have "\<not> y + 1 \<le> year_of n"
    using days_before_year_mono [of "y + 1" "year_of n"] year_of_bounds [of n] assms by linarith
  moreover have "\<not> year_of n + 1 \<le> y"
    using days_before_year_mono [of "year_of n + 1" y] year_of_bounds [of n] assms by linarith
  ultimately show ?thesis by linarith
qed

lemma year_day_bounds: "0 \<le> year_day t" "year_day t < days_in_year (time_Year t)"
  using year_of_bounds [of "day_number t"] days_before_year_Suc [of "time_Year t"]
  by (simp_all add: year_day_def time_Year_def)

lemma month_search_bounds:
  assumes "0 \<le> yd" "yd < days_before_month leap (Suc m)" "m \<le> 12" "0 < m"
  shows "days_before_month leap (month_search leap yd m) \<le> yd
    \<and> yd < days_before_month leap (Suc (month_search leap yd m))
    \<and> 1 \<le> month_search leap yd m \<and> month_search leap yd m \<le> 12"
  using assms
proof (induction m)
  case 0
  then show ?case by simp
next
  case (Suc m)
  show ?case
  proof (cases "m = 0")
    case True
    with Suc.prems show ?thesis by (simp add: days_before_month_def month_starts_def)
  next
    case False
    with Suc show ?thesis by simp
  qed
qed

lemma month_of_bounds:
  assumes "0 \<le> yd" "yd < (if leap then 366 else 365)"
  shows "days_before_month leap (month_of leap yd) \<le> yd"
    and "yd < days_before_month leap (Suc (month_of leap yd))"
    and "1 \<le> month_of leap yd" and "month_of leap yd \<le> 12"
proof -
  have "yd < days_before_month leap (Suc 12)"
    using assms(2) by (cases leap) (simp_all add: days_before_month_def month_starts_def)
  then have "days_before_month leap (month_of leap yd) \<le> yd
    \<and> yd < days_before_month leap (Suc (month_of leap yd))
    \<and> 1 \<le> month_of leap yd \<and> month_of leap yd \<le> 12"
    unfolding month_of_def by (rule month_search_bounds [OF assms(1)]) simp_all
  then show "days_before_month leap (month_of leap yd) \<le> yd"
    "yd < days_before_month leap (Suc (month_of leap yd))"
    "1 \<le> month_of leap yd" "month_of leap yd \<le> 12" by blast+
qed

lemma days_before_month_mono:
  assumes "1 \<le> m" "m < n" "n \<le> 13"
  shows "days_before_month leap m < days_before_month leap n"
proof -
  have "\<forall>m\<in>set [1..<14]. \<forall>n\<in>set [1..<14]. m < n \<longrightarrow>
      days_before_month True m < days_before_month True n \<and> days_before_month False m < days_before_month False n"
    by (simp add: days_before_month_def month_starts_def upt_rec)
  with assms show ?thesis by (cases leap) auto
qed

text \<open>The fields of an instant give its day back.\<close>

lemma time_Date_today: "time_Date (time_Year t) (time_Month t) (time_Day t) = t - t mod day_ns"
  by (simp add: time_Date_def time_Day_def year_day_def day_number_def algebra_simps
      minus_mod_eq_mult_div)

lemma time_AddDays_eq: "time_AddDays t k = t + k * day_ns"
proof -
  have "time_AddDays t k = time_Date (time_Year t) (time_Month t) (time_Day t) + k * day_ns + t mod day_ns"
    by (simp add: time_AddDays_def time_Date_def algebra_simps)
  then show ?thesis by (simp add: time_Date_today)
qed

lemma time_Month_bounds: "1 \<le> time_Month t" "time_Month t \<le> 12"
  and month_start_le: "days_before_month (is_leap (time_Year t)) (time_Month t) \<le> year_day t"
  and month_end_gt: "year_day t < days_before_month (is_leap (time_Year t)) (Suc (time_Month t))"
  using month_of_bounds [OF year_day_bounds(1) [of t], of "is_leap (time_Year t)"]
    year_day_bounds(2) [of t]
  by (simp_all add: time_Month_def days_in_year_def split: if_splits)

lemma time_Day_ge: "1 \<le> time_Day t"
  using month_start_le [of t] by (simp add: time_Day_def)

text \<open>\<open>time.Date\<close> of a valid date reads back.\<close>

lemma day_number_time_Date:
  "day_number (time_Date y m d) = days_before_year y + days_before_month (is_leap y) m + (d - 1)"
  by (simp add: day_number_def time_Date_def)

lemma days_before_month_ends:
  "days_before_month (is_leap y) 1 = 0" "days_before_month (is_leap y) (Suc 0) = 0"
  "days_before_month (is_leap y) 13 = days_in_year y"
  by (simp_all add: days_before_month_def month_starts_def days_in_year_def)

lemma time_Year_time_Date:
  assumes "1 \<le> m" "m \<le> 12" "1 \<le> d" "days_before_month (is_leap y) m + d \<le> days_before_month (is_leap y) (Suc m)"
  shows "time_Year (time_Date y m d) = y"
proof -
  have "0 \<le> days_before_month (is_leap y) m"
    using days_before_month_mono [of 1 m "is_leap y"] assms(1,2) days_before_month_ends [of y]
    by (cases "m = 1") simp_all
  moreover have "days_before_month (is_leap y) (Suc m) \<le> days_in_year y"
    using days_before_month_mono [of "Suc m" 13 "is_leap y"] assms(1,2) days_before_month_ends [of y]
    by (cases "m = 12") simp_all
  ultimately show ?thesis
    unfolding time_Year_def day_number_time_Date
    by (intro year_of_unique) (use assms days_before_year_Suc [of y] in linarith)+
qed

lemma month_of_unique:
  assumes "days_before_month leap m \<le> yd" "yd < days_before_month leap (Suc m)" "1 \<le> m" "m \<le> 12"
    "0 \<le> yd" "yd < (if leap then 366 else 365)"
  shows "month_of leap yd = m"
proof -
  note b = month_of_bounds [OF assms(5,6)]
  have mono: "days_before_month leap (Suc i) \<le> days_before_month leap j" if "i < j" "j \<le> 12" for i j
    using days_before_month_mono [of "Suc i" j leap] that by (cases "Suc i = j") simp_all
  have "\<not> month_of leap yd < m" using mono [of "month_of leap yd" m] b assms by linarith
  moreover have "\<not> m < month_of leap yd" using mono [of m "month_of leap yd"] b assms by linarith
  ultimately show ?thesis by simp
qed

text \<open>The first of a month reads back.\<close>

lemma fields_time_Date_1:
  assumes "1 \<le> m" "m \<le> 12"
  shows "time_Year (time_Date y m 1) = y" "time_Month (time_Date y m 1) = m" "time_Day (time_Date y m 1) = 1"
proof -
  have room: "days_before_month (is_leap y) m + 1 \<le> days_before_month (is_leap y) (Suc m)"
    using days_before_month_mono [of m "Suc m" "is_leap y"] assms by simp
  show Y: "time_Year (time_Date y m 1) = y" by (rule time_Year_time_Date [OF assms]) (use room in simp_all)
  have yd: "year_day (time_Date y m 1) = days_before_month (is_leap y) m"
    by (simp add: year_day_def Y day_number_time_Date)
  show M: "time_Month (time_Date y m 1) = m"
    unfolding time_Month_def Y yd
    by (rule month_of_unique)
      (use room assms year_day_bounds [of "time_Date y m 1", unfolded yd Y] in
        \<open>simp_all add: days_in_year_def split: if_splits\<close>)
  show "time_Day (time_Date y m 1) = 1" unfolding time_Day_def Y M yd by simp
qed

lemma time_Date_midnight: "time_Date y m d mod day_ns = 0"
  unfolding time_Date_def by (rule mod_mult_self2_is_0)

end
