(* ===== verification/GoCrypto.thy ===== *)
theory GoCrypto
  imports Prelude
begin

text \<open>
  The standard-library functions the credentials rest on: SHA-256, its HMAC and hexadecimal, on
  byte strings. They are executable; the proofs need lengths and the injectivity of the encoding,
  never a cryptographic assumption about the functions themselves.
\<close>

unbundle bit_operations_syntax

section \<open>SHA-256\<close>

text \<open>Bytes are integers 0 to 255.\<close>

type_synonym w32 = "32 word"

definition sha_k :: "w32 list" where
  "sha_k =
    [0x428A2F98, 0x71374491, 0xB5C0FBCF, 0xE9B5DBA5, 0x3956C25B, 0x59F111F1, 0x923F82A4, 0xAB1C5ED5,
     0xD807AA98, 0x12835B01, 0x243185BE, 0x550C7DC3, 0x72BE5D74, 0x80DEB1FE, 0x9BDC06A7, 0xC19BF174,
     0xE49B69C1, 0xEFBE4786, 0x0FC19DC6, 0x240CA1CC, 0x2DE92C6F, 0x4A7484AA, 0x5CB0A9DC, 0x76F988DA,
     0x983E5152, 0xA831C66D, 0xB00327C8, 0xBF597FC7, 0xC6E00BF3, 0xD5A79147, 0x06CA6351, 0x14292967,
     0x27B70A85, 0x2E1B2138, 0x4D2C6DFC, 0x53380D13, 0x650A7354, 0x766A0ABB, 0x81C2C92E, 0x92722C85,
     0xA2BFE8A1, 0xA81A664B, 0xC24B8B70, 0xC76C51A3, 0xD192E819, 0xD6990624, 0xF40E3585, 0x106AA070,
     0x19A4C116, 0x1E376C08, 0x2748774C, 0x34B0BCB5, 0x391C0CB3, 0x4ED8AA4A, 0x5B9CCA4F, 0x682E6FF3,
     0x748F82EE, 0x78A5636F, 0x84C87814, 0x8CC70208, 0x90BEFFFA, 0xA4506CEB, 0xBEF9A3F7, 0xC67178F2]"

definition sha_h0 :: "w32 list" where
  "sha_h0 =
    [0x6A09E667, 0xBB67AE85, 0x3C6EF372, 0xA54FF53A, 0x510E527F, 0x9B05688C, 0x1F83D9AB, 0x5BE0CD19]"

definition be_bytes :: "nat \<Rightarrow> int \<Rightarrow> int list" where
  "be_bytes k n = map (\<lambda>i. n div 256 ^ i mod 256) (rev [0..<k])"

definition be_word :: "int list \<Rightarrow> w32" where
  "be_word bs = of_int (foldl (\<lambda>a b. a * 256 + b) 0 bs)"

definition sha_pad :: "int list \<Rightarrow> int list" where
  "sha_pad m = m @ 128 # replicate ((119 - length m mod 64) mod 64) 0 @ be_bytes 8 (8 * int (length m))"

fun chunks_of :: "nat \<Rightarrow> nat \<Rightarrow> 'a list \<Rightarrow> 'a list list" where
  "chunks_of k 0 xs = []"
| "chunks_of k (Suc fuel) xs = (if xs = [] then [] else take k xs # chunks_of k fuel (drop k xs))"

text \<open>The message schedule, built backwards: the list holds the latest word first.\<close>

fun sha_extend :: "nat \<Rightarrow> w32 list \<Rightarrow> w32 list" where
  "sha_extend 0 ws = ws"
| "sha_extend (Suc n) ws =
     (let x = ws ! 14; y = ws ! 1;
          s0 = word_rotr 7 x XOR word_rotr 18 x XOR drop_bit 3 x;
          s1 = word_rotr 17 y XOR word_rotr 19 y XOR drop_bit 10 y
      in sha_extend n ((ws ! 15 + s0 + ws ! 6 + s1) # ws))"

definition sha_schedule :: "int list \<Rightarrow> w32 list" where
  "sha_schedule blk = rev (sha_extend 48 (rev (map be_word (chunks_of 4 16 blk))))"

fun sha_round :: "w32 list \<Rightarrow> w32 \<times> w32 \<Rightarrow> w32 list" where
  "sha_round [a, b, c, d, e, f, g, h] (k, w) =
     (let s1 = word_rotr 6 e XOR word_rotr 11 e XOR word_rotr 25 e;
          ch = (e AND f) XOR (NOT e AND g);
          t1 = h + s1 + ch + k + w;
          s0 = word_rotr 2 a XOR word_rotr 13 a XOR word_rotr 22 a;
          maj = (a AND b) XOR (a AND c) XOR (b AND c)
      in [t1 + (s0 + maj), a, b, c, d + t1, e, f, g])"
| "sha_round st kw = st"

definition sha_block :: "w32 list \<Rightarrow> int list \<Rightarrow> w32 list" where
  "sha_block h blk = map2 (+) h (foldl sha_round h (zip sha_k (sha_schedule blk)))"

definition sha_bytes :: "int list \<Rightarrow> int list" where
  "sha_bytes m =
     (let p = sha_pad m
      in concat (map (\<lambda>w. be_bytes 4 (uint w)) (foldl sha_block sha_h0 (chunks_of 64 (length p) p))))"

definition bytes_of :: "string \<Rightarrow> int list" where "bytes_of s = map of_char s"
definition string_of :: "int list \<Rightarrow> string" where "string_of bs = map char_of bs"

definition sha256 :: "string \<Rightarrow> string" where
  "sha256 s = string_of (sha_bytes (bytes_of s))"

definition hmac_sha256 :: "string \<Rightarrow> string \<Rightarrow> string" where
  "hmac_sha256 key msg =
     (let k0 = (if 64 < length key then bytes_of (sha256 key) else bytes_of key);
          k = k0 @ replicate (64 - length k0) 0;
          pad = (\<lambda>c. map (\<lambda>b. uint ((of_int b :: 8 word) XOR c)) k)
      in string_of (sha_bytes (pad 0x5c @ sha_bytes (pad 0x36 @ bytes_of msg))))"

section \<open>Hexadecimal\<close>

definition hex_digits :: string where "hex_digits = ''0123456789abcdef''"

definition hex_of :: "char \<Rightarrow> string" where
  "hex_of c = (let n = (of_char c :: nat) in [hex_digits ! (n div 16), hex_digits ! (n mod 16)])"

definition hex_EncodeToString :: "string \<Rightarrow> string" where
  "hex_EncodeToString s = concat (map hex_of s)"

lemma hex_digits_inj: "i < 16 \<Longrightarrow> j < 16 \<Longrightarrow> hex_digits ! i = hex_digits ! j \<longleftrightarrow> i = j"
proof -
  assume "i < 16" "j < 16"
  moreover have "distinct hex_digits" "length hex_digits = 16" by (simp_all add: hex_digits_def)
  ultimately show ?thesis by (simp add: nth_eq_iff_index_eq)
qed

lemma byte_lt: "(of_char c :: nat) < 256"
  by simp

lemma hex_of_inj: "hex_of c = hex_of d \<Longrightarrow> c = d"
proof -
  assume h: "hex_of c = hex_of d"
  let ?c = "of_char c :: nat" and ?d = "of_char d :: nat"
  have "?c div 16 < 16" "?d div 16 < 16" using byte_lt [of c] byte_lt [of d] by linarith+
  then have "?c div 16 = ?d div 16" "?c mod 16 = ?d mod 16"
    using h hex_digits_inj by (simp_all add: hex_of_def Let_def)
  then have "?c = ?d" by (metis div_mult_mod_eq)
  then show "c = d" by simp
qed

lemma length_hex_of [simp]: "length (hex_of c) = 2"
  by (simp add: hex_of_def Let_def)

lemma length_hex_EncodeToString [simp]: "length (hex_EncodeToString s) = 2 * length s"
  by (induction s) (simp_all add: hex_EncodeToString_def)

lemma hex_EncodeToString_inj: "hex_EncodeToString s = hex_EncodeToString t \<Longrightarrow> s = t"
proof (induction s arbitrary: t)
  case Nil
  then show ?case by (cases t) (auto simp: hex_EncodeToString_def hex_of_def Let_def)
next
  case (Cons c s)
  from Cons.prems obtain d u where t: "t = d # u"
    by (cases t) (auto simp: hex_EncodeToString_def hex_of_def Let_def)
  with Cons.prems have "hex_of c @ hex_EncodeToString s = hex_of d @ hex_EncodeToString u"
    by (simp add: hex_EncodeToString_def)
  then have "hex_of c = hex_of d" "hex_EncodeToString s = hex_EncodeToString u" by simp_all
  with Cons.IH t show ?case using hex_of_inj by blast
qed

lemma hex_of_digits: "set (hex_of c) \<subseteq> set hex_digits"
proof -
  have "(of_char c :: nat) div 16 < 16" using byte_lt [of c] by linarith
  moreover have "length hex_digits = 16" by (simp add: hex_digits_def)
  ultimately show ?thesis by (simp add: hex_of_def Let_def)
qed

lemma hex_EncodeToString_digits: "set (hex_EncodeToString s) \<subseteq> set hex_digits"
  using hex_of_digits by (fastforce simp: hex_EncodeToString_def)

section \<open>Random bytes\<close>

text \<open>\<open>rand.Read\<close> into a buffer of \<open>n\<close> zero bytes, from a source that fails or gives bytes.\<close>

definition rand_Read :: "nat \<Rightarrow> 'e + string \<Rightarrow> 'e + string" where
  "rand_Read n src = (case src of Inl e \<Rightarrow> Inl e | Inr bs \<Rightarrow> Inr (take n (bs @ replicate n (CHR 0x00))))"

lemma rand_Read_length: "rand_Read n src = Inr buf \<Longrightarrow> length buf = n"
  by (auto simp: rand_Read_def split: sum.splits)

end
