(* ===== verification/GoJson.thy ===== *)
theory GoJson
  imports Prelude
begin

text \<open>
  What the source uses of package encoding/json: \<open>Unmarshal\<close> (the scanner as a machine over the
  bytes with an explicit stack, so that it always ends, its nesting bound, string unquoting and the
  repair of invalid UTF-8), the decoding of objects into structs, and \<open>Marshal\<close> of strings and objects.
\<close>

section \<open>Values\<close>

text \<open>A string value is kept as its literal, the bytes between the quotes.\<close>

datatype json =
    JNull
  | JBool bool
  | JNum string
  | JStr string
  | JArr "json list"
  | JObj "(string \<times> json) list"

abbreviation code :: "char \<Rightarrow> nat" where "code c \<equiv> of_char c"

section \<open>UTF-8\<close>

definition cont_byte :: "char \<Rightarrow> bool" where
  "cont_byte c \<longleftrightarrow> 128 \<le> code c \<and> code c \<le> 191"

text \<open>Of the first byte: the length of the encoding (0 if none starts so) and the range of the
  second byte.\<close>

definition utf8_first :: "nat \<Rightarrow> nat \<times> nat \<times> nat" where
  "utf8_first x =
     (if x < 128 then (1, 0, 0)
      else if 194 \<le> x \<and> x \<le> 223 then (2, 128, 191)
      else if x = 224 then (3, 160, 191)
      else if x = 237 then (3, 128, 159)
      else if 225 \<le> x \<and> x \<le> 239 then (3, 128, 191)
      else if x = 240 then (4, 144, 191)
      else if x = 244 then (4, 128, 143)
      else if 241 \<le> x \<and> x \<le> 243 then (4, 128, 191)
      else (0, 0, 0))"

text \<open>\<open>utf8.DecodeRune\<close>: the length of the encoding at the head, 0 when there is no valid one.\<close>

definition utf8_len :: "string \<Rightarrow> nat" where
  "utf8_len s = (case s of
     [] \<Rightarrow> 0
   | a # r \<Rightarrow> (case utf8_first (code a) of (n, lo, hi) \<Rightarrow>
       if n \<le> 1 then n
       else if n - 1 \<le> length r \<and> lo \<le> code (hd r) \<and> code (hd r) \<le> hi
         \<and> list_all cont_byte (take (n - 2) (tl r)) then n
       else 0))"

text \<open>\<open>utf8.EncodeRune\<close>; surrogates and codes beyond U+10FFFF become U+FFFD.\<close>

definition utf8_encode :: "nat \<Rightarrow> string" where
  "utf8_encode r =
     (if r < 0x80 then [char_of r]
      else if r < 0x800 then [char_of (192 + r div 64), char_of (128 + r mod 64)]
      else if 0x10FFFF < r \<or> (0xD800 \<le> r \<and> r \<le> 0xDFFF) then [CHR 0xEF, CHR 0xBF, CHR 0xBD]
      else if r < 0x10000 then
        [char_of (224 + r div 4096), char_of (128 + r div 64 mod 64), char_of (128 + r mod 64)]
      else [char_of (240 + r div 262144), char_of (128 + r div 4096 mod 64),
            char_of (128 + r div 64 mod 64), char_of (128 + r mod 64)])"

abbreviation rune_error :: nat where "rune_error \<equiv> 0xFFFD"

section \<open>Strings: unquoting\<close>

definition hex_val :: "char \<Rightarrow> nat option" where
  "hex_val c = (let n = code c in
     if 48 \<le> n \<and> n \<le> 57 then Some (n - 48)
     else if 97 \<le> n \<and> n \<le> 102 then Some (n - 87)
     else if 65 \<le> n \<and> n \<le> 70 then Some (n - 55) else None)"

definition hex4 :: "char \<Rightarrow> char \<Rightarrow> char \<Rightarrow> char \<Rightarrow> nat option" where
  "hex4 a b c d = (case (hex_val a, hex_val b, hex_val c, hex_val d) of
     (Some w, Some x, Some y, Some z) \<Rightarrow> Some (((w * 16 + x) * 16 + y) * 16 + z) | _ \<Rightarrow> None)"

text \<open>The escape of a second surrogate at the head of the rest, if there is one.\<close>

definition low_surrogate :: "string \<Rightarrow> nat option" where
  "low_surrogate s = (case s of
     b # u # w # x # y # z # r \<Rightarrow>
       if b = CHR 0x5C \<and> u = CHR ''u'' then
         (case hex4 w x y z of Some n \<Rightarrow> if 0xDC00 \<le> n \<and> n \<le> 0xDFFF then Some n else None | None \<Rightarrow> None)
       else None
   | _ \<Rightarrow> None)"

definition short_escape :: "char \<Rightarrow> char option" where
  "short_escape c = map_of [(CHR 0x22, CHR 0x22), (CHR 0x5C, CHR 0x5C), (CHR ''/'', CHR ''/''),
     (CHR ''b'', CHR 0x08), (CHR ''f'', CHR 0x0C), (CHR ''n'', CHR 0x0A), (CHR ''r'', CHR 0x0D),
     (CHR ''t'', CHR 0x09)] c"

fun unquote :: "string \<Rightarrow> string option" where
  "unquote [] = Some []"
| "unquote (c # s) =
     (if c = CHR 0x5C then
        (case s of
           [] \<Rightarrow> None
         | e # r \<Rightarrow>
             if e = CHR ''u'' then
               (case r of
                  w # x # y # z # r' \<Rightarrow>
                    (case hex4 w x y z of
                       None \<Rightarrow> None
                     | Some n \<Rightarrow>
                         if 0xD800 \<le> n \<and> n \<le> 0xDFFF then
                           (case low_surrogate r' of
                              Some m \<Rightarrow>
                                if n \<le> 0xDBFF then
                                  map_option ((@) (utf8_encode (0x10000 + (n - 0xD800) * 1024 + (m - 0xDC00))))
                                    (unquote (drop 6 r'))
                                else map_option ((@) (utf8_encode rune_error)) (unquote r')
                            | None \<Rightarrow> map_option ((@) (utf8_encode rune_error)) (unquote r'))
                         else map_option ((@) (utf8_encode n)) (unquote r'))
                | _ \<Rightarrow> None)
             else (case short_escape e of
                     Some b \<Rightarrow> map_option ((#) b) (unquote r)
                   | None \<Rightarrow> None))
      else if code c < 32 \<or> c = CHR 0x22 then None
      else let n = utf8_len (c # s) in
        if n = 0 then map_option ((@) (utf8_encode rune_error)) (unquote s)
        else map_option (\<lambda>t. c # take (n - 1) s @ t) (unquote (drop (n - 1) s)))"

section \<open>Numbers\<close>

definition is_digit :: "char \<Rightarrow> bool" where
  "is_digit c \<longleftrightarrow> 48 \<le> code c \<and> code c \<le> 57"

definition number_char :: "char \<Rightarrow> bool" where
  "number_char c \<longleftrightarrow> is_digit c \<or> c \<in> {CHR ''-'', CHR ''+'', CHR ''.'', CHR ''e'', CHR ''E''}"

definition exponent_ok :: "string \<Rightarrow> bool" where
  "exponent_ok s = (case s of
     [] \<Rightarrow> True
   | c # r \<Rightarrow> c \<in> {CHR ''e'', CHR ''E''} \<and>
       (let d = (case r of x # r' \<Rightarrow> if x \<in> {CHR ''+'', CHR ''-''} then r' else r | [] \<Rightarrow> r)
        in d \<noteq> [] \<and> list_all is_digit d))"

definition fraction_ok :: "string \<Rightarrow> bool" where
  "fraction_ok s = (case s of
     c # r \<Rightarrow> if c = CHR ''.'' then takeWhile is_digit r \<noteq> [] \<and> exponent_ok (dropWhile is_digit r)
              else exponent_ok s
   | [] \<Rightarrow> True)"

definition number_ok :: "string \<Rightarrow> bool" where
  "number_ok s = (let u = strings_TrimPrefix s ''-'' in case u of
     [] \<Rightarrow> False
   | c # r \<Rightarrow> if c = CHR ''0'' then fraction_ok r
              else is_digit c \<and> fraction_ok (dropWhile is_digit r))"

section \<open>The scanner\<close>

datatype frame = FArr "json list" | FObj "(string \<times> json) list" string

text \<open>What may come next. Strings and numbers hold the bytes read so far, the last one first.\<close>

datatype phase =
    PValue
  | PValueOrEnd
  | PKeyOrEnd "(string \<times> json) list"
  | PKey "(string \<times> json) list"
  | PColon "(string \<times> json) list" string
  | PStr "(string \<times> json) list option" string
  | PEsc "(string \<times> json) list option" string
  | PNum string
  | PLit string json
  | PAfter json

type_synonym scan = "phase \<times> frame list"

definition max_depth :: nat where "max_depth = 10000"

definition is_ws :: "char \<Rightarrow> bool" where
  "is_ws c \<longleftrightarrow> c \<in> {CHR 0x20, CHR 0x09, CHR 0x0A, CHR 0x0D}"

text \<open>A value is complete.\<close>

definition after_value :: "json \<Rightarrow> frame list \<Rightarrow> char \<Rightarrow> scan option" where
  "after_value v stk c =
     (if is_ws c then Some (PAfter v, stk)
      else case stk of
        [] \<Rightarrow> None
      | FArr xs # fs \<Rightarrow>
          if c = CHR '','' then Some (PValue, FArr (v # xs) # fs)
          else if c = CHR '']'' then Some (PAfter (JArr (rev (v # xs))), fs)
          else None
      | FObj ps k # fs \<Rightarrow>
          if c = CHR '','' then Some (PKey ((k, v) # ps), fs)
          else if c = CHR ''}'' then Some (PAfter (JObj (rev ((k, v) # ps))), fs)
          else None)"

text \<open>A value begins. Between its members an object is in the phase; its frame is on the stack while
  a member's value is read, so an open object counts with the stack in the nesting bound.\<close>

definition begin_value :: "frame list \<Rightarrow> char \<Rightarrow> scan option" where
  "begin_value stk c =
     (if c = CHR ''['' then (if length stk < max_depth then Some (PValueOrEnd, FArr [] # stk) else None)
      else if c = CHR ''{'' then (if length stk < max_depth then Some (PKeyOrEnd [], stk) else None)
      else if c = CHR 0x22 then Some (PStr None [], stk)
      else if c = CHR ''t'' then Some (PLit ''rue'' (JBool True), stk)
      else if c = CHR ''f'' then Some (PLit ''alse'' (JBool False), stk)
      else if c = CHR ''n'' then Some (PLit ''ull'' JNull, stk)
      else if c = CHR ''-'' \<or> is_digit c then Some (PNum [c], stk)
      else None)"

definition scan_step :: "scan \<Rightarrow> char \<Rightarrow> scan option" where
  "scan_step st c = (case st of (ph, stk) \<Rightarrow> (case ph of
     PValue \<Rightarrow> if is_ws c then Some st else begin_value stk c
   | PValueOrEnd \<Rightarrow>
       if is_ws c then Some st
       else if c = CHR '']'' then (case stk of f # fs \<Rightarrow> Some (PAfter (JArr []), fs) | [] \<Rightarrow> None)
       else begin_value stk c
   | PKeyOrEnd ps \<Rightarrow>
       if is_ws c then Some st
       else if c = CHR ''}'' then Some (PAfter (JObj []), stk)
       else if c = CHR 0x22 then Some (PStr (Some ps) [], stk) else None
   | PKey ps \<Rightarrow>
       if is_ws c then Some st else if c = CHR 0x22 then Some (PStr (Some ps) [], stk) else None
   | PColon ps k \<Rightarrow>
       if is_ws c then Some st else if c = CHR '':'' then Some (PValue, FObj ps k # stk) else None
   | PStr key acc \<Rightarrow>
       if c = CHR 0x22 then
         (case unquote (rev acc) of
            None \<Rightarrow> None
          | Some t \<Rightarrow> (case key of None \<Rightarrow> Some (PAfter (JStr (rev acc)), stk) | Some ps \<Rightarrow> Some (PColon ps t, stk)))
       else if c = CHR 0x5C then Some (PEsc key (c # acc), stk)
       else Some (PStr key (c # acc), stk)
   | PEsc key acc \<Rightarrow> Some (PStr key (c # acc), stk)
   | PNum acc \<Rightarrow>
       if number_char c then Some (PNum (c # acc), stk)
       else if number_ok (rev acc) then after_value (JNum (rev acc)) stk c else None
   | PLit rest v \<Rightarrow>
       (case rest of
          [] \<Rightarrow> None
        | x # r \<Rightarrow> if c = x then Some (if r = [] then (PAfter v, stk) else (PLit r v, stk)) else None)
   | PAfter v \<Rightarrow> after_value v stk c))"

definition scan_end :: "scan \<Rightarrow> json option" where
  "scan_end st = (case st of
     (PAfter v, []) \<Rightarrow> Some v
   | (PNum acc, []) \<Rightarrow> if number_ok (rev acc) then Some (JNum (rev acc)) else None
   | _ \<Rightarrow> None)"

fun scan_run :: "scan \<Rightarrow> string \<Rightarrow> json option" where
  "scan_run st [] = scan_end st"
| "scan_run st (c # s) = (case scan_step st c of None \<Rightarrow> None | Some st' \<Rightarrow> scan_run st' s)"

text \<open>\<open>json.Unmarshal\<close> into a generic value; \<open>None\<close> is a syntax error.\<close>

definition json_parse :: "string \<Rightarrow> json option" where
  "json_parse s = scan_run (PValue, []) s"

text \<open>The first value of a stream, as \<open>json.NewDecoder(r).Decode\<close> reads it: what follows a complete
  value is not looked at.\<close>

fun scan_first :: "scan \<Rightarrow> string \<Rightarrow> json option" where
  "scan_first st [] = scan_end st"
| "scan_first st (c # s) = (case st of
     (PAfter v, []) \<Rightarrow> Some v
   | _ \<Rightarrow> (case scan_step st c of None \<Rightarrow> None | Some st' \<Rightarrow> scan_first st' s))"

definition json_first :: "string \<Rightarrow> json option" where
  "json_first s = scan_first (PValue, []) s"

section \<open>Decoding into structs\<close>

text \<open>Field names match up to case; the two non-ASCII runes that fold to ASCII letters are the
  Kelvin sign and the long s.\<close>

fun foldName :: "string \<Rightarrow> string" where
  "foldName (a # b # c # s) =
     (if a = CHR 0xE2 \<and> b = CHR 0x84 \<and> c = CHR 0xAA then CHR ''K'' # foldName s
      else if a = CHR 0xC5 \<and> b = CHR 0xBF then CHR ''S'' # foldName (c # s)
      else ascii_upper a # foldName (b # c # s))"
| "foldName [a, b] =
     (if a = CHR 0xC5 \<and> b = CHR 0xBF then ''S'' else [ascii_upper a, ascii_upper b])"
| "foldName s = map ascii_upper s"

type_synonym 'r field = "string \<times> (json \<Rightarrow> 'r \<Rightarrow> 'r option)"

text \<open>The members of the object one after the other: a repeated field is assigned again, an unknown
  one is ignored. A value of another type than the field's is an error, and so is a value that is
  neither an object nor null for the struct.\<close>

fun decode_members :: "'r field list \<Rightarrow> (string \<times> json) list \<Rightarrow> 'r \<Rightarrow> 'r option" where
  "decode_members fs [] r = Some r"
| "decode_members fs ((k, v) # ps) r =
     (case find (\<lambda>f. foldName (fst f) = foldName k) fs of
        None \<Rightarrow> decode_members fs ps r
      | Some f \<Rightarrow> (case snd f v r of None \<Rightarrow> None | Some r' \<Rightarrow> decode_members fs ps r'))"

definition decode_struct :: "'r field list \<Rightarrow> json \<Rightarrow> 'r \<Rightarrow> 'r option" where
  "decode_struct fs v r = (case v of
     JNull \<Rightarrow> Some r | JObj ps \<Rightarrow> decode_members fs ps r | _ \<Rightarrow> None)"

definition str_field :: "(string \<Rightarrow> 'r \<Rightarrow> 'r) \<Rightarrow> json \<Rightarrow> 'r \<Rightarrow> 'r option" where
  "str_field upd v r = (case v of
     JNull \<Rightarrow> Some r
   | JStr raw \<Rightarrow> (case unquote raw of Some s \<Rightarrow> Some (upd s r) | None \<Rightarrow> None)
   | _ \<Rightarrow> None)"

text \<open>\<open>strconv.ParseInt(lit, 10, 64)\<close> of a JSON number literal.\<close>

definition digits_value :: "string \<Rightarrow> int" where
  "digits_value s = foldl (\<lambda>n c. 10 * n + (int (code c) - 48)) 0 s"

definition parse_int64 :: "string \<Rightarrow> i64 option" where
  "parse_int64 lit =
     (let neg = strings_HasPrefix lit ''-''; ds = strings_TrimPrefix lit ''-'';
          n = (if neg then - digits_value ds else digits_value ds) in
      if ds \<noteq> [] \<and> list_all is_digit ds \<and> - (2 ^ 63) \<le> n \<and> n < 2 ^ 63 then Some (of_int n) else None)"

definition int_field :: "(i64 \<Rightarrow> 'r \<Rightarrow> 'r) \<Rightarrow> json \<Rightarrow> 'r \<Rightarrow> 'r option" where
  "int_field upd v r = (case v of
     JNull \<Rightarrow> Some r
   | JNum lit \<Rightarrow> (case parse_int64 lit of Some n \<Rightarrow> Some (upd n r) | None \<Rightarrow> None)
   | _ \<Rightarrow> None)"

text \<open>A slice: each element is decoded into a fresh value.\<close>

definition slice_field :: "(json \<Rightarrow> 'a option) \<Rightarrow> ('a list \<Rightarrow> 'r \<Rightarrow> 'r) \<Rightarrow> json \<Rightarrow> 'r \<Rightarrow> 'r option" where
  "slice_field dec upd v r = (case v of
     JNull \<Rightarrow> Some (upd [] r)
   | JArr xs \<Rightarrow> map_option (\<lambda>ys. upd ys r) (those (map dec xs))
   | _ \<Rightarrow> None)"

text \<open>A pointer: null is nil, a value is decoded into what the pointer already points to, or into
  a fresh value. A \<open>json.RawMessage\<close> keeps the value; \<open>None\<close> is the empty message.\<close>

definition ptr_field ::
    "(json \<Rightarrow> 'a \<Rightarrow> 'a option) \<Rightarrow> 'a \<Rightarrow> ('r \<Rightarrow> 'a option) \<Rightarrow> ('a option \<Rightarrow> 'r \<Rightarrow> 'r) \<Rightarrow> json \<Rightarrow> 'r \<Rightarrow> 'r option"
where
  "ptr_field dec fresh get upd v r = (case v of
     JNull \<Rightarrow> Some (upd None r)
   | _ \<Rightarrow> map_option (\<lambda>x. upd (Some x) r) (dec v (case get r of None \<Rightarrow> fresh | Some x \<Rightarrow> x)))"

definition raw_field :: "(json option \<Rightarrow> 'r \<Rightarrow> 'r) \<Rightarrow> json \<Rightarrow> 'r \<Rightarrow> 'r option" where
  "raw_field upd v r = Some (upd (Some v) r)"

section \<open>Marshalling\<close>

definition hex_digit :: "nat \<Rightarrow> char" where
  "hex_digit n = (if n < 10 then char_of (48 + n) else char_of (87 + n))"

text \<open>\<open>appendString\<close> with HTML escaping.\<close>

definition quote_ascii :: "char \<Rightarrow> string" where
  "quote_ascii c =
     (if c = CHR 0x22 \<or> c = CHR 0x5C then [CHR 0x5C, c]
      else if code c = 8 then [CHR 0x5C, CHR ''b''] else if code c = 12 then [CHR 0x5C, CHR ''f'']
      else if code c = 10 then [CHR 0x5C, CHR ''n''] else if code c = 13 then [CHR 0x5C, CHR ''r'']
      else if code c = 9 then [CHR 0x5C, CHR ''t'']
      else if code c < 32 \<or> c \<in> {CHR ''<'', CHR ''>'', CHR ''&''}
        then [CHR 0x5C, CHR ''u'', CHR ''0'', CHR ''0'', hex_digit (code c div 16), hex_digit (code c mod 16)]
      else [c])"

fun quote_body :: "string \<Rightarrow> string" where
  "quote_body [] = []"
| "quote_body (c # s) =
     (if code c < 128 then quote_ascii c @ quote_body s
      else let n = utf8_len (c # s) in
        if n = 0 then [CHR 0x5C] @ ''ufffd'' @ quote_body s
        else if n = 3 \<and> c = CHR 0xE2 \<and> take 2 s = [CHR 0x80, CHR 0xA8] then [CHR 0x5C] @ ''u2028'' @ quote_body (drop 2 s)
        else if n = 3 \<and> c = CHR 0xE2 \<and> take 2 s = [CHR 0x80, CHR 0xA9] then [CHR 0x5C] @ ''u2029'' @ quote_body (drop 2 s)
        else c # take (n - 1) s @ quote_body (drop (n - 1) s))"

definition json_quote :: "string \<Rightarrow> string" where
  "json_quote s = [CHR 0x22] @ quote_body s @ [CHR 0x22]"

text \<open>A struct: its fields in order, each with its marshalled value.\<close>

fun json_fields :: "(string \<times> string) list \<Rightarrow> string" where
  "json_fields [] = []"
| "json_fields [(k, v)] = json_quote k @ '':'' @ v"
| "json_fields ((k, v) # f # fs) = json_quote k @ '':'' @ v @ '','' @ json_fields (f # fs)"

definition json_object :: "(string \<times> string) list \<Rightarrow> string" where
  "json_object fs = ''{'' @ json_fields fs @ ''}''"

section \<open>Strings: marshalling, then parsing\<close>

fun utf8_valid :: "string \<Rightarrow> bool" where
  "utf8_valid [] \<longleftrightarrow> True"
| "utf8_valid (c # s) \<longleftrightarrow> 0 < utf8_len (c # s) \<and> utf8_valid (drop (utf8_len (c # s) - 1) s)"

lemma code_less: "code c < 256"
  by (metis of_char_mod_256 mod_less_divisor zero_less_numeral)

lemma utf8_first_facts:
  assumes "utf8_first x = (n, lo, hi)"
  shows "n \<le> 4" "n = Suc 0 \<longleftrightarrow> x < 128" "1 < n \<Longrightarrow> 128 \<le> lo"
  using assms unfolding utf8_first_def by (auto split: if_splits)

lemma utf8_len_1_iff: "utf8_len (c # s) = Suc 0 \<longleftrightarrow> code c < 128"
  using utf8_first_facts(2) [of "code c"]
  by (auto simp: utf8_len_def split: prod.splits if_splits)

lemma ascii_utf8_valid: "list_all is_ascii s \<Longrightarrow> utf8_valid s"
proof (induction s)
  case (Cons c s)
  then have "utf8_len (c # s) = Suc 0" by (simp add: utf8_len_1_iff is_ascii_def)
  with Cons show ?case by simp
qed simp

text \<open>The length depends on the bytes of the encoding only, and all of them are at least 0x80 when
  the first is.\<close>

lemma utf8_len_shape:
  assumes "utf8_len (c # s) = n" "0 < n"
  shows "n - 1 \<le> length s" "1 < n \<Longrightarrow> b \<in> set (take (n - 1) s) \<Longrightarrow> 128 \<le> code b"
    "utf8_len (c # take (n - 1) s @ t) = n"
proof -
  obtain m lo hi where f: "utf8_first (code c) = (m, lo, hi)" by (metis prod_cases3)
  have mn: "m = n" using assms f by (auto simp: utf8_len_def split: if_splits)
  note f = f [unfolded mn] and facts = utf8_first_facts [OF f [unfolded mn]]
  show "n - 1 \<le> length s" using assms f by (auto simp: utf8_len_def split: if_splits)
  show "128 \<le> code b" if big: "1 < n" and mem: "b \<in> set (take (n - 1) s)"
  proof -
    have *: "n - 1 \<le> length s" "lo \<le> code (hd s)" "list_all cont_byte (take (n - 2) (tl s))"
      using assms f big mem by (auto simp: utf8_len_def split: if_splits)
    obtain x s' where s: "s = x # s'" using * big by (cases s) auto
    have "take (n - 1) s = x # take (n - 2) s'" using big mem s by (simp add: take_Cons' numeral_2_eq_2)
    with * big mem s facts(3) show ?thesis by (auto simp: list_all_iff cont_byte_def)
  qed
  show "utf8_len (c # take (n - 1) s @ t) = n"
  proof (cases "n \<le> 1")
    case True
    then show ?thesis using assms f by (auto simp: utf8_len_def)
  next
    case False
    then have *: "n - 1 \<le> length s" "lo \<le> code (hd s)" "code (hd s) \<le> hi"
      "list_all cont_byte (take (n - 2) (tl s))"
      using assms f by (auto simp: utf8_len_def split: if_splits)
    obtain x s' where s: "s = x # s'" using * False by (cases s) auto
    have "take (n - 1) s = x # take (n - 2) s'" using False s by (simp add: take_Cons' numeral_2_eq_2)
    with * s f False show ?thesis by (simp add: utf8_len_def)
  qed
qed

lemma char_codeI: "code c = code d \<Longrightarrow> c = d"
  by (metis char_of_char)

lemma hex_val_digit: "n < 16 \<Longrightarrow> hex_val (hex_digit n) = Some n"
  by (auto simp: hex_val_def hex_digit_def Let_def)

lemma hex4_byte:
  "n < 256 \<Longrightarrow> hex4 (CHR ''0'') (CHR ''0'') (hex_digit (n div 16)) (hex_digit (n mod 16)) = Some n"
proof -
  assume n: "n < 256"
  have "hex_val (CHR ''0'') = Some 0" by code_simp
  with n show ?thesis by (simp add: hex4_def hex_val_digit)
qed

lemma unquote_u00:
  assumes "code c < 128"
  shows "unquote (CHR 0x5C # CHR ''u'' # CHR ''0'' # CHR ''0'' # hex_digit (code c div 16) # hex_digit (code c mod 16) # t)
    = map_option ((#) c) (unquote t)"
proof -
  have "utf8_encode (code c) = [c]" using assms by (simp add: utf8_encode_def)
  then show ?thesis using assms by (simp add: hex4_byte) (cases "unquote t"; simp)
qed

lemma unquote_u:
  assumes "hex4 w x y z = Some n" "n < 0xD800 \<or> 0xDFFF < n"
  shows "unquote (CHR 0x5C # CHR ''u'' # w # x # y # z # t) = map_option ((@) (utf8_encode n)) (unquote t)"
  using assms by auto

lemma unquote_plain:
  "32 \<le> code c \<Longrightarrow> code c < 128 \<Longrightarrow> c \<noteq> CHR 0x22 \<Longrightarrow> c \<noteq> CHR 0x5C \<Longrightarrow> unquote (c # t) = map_option ((#) c) (unquote t)"
  using utf8_len_1_iff [of c t] by (simp add: Let_def)

lemma unquote_short:
  "short_escape e = Some b \<Longrightarrow> e \<noteq> CHR ''u'' \<Longrightarrow> unquote (CHR 0x5C # e # t) = map_option ((#) b) (unquote t)"
  by simp

lemma code_iffs:
  "code c = 8 \<longleftrightarrow> c = CHR 0x08" "code c = 12 \<longleftrightarrow> c = CHR 0x0C" "code c = 10 \<longleftrightarrow> c = CHR 0x0A"
  "code c = 13 \<longleftrightarrow> c = CHR 0x0D" "code c = 9 \<longleftrightarrow> c = CHR 0x09"
  by (auto intro: char_codeI)

lemma unquote_ascii:
  assumes "code c < 128"
  shows "unquote (quote_ascii c @ t) = map_option ((#) c) (unquote t)"
proof -
  define special where "special = {CHR 0x22, CHR 0x5C, CHR 0x08, CHR 0x0C, CHR 0x0A, CHR 0x0D, CHR 0x09}"
  define hx where "hx \<longleftrightarrow> code c < 32 \<or> c \<in> {CHR ''<'', CHR ''>'', CHR ''&''}"
  consider "c \<in> special" | "c \<notin> special" "hx" | "c \<notin> special" "\<not> hx"
    by blast
  then show ?thesis
  proof cases
    case 1
    moreover have "list_all (\<lambda>(c, e). quote_ascii c = [CHR 0x5C, e] \<and> short_escape e = Some c \<and> e \<noteq> CHR ''u'')
        [(CHR 0x22, CHR 0x22), (CHR 0x5C, CHR 0x5C), (CHR 0x08, CHR ''b''), (CHR 0x0C, CHR ''f''),
         (CHR 0x0A, CHR ''n''), (CHR 0x0D, CHR ''r''), (CHR 0x09, CHR ''t'')]"
      by code_simp
    ultimately obtain e where "quote_ascii c = [CHR 0x5C, e]" "short_escape e = Some c" "e \<noteq> CHR ''u''"
      by (auto simp: special_def)
    then show ?thesis by (simp add: unquote_short del: unquote.simps)
  next
    case 2
    then have "quote_ascii c = [CHR 0x5C, CHR ''u'', CHR ''0'', CHR ''0'', hex_digit (code c div 16), hex_digit (code c mod 16)]"
      unfolding quote_ascii_def code_iffs special_def hx_def by auto
    then show ?thesis using unquote_u00 [OF assms] by simp
  next
    case 3
    then have "quote_ascii c = [c]" unfolding quote_ascii_def code_iffs special_def hx_def by auto
    then show ?thesis using unquote_plain assms 3 by (auto simp: special_def hx_def simp del: unquote.simps)
  qed
qed

text \<open>What was quoted is read back.\<close>

lemma take_2_eq: "take 2 s = [x, y] \<Longrightarrow> \<exists>r. s = x # y # r \<and> drop 2 s = r"
  by (cases s; cases "tl s") auto

lemma unquote_multi:
  assumes "utf8_len (c # s) = n" "1 < n"
  shows "unquote (c # take (n - 1) s @ t) = map_option (\<lambda>u. c # take (n - 1) s @ u) (unquote t)"
proof -
  have len: "n - 1 \<le> length s" and l: "utf8_len (c # take (n - 1) s @ t) = n"
    using utf8_len_shape(1,3) [of c s n] assms by auto
  have "128 \<le> code c" using assms utf8_len_1_iff [of c s] by linarith
  then have "c \<noteq> CHR 0x22" "c \<noteq> CHR 0x5C" "\<not> code c < 32" by auto
  with l len assms show ?thesis by (simp add: Let_def)
qed

lemma line_separators:
  "hex4 (CHR ''2'') (CHR ''0'') (CHR ''2'') (CHR ''8'') = Some 0x2028"
  "hex4 (CHR ''2'') (CHR ''0'') (CHR ''2'') (CHR ''9'') = Some 0x2029"
  "utf8_encode 0x2028 = [CHR 0xE2, CHR 0x80, CHR 0xA8]"
  "utf8_encode 0x2029 = [CHR 0xE2, CHR 0x80, CHR 0xA9]"
proof -
  have c: "char_of (226 :: nat) = CHR 0xE2" "char_of (128 :: nat) = CHR 0x80"
    "char_of (168 :: nat) = CHR 0xA8" "char_of (169 :: nat) = CHR 0xA9"
    by code_simp+
  show "hex4 (CHR ''2'') (CHR ''0'') (CHR ''2'') (CHR ''8'') = Some 0x2028"
    "hex4 (CHR ''2'') (CHR ''0'') (CHR ''2'') (CHR ''9'') = Some 0x2029"
    "utf8_encode 0x2028 = [CHR 0xE2, CHR 0x80, CHR 0xA8]"
    "utf8_encode 0x2029 = [CHR 0xE2, CHR 0x80, CHR 0xA9]"
    by (simp_all add: hex4_def hex_val_def utf8_encode_def c)
qed

lemma unquote_quote_body:
  "utf8_valid s \<Longrightarrow> unquote (quote_body s) = Some s"
proof (induction s rule: quote_body.induct)
  case (2 c s)
  define n where "n = utf8_len (c # s)"
  have n: "0 < n" and v: "utf8_valid (drop (n - 1) s)" using 2(6) by (simp_all add: n_def Let_def)
  show ?case
  proof (cases "code c < 128")
    case True
    then have "n = 1" using utf8_len_1_iff by (simp add: n_def)
    with True 2(1) v show ?thesis by (simp add: unquote_ascii del: unquote.simps)
  next
    case False
    then have n1: "1 < n" using n utf8_len_1_iff [of c s] by (simp add: n_def nat_neq_iff) 
    let ?A = "n = 3 \<and> c = CHR 0xE2 \<and> take 2 s = [CHR 0x80, CHR 0xA8]"
    let ?B = "n = 3 \<and> c = CHR 0xE2 \<and> take 2 s = [CHR 0x80, CHR 0xA9]"
    define A where "A \<longleftrightarrow> ?A"
    define B where "B \<longleftrightarrow> ?B"
    consider "A" | "\<not> A" "B" | "\<not> A" "\<not> B" by blast
    then show ?thesis
    proof cases
      case 1
      note 1 = 1 [unfolded A_def]
      from 1 obtain r where r: "s = CHR 0x80 # CHR 0xA8 # r" using take_2_eq [of s] by auto
      have "hex4 (CHR ''2'') (CHR ''0'') (CHR ''2'') (CHR ''8'') = Some 0x2028"
        "utf8_encode 0x2028 = [CHR 0xE2, CHR 0x80, CHR 0xA8]"
        by (simp_all add: line_separators)
      moreover have "unquote (quote_body r) = Some r"
        using 2(3) [OF False n_def _ 1] 1 r v n1 by simp
      moreover have "quote_body (c # s) = CHR 0x5C # CHR ''u'' # CHR ''2'' # CHR ''0'' # CHR ''2'' # CHR ''8'' # quote_body r"
        using 1 r n1 False n_def by (auto simp: Let_def)
      ultimately show ?thesis using 1 r by (simp add: unquote_u del: unquote.simps)
    next
      case second: 2
      note second = second [unfolded A_def B_def]
      from second obtain r where r: "s = CHR 0x80 # CHR 0xA9 # r" using take_2_eq [of s] by auto
      have "hex4 (CHR ''2'') (CHR ''0'') (CHR ''2'') (CHR ''9'') = Some 0x2029"
        "utf8_encode 0x2029 = [CHR 0xE2, CHR 0x80, CHR 0xA9]"
        by (simp_all add: line_separators)
      moreover have "unquote (quote_body r) = Some r"
        using 2(4) [OF False n_def _ second] second r v n1 by simp
      moreover have "quote_body (c # s) = CHR 0x5C # CHR ''u'' # CHR ''2'' # CHR ''0'' # CHR ''2'' # CHR ''9'' # quote_body r"
        using second r n1 False n_def by (auto simp: Let_def)
      ultimately show ?thesis using second r by (simp add: unquote_u del: unquote.simps)
    next
      case 3
      note 3 = 3 [unfolded A_def B_def]
      have q: "quote_body (c # s) = c # take (n - 1) s @ quote_body (drop (n - 1) s)"
        using 3 n1 False by (simp add: n_def [symmetric] Let_def)
      have "unquote (quote_body (drop (n - 1) s)) = Some (drop (n - 1) s)"
        using 2(5) [OF False n_def _ 3] n1 v by simp
      then show ?thesis
        unfolding q unquote_multi [OF n_def [symmetric] n1] by simp
    qed
  qed
qed simp

section \<open>Objects: marshalling, then parsing\<close>

lemma scan_plain:
  "list_all (\<lambda>c. c \<noteq> CHR 0x22 \<and> c \<noteq> CHR 0x5C) xs
   \<Longrightarrow> scan_run (PStr key acc, stk) (xs @ r) = scan_run (PStr key (rev xs @ acc), stk) r"
  by (induction xs arbitrary: acc) (auto simp: scan_step_def)

lemma scan_quote_ascii:
  "scan_run (PStr key acc, stk) (quote_ascii c @ r) = scan_run (PStr key (rev (quote_ascii c) @ acc), stk) r"
proof -
  have hex: "hex_digit (code c div 16) \<noteq> CHR 0x22 \<and> hex_digit (code c div 16) \<noteq> CHR 0x5C"
    "hex_digit (code c mod 16) \<noteq> CHR 0x22 \<and> hex_digit (code c mod 16) \<noteq> CHR 0x5C"
  proof -
    have "code c div 16 < 16" "code c mod 16 < 16" using code_less [of c] by linarith+
    moreover have "hex_val (CHR 0x22) = None" "hex_val (CHR 0x5C) = None" by code_simp+
    ultimately show "hex_digit (code c div 16) \<noteq> CHR 0x22 \<and> hex_digit (code c div 16) \<noteq> CHR 0x5C"
      "hex_digit (code c mod 16) \<noteq> CHR 0x22 \<and> hex_digit (code c mod 16) \<noteq> CHR 0x5C"
      using hex_val_digit by fastforce+
  qed
  show ?thesis using hex by (auto simp: quote_ascii_def scan_step_def)
qed

lemma scan_quote_body:
  "scan_run (PStr key acc, stk) (quote_body s @ r) = scan_run (PStr key (rev (quote_body s) @ acc), stk) r"
proof (induction s arbitrary: acc rule: quote_body.induct)
  case (2 c s)
  define n where "n = utf8_len (c # s)"
  show ?case
  proof (cases "code c < 128")
    case True
    with 2(1) show ?thesis by (simp add: scan_quote_ascii)
  next
    case False
    then have n1: "n \<noteq> 1" using utf8_len_1_iff [of c s] by (simp add: n_def)
    define A where "A \<longleftrightarrow> n = 3 \<and> c = CHR 0xE2 \<and> take 2 s = [CHR 0x80, CHR 0xA8]"
    define B where "B \<longleftrightarrow> n = 3 \<and> c = CHR 0xE2 \<and> take 2 s = [CHR 0x80, CHR 0xA9]"
    have plain: "list_all (\<lambda>c. c \<noteq> CHR 0x22 \<and> c \<noteq> CHR 0x5C) (c # take (n - 1) s)" if "n \<noteq> 0"
      using utf8_len_shape(2) [OF n_def [symmetric], of _ ] that n1 False
      by (fastforce simp: list_all_iff)
    consider "n = 0" | "n \<noteq> 0" A | "n \<noteq> 0" "\<not> A" B | "n \<noteq> 0" "\<not> A" "\<not> B" by blast
    then show ?thesis
    proof cases
      case 1
      then show ?thesis using 2(2) [OF False n_def 1] False n_def by (simp add: scan_step_def Let_def)
    next
      case second: 2
      then show ?thesis using 2(3) [OF False n_def second(1) second(2) [unfolded A_def]] False n_def
        by (auto simp: scan_step_def Let_def A_def)
    next
      case third: 3
      then show ?thesis
        using 2(4) [OF False n_def third(1) third(2) [unfolded A_def] third(3) [unfolded B_def]] False n_def
        by (auto simp: scan_step_def Let_def A_def B_def)
    next
      case 4
      have q: "quote_body (c # s) = (c # take (n - 1) s) @ quote_body (drop (n - 1) s)"
        using 4 False by (simp add: n_def [symmetric] Let_def A_def B_def)
      show ?thesis
        using 2(5) [OF False n_def 4(1) 4(2) [unfolded A_def] 4(3) [unfolded B_def]]
        unfolding q append_assoc scan_plain [OF plain [OF 4(1)]] by simp
    qed
  qed
qed simp

text \<open>A text with nothing to escape is its own literal.\<close>

definition plain_char :: "char \<Rightarrow> bool" where
  "plain_char c \<longleftrightarrow> 32 \<le> code c \<and> code c < 128 \<and> c \<notin> {CHR 0x22, CHR 0x5C, CHR ''<'', CHR ''>'', CHR ''&''}"

lemma quote_body_plain: "list_all plain_char s \<Longrightarrow> quote_body s = s"
  by (induction s) (auto simp: plain_char_def quote_ascii_def)

lemma plain_utf8_valid: "list_all plain_char s \<Longrightarrow> utf8_valid s"
  by (rule ascii_utf8_valid) (auto simp: list_all_iff plain_char_def is_ascii_def)

definition delimited :: "string \<Rightarrow> bool" where
  "delimited rest \<longleftrightarrow> rest = [] \<or> is_ws (hd rest) \<or> hd rest \<in> {CHR '','', CHR '']'', CHR ''}''}"

text \<open>A text that is read as the value \<open>v\<close> wherever a value may stand, with \<open>d\<close> levels to spare.\<close>

definition scans :: "nat \<Rightarrow> string \<Rightarrow> json \<Rightarrow> bool" where
  "scans d doc v \<longleftrightarrow> (\<forall>stk rest. length stk + d \<le> max_depth \<longrightarrow> delimited rest
     \<longrightarrow> scan_run (PValue, stk) (doc @ rest) = scan_run (PAfter v, stk) rest)"

lemma scans_quote: "utf8_valid s \<Longrightarrow> scans d (json_quote s) (JStr (quote_body s))"
  by (auto simp: scans_def json_quote_def scan_step_def begin_value_def is_ws_def scan_quote_body
      unquote_quote_body)

lemma scans_fields:
  assumes "list_all2 (\<lambda>(k, doc) (k', v). k' = k \<and> utf8_valid k \<and> scans d doc v) fs kvs" "fs \<noteq> []"
    and "length stk + Suc d \<le> max_depth"
  shows "scan_run (PKey ps, stk) (json_fields fs @ CHR ''}'' # rest)
    = scan_run (PAfter (JObj (rev ps @ kvs)), stk) rest"
  using assms
proof (induction fs arbitrary: kvs ps rule: json_fields.induct)
  case (2 k doc)
  then obtain v where "kvs = [(k, v)]" "utf8_valid k" "scans d doc v"
    by (auto simp: list_all2_Cons1)
  then show ?case using 2(3)
    by (simp add: json_quote_def scan_step_def is_ws_def scan_quote_body unquote_quote_body
        scans_def delimited_def after_value_def)
next
  case (3 k doc f fs)
  then obtain v kvs' where "kvs = (k, v) # kvs'" "utf8_valid k" "scans d doc v"
    "list_all2 (\<lambda>(k, doc) (k', v). k' = k \<and> utf8_valid k \<and> scans d doc v) (f # fs) kvs'"
    by (auto simp: list_all2_Cons1)
  then show ?case using 3
    by (simp add: json_quote_def scan_step_def is_ws_def scan_quote_body unquote_quote_body
        scans_def delimited_def after_value_def)
qed simp

lemma scans_object:
  assumes "list_all2 (\<lambda>(k, doc) (k', v). k' = k \<and> utf8_valid k \<and> scans d doc v) fs kvs"
  shows "scans (Suc d) (json_object fs) (JObj kvs)"
  unfolding scans_def
proof (intro allI impI)
  fix stk :: "frame list" and rest assume depth: "length stk + Suc d \<le> max_depth"
  show "scan_run (PValue, stk) (json_object fs @ rest) = scan_run (PAfter (JObj kvs), stk) rest"
  proof (cases fs)
    case Nil
    with assms depth show ?thesis
      by (simp add: json_object_def scan_step_def begin_value_def is_ws_def)
  next
    case (Cons f fs')
    have "scan_run (PValue, stk) (json_object fs @ rest) = scan_run (PKey [], stk) (json_fields fs @ CHR ''}'' # rest)"
    proof -
      obtain r where "json_fields fs = CHR 0x22 # r"
        unfolding Cons by (cases f; cases fs') (simp_all add: json_quote_def)
      then show ?thesis using depth
        by (simp add: json_object_def scan_step_def begin_value_def is_ws_def)
    qed
    then show ?thesis using scans_fields [OF assms _ depth, of "[]" rest] Cons by simp
  qed
qed

lemma scans_parse: "scans d doc v \<Longrightarrow> d \<le> max_depth \<Longrightarrow> json_parse doc = Some v"
  unfolding scans_def json_parse_def
  by (drule spec [of _ "[]"], drule spec [of _ "[]"]) (simp add: delimited_def scan_end_def)

text \<open>A stream that is one whole value is decoded to that value.\<close>

lemma after_top: "after_value v [] c = (if is_ws c then Some (PAfter v, []) else None)"
  by (simp add: after_value_def)

lemma scan_run_after_top: "scan_run (PAfter v, []) s = Some w \<Longrightarrow> w = v"
  by (induction s) (auto simp: scan_end_def scan_step_def after_top split: if_splits)

lemma scan_first_run: "scan_run st s = Some v \<Longrightarrow> scan_first st s = Some v"
proof (induction s arbitrary: st)
  case (Cons c s)
  show ?case
  proof (cases "\<exists>w. st = (PAfter w, [])")
    case True
    with Cons.prems show ?thesis using scan_run_after_top by fastforce
  next
    case False
    obtain st' where "scan_step st c = Some st'" "scan_run st' s = Some v"
      using Cons.prems by (auto split: option.splits)
    moreover from this(2) have "scan_first st' s = Some v" by (rule Cons.IH)
    ultimately show ?thesis using False by (auto split: prod.splits phase.splits list.splits)
  qed
qed simp

lemma json_first_parse: "json_parse s = Some v \<Longrightarrow> json_first s = Some v"
  by (simp add: json_parse_def json_first_def scan_first_run)

end
