(* ===== verification/GoRFC3339.thy ===== *)
theory GoRFC3339
  imports GoTime GoJson "HOL-Library.Monad_Syntax"
begin

text \<open>
  Times as text, as package time writes and reads them in RFC 3339 form (\<open>time.Parse(time.RFC3339, s)\<close>
  and the JSON methods of \<open>time.Time\<close>). A time is an instant with the offset of its zone in
  seconds east of UTC.
\<close>

text \<open>The zero \<open>time.Time\<close> is the start of year 1.\<close>

definition zero_time :: "time \<times> int" where "zero_time = (time_Date 1 1 1, 0)"

section \<open>Digits\<close>

fun digits :: "nat \<Rightarrow> nat \<Rightarrow> string" where
  "digits 0 n = []"
| "digits (Suc k) n = digits k (n div 10) @ [char_of (48 + n mod 10)]"

definition digits_nat :: "string \<Rightarrow> nat" where
  "digits_nat s = foldl (\<lambda>n c. 10 * n + (code c - 48)) 0 s"

definition get_digits :: "nat \<Rightarrow> string \<Rightarrow> (nat \<times> string) option" where
  "get_digits k s = (if k \<le> length s \<and> list_all is_digit (take k s)
                     then Some (digits_nat (take k s), drop k s) else None)"

definition expect :: "char \<Rightarrow> string \<Rightarrow> string option" where
  "expect c s = (case s of x # r \<Rightarrow> if x = c then Some r else None | [] \<Rightarrow> None)"

definition guard :: "bool \<Rightarrow> unit option" where
  "guard b = (if b then Some () else None)"

section \<open>Formatting\<close>

definition strip_zeros :: "string \<Rightarrow> string" where
  "strip_zeros s = rev (dropWhile (\<lambda>c. c = CHR ''0'') (rev s))"

text \<open>The fraction of a second: up to nine digits without trailing zeros.\<close>

definition format_fraction :: "nat \<Rightarrow> string" where
  "format_fraction ns = (if ns = 0 then [] else ''.'' @ strip_zeros (digits 9 ns))"

definition format_zone :: "int \<Rightarrow> string" where
  "format_zone z = (if z = 0 then ''Z''
     else let m = nat \<bar>z\<bar> div 60 in
       (if z < 0 then ''-'' else ''+'') @ digits 2 (m div 60) @ '':'' @ digits 2 (m mod 60))"

text \<open>\<open>2006-01-02T15:04:05.999999999Z07:00\<close>, for a year of four digits and an offset below a day;
  otherwise marshalling is an error.\<close>

definition format_rfc3339 :: "time \<times> int \<Rightarrow> string option" where
  "format_rfc3339 w = (case w of (t, z) \<Rightarrow>
     let l = t + z * second; sod = nat (l mod day_ns div second) in
     if time_Year l < 0 \<or> 9999 < time_Year l \<or> 86400 \<le> \<bar>z\<bar> then None
     else Some (digits 4 (nat (time_Year l)) @ ''-'' @ digits 2 (time_Month l) @ ''-''
       @ digits 2 (nat (time_Day l)) @ ''T'' @ digits 2 (sod div 3600) @ '':'' @ digits 2 (sod div 60 mod 60)
       @ '':'' @ digits 2 (sod mod 60) @ format_fraction (nat (l mod second)) @ format_zone z))"

section \<open>Parsing\<close>

text \<open>One digit will do for the hour.\<close>

definition get_hour :: "string \<Rightarrow> (nat \<times> string) option" where
  "get_hour s = (case get_digits 2 s of Some q \<Rightarrow> Some q | None \<Rightarrow> get_digits 1 s)"

text \<open>A point or comma followed by digits; those past the ninth do not count.\<close>

definition get_fraction :: "string \<Rightarrow> nat \<times> string" where
  "get_fraction s = (case s of
     c # d # r \<Rightarrow>
       if c \<in> {CHR ''.'', CHR '',''} \<and> is_digit d
       then (digits_nat (take 9 (takeWhile is_digit (d # r) @ replicate 9 (CHR ''0''))),
             dropWhile is_digit (d # r))
       else (0, s)
   | _ \<Rightarrow> (0, s))"

definition get_zone :: "string \<Rightarrow> int option" where
  "get_zone s = (if s = ''Z'' then Some 0
     else case s of
       [] \<Rightarrow> None
     | sg # r \<Rightarrow> do {
         guard (sg \<in> {CHR ''+'', CHR ''-''});
         (h, r) \<leftarrow> get_digits 2 r;
         r \<leftarrow> expect (CHR '':'') r;
         (m, r) \<leftarrow> get_digits 2 r;
         guard (r = [] \<and> h \<le> 24 \<and> m \<le> 60);
         Some ((if sg = CHR ''-'' then - 1 else 1) * int ((h * 60 + m) * 60)) })"

definition days_in :: "nat \<Rightarrow> int \<Rightarrow> int" where
  "days_in m y = days_before_month (is_leap y) (Suc m) - days_before_month (is_leap y) m"

definition parse_rfc3339 :: "string \<Rightarrow> (time \<times> int) option" where
  "parse_rfc3339 s = do {
     (y, s) \<leftarrow> get_digits 4 s;
     s \<leftarrow> expect (CHR ''-'') s;
     (m, s) \<leftarrow> get_digits 2 s;
     s \<leftarrow> expect (CHR ''-'') s;
     (d, s) \<leftarrow> get_digits 2 s;
     s \<leftarrow> expect (CHR ''T'') s;
     (h, s) \<leftarrow> get_hour s;
     s \<leftarrow> expect (CHR '':'') s;
     (mi, s) \<leftarrow> get_digits 2 s;
     s \<leftarrow> expect (CHR '':'') s;
     (sec, s) \<leftarrow> get_digits 2 s;
     let (ns, s) = get_fraction s;
     z \<leftarrow> get_zone s;
     guard (1 \<le> m \<and> m \<le> 12 \<and> 1 \<le> d \<and> int d \<le> days_in m (int y) \<and> h < 24 \<and> mi < 60 \<and> sec < 60);
     Some (time_Date (int y) m (int d) + int (h * 3600 + mi * 60 + sec) * second + int ns - z * second, z) }"

section \<open>Lemmas\<close>

lemma length_digits [simp]: "length (digits k n) = k"
  by (induction k arbitrary: n) auto

lemma is_digit_char [simp]: "(n :: nat) < 10 \<Longrightarrow> is_digit (char_of (48 + n))"
  by (simp add: is_digit_def)

lemma digits_are_digits [simp]: "list_all is_digit (digits k n)"
  by (induction k arbitrary: n) auto

lemma digits_nat_snoc [simp]: "digits_nat (s @ [c]) = 10 * digits_nat s + (code c - 48)"
  by (simp add: digits_nat_def)

lemma digits_nat_digits [simp]: "digits_nat (digits k n) = n mod 10 ^ k"
proof (induction k arbitrary: n)
  case 0
  then show ?case by (simp add: digits_nat_def)
next
  case (Suc k)
  have "10 * (n div 10 mod 10 ^ k) + n mod 10 = n mod 10 ^ Suc k"
    by (metis add.commute mod_mult2_eq power_Suc)
  then show ?case by (simp add: Suc)
qed

lemma get_digits_digits [simp]: "get_digits k (digits k n @ r) = Some (n mod 10 ^ k, r)"
  by (simp add: get_digits_def)

lemma get_digits_digits0 [simp]: "get_digits k (digits k n) = Some (n mod 10 ^ k, [])"
  using get_digits_digits [of k n "[]"] by simp

lemma get_hour_digits [simp]: "get_hour (digits 2 n @ r) = Some (n mod 100, r)"
  by (simp add: get_hour_def)

lemma expect_Cons [simp]: "expect c (c # r) = Some r"
  by (simp add: expect_def)

lemma guard_True [simp]: "guard True = Some ()"
  by (simp add: guard_def)

lemma strip_zeros_pad: "strip_zeros s @ replicate (length s - length (strip_zeros s)) (CHR ''0'') = s"
proof (induction s rule: rev_induct)
  case (snoc c s)
  show ?case
  proof (cases "c = CHR ''0''")
    case True
    then have e: "strip_zeros (s @ [c]) = strip_zeros s" by (simp add: strip_zeros_def)
    have "length (strip_zeros s) \<le> length s"
      by (metis strip_zeros_def length_dropWhile_le length_rev)
    then have "strip_zeros s @ replicate (length (s @ [c]) - length (strip_zeros s)) (CHR ''0'')
        = (strip_zeros s @ replicate (length s - length (strip_zeros s)) (CHR ''0'')) @ [c]"
      using True by (simp add: Suc_diff_le replicate_append_same)
    then show ?thesis by (simp only: e snoc)
  qed (simp add: strip_zeros_def)
qed (simp add: strip_zeros_def)

lemma strip_pad:
  assumes "length s = k"
  shows "take k (strip_zeros s @ replicate k (CHR ''0'')) = s"
proof -
  have "length (strip_zeros s) \<le> k"
    using assms by (metis strip_zeros_def length_dropWhile_le length_rev)
  then show ?thesis using strip_zeros_pad [of s] assms by simp
qed

lemma strip_zeros_digits: "list_all is_digit s \<Longrightarrow> list_all is_digit (strip_zeros s)"
  by (auto simp: strip_zeros_def list_all_iff dest: set_dropWhileD)

lemma strip_zeros_eq_Nil: "strip_zeros s = [] \<longleftrightarrow> set s \<subseteq> {CHR ''0''}"
  by (auto simp: strip_zeros_def dropWhile_eq_Nil_conv)

lemma digits_nat_zeros: "set s \<subseteq> {CHR ''0''} \<Longrightarrow> digits_nat s = 0"
  by (induction s rule: rev_induct) (auto simp: digits_nat_def)

lemma takeWhile_digits:
  "list_all is_digit s \<Longrightarrow> r = [] \<or> \<not> is_digit (hd r) \<Longrightarrow> takeWhile is_digit (s @ r) = s \<and> dropWhile is_digit (s @ r) = r"
  by (induction s) (cases r; auto)+

lemma get_fraction_format:
  assumes "ns < 10 ^ 9" "r \<noteq> []" "\<not> is_digit (hd r)" "hd r \<notin> {CHR ''.'', CHR '',''}"
  shows "get_fraction (format_fraction ns @ r) = (ns, r)"
proof (cases "ns = 0")
  case True
  then show ?thesis using assms by (cases r; cases "tl r") (auto simp: format_fraction_def get_fraction_def)
next
  case False
  let ?q = "strip_zeros (digits 9 ns)"
  have "?q \<noteq> []"
  proof
    assume "?q = []"
    then have "digits_nat (digits 9 ns) = 0" 
      using digits_nat_zeros strip_zeros_eq_Nil by blast
    with assms(1) False show False by simp
  qed
  then obtain d q where q: "?q = d # q" by (cases ?q) auto
  have dg: "list_all is_digit (d # q)" using strip_zeros_digits [OF digits_are_digits] q by metis
  have "takeWhile is_digit ((d # q) @ r) = d # q \<and> dropWhile is_digit ((d # q) @ r) = r"
    using takeWhile_digits [OF dg] assms by blast
  moreover have "take 9 ((d # q) @ replicate 9 (CHR ''0'')) = digits 9 ns"
    using strip_pad [of "digits 9 ns" 9] q by simp
  ultimately show ?thesis using False assms(1) dg q
    by (simp add: format_fraction_def get_fraction_def)
qed

lemma get_zone_format:
  assumes "z mod 60 = 0" "\<bar>z\<bar> < 86400"
  shows "get_zone (format_zone z) = Some z"
proof (cases "z = 0")
  case True
  then show ?thesis by (simp add: get_zone_def format_zone_def)
next
  case False
  define m where "m = nat \<bar>z\<bar> div 60"
  have "\<bar>z\<bar> div 60 * 60 = \<bar>z\<bar>" using assms(1) by (simp add: mod_0_imp_dvd)
  then have m: "m < 1440" "int (m * 60) = \<bar>z\<bar>" using assms(2) by (auto simp: m_def zdiv_int)
  have "m div 60 < 100" "m mod 60 < 100" "m div 60 \<le> 24" "m mod 60 \<le> 60"
    "(m div 60) * 60 + m mod 60 = m" using m by auto
  moreover from this have "3600 * int (m div 60) + int (m mod 60) * 60 = \<bar>z\<bar>"
    using m(2) by linarith
  ultimately show ?thesis using m False
    by (auto simp: get_zone_def format_zone_def Let_def m_def [symmetric])
qed

text \<open>What is written is read back, for an offset of whole minutes (the form drops its seconds).\<close>

lemma time_Day_le: "time_Day t \<le> days_in (time_Month t) (time_Year t)"
  using month_end_gt [of t] by (simp add: time_Day_def days_in_def)

lemma days_in_le:
  assumes "1 \<le> m" "m \<le> 12"
  shows "days_in m y \<le> 31"
proof -
  have "m \<in> set [1..<13]" using assms by simp
  then show ?thesis
    by (auto simp: days_in_def days_before_month_def month_starts_def upt_rec numeral_eq_Suc)
qed

lemma day_split:
  fixes l :: int
  defines "sod \<equiv> nat (l mod day_ns div second)"
  shows "sod < 86400" "int sod * second + l mod second = l mod day_ns"
    "sod div 3600 * 3600 + sod div 60 mod 60 * 60 + sod mod 60 = sod" "sod div 3600 < 24"
proof -
  have b: "0 \<le> l mod day_ns" "l mod day_ns < 86400 * second" by simp_all
  then have "l mod day_ns div second < 86400" by linarith
  then show s: "sod < 86400" by (simp add: sod_def)
  have "int sod = l mod day_ns div second" using b by (simp add: sod_def pos_imp_zdiv_nonneg_iff)
  moreover have "l mod second = l mod day_ns mod second" by (simp add: mod_mod_cancel)
  ultimately show "int sod * second + l mod second = l mod day_ns" by simp
  have "sod div 3600 = sod div 60 div 60" by (simp flip: div_mult2_eq)
  then show "sod div 3600 * 3600 + sod div 60 mod 60 * 60 + sod mod 60 = sod"
    using div_mult_mod_eq [of "sod div 60" 60] div_mult_mod_eq [of sod 60] by linarith
  show "sod div 3600 < 24" using s by (simp add: less_mult_imp_div_less)
qed

lemma format_zone_head: "format_zone z \<noteq> [] \<and> \<not> is_digit (hd (format_zone z)) \<and> hd (format_zone z) \<notin> {CHR ''.'', CHR '',''}"
  by (auto simp: format_zone_def is_digit_def Let_def)

lemma parse_format_rfc3339:
  assumes "format_rfc3339 (t, z) = Some s" "z mod 60 = 0"
  shows "parse_rfc3339 s = Some (t, z)"
proof -
  define l where "l = t + z * second"
  define sod where "sod = nat (l mod day_ns div second)"
  note d = day_split [of l, folded sod_def]
  define ns where "ns = nat (l mod second)"
  have ns: "ns < 10 ^ 9" "int ns = l mod second" by (simp_all add: ns_def nat_less_iff)
  have y: "0 \<le> time_Year l" "time_Year l \<le> 9999" "\<bar>z\<bar> < 86400"
    using assms(1) by (auto simp: format_rfc3339_def l_def Let_def split: if_splits)
  have md: "1 \<le> time_Month l" "time_Month l \<le> 12" "1 \<le> time_Day l" "time_Day l \<le> days_in (time_Month l) (time_Year l)"
    using time_Month_bounds time_Day_ge time_Day_le by auto
  have d31: "time_Day l \<le> 31" using md(4) days_in_le [OF md(1,2), of "time_Year l"] by linarith
  have s: "s = digits 4 (nat (time_Year l)) @ ''-'' @ digits 2 (time_Month l) @ ''-''
       @ digits 2 (nat (time_Day l)) @ ''T'' @ digits 2 (sod div 3600) @ '':'' @ digits 2 (sod div 60 mod 60)
       @ '':'' @ digits 2 (sod mod 60) @ format_fraction ns @ format_zone z"
    using assms(1) y by (simp add: format_rfc3339_def l_def sod_def ns_def Let_def split: if_splits)
  have date: "time_Date (time_Year l) (time_Month l) (time_Day l) + l mod day_ns = l"
    by (simp add: time_Date_today)
  have nums: "Suc 0 \<le> nat (time_Day l)" "nat (time_Year l) < 10000" "time_Month l < 100" "nat (time_Day l) < 100"
    "sod div 3600 < 100" "sod div 60 mod 60 < 100" "sod mod 60 < 100"
    using y md d31 d(4) by auto
  have frac: "get_fraction (format_fraction ns @ format_zone z) = (ns, format_zone z)"
    using get_fraction_format [OF ns(1)] format_zone_head by blast
  have sum: "int (sod div 3600 * 3600 + sod div 60 mod 60 * 60 + sod mod 60) * second + int ns = l mod day_ns"
    unfolding d(3) ns(2) by (rule d(2))
  have "parse_rfc3339 s = Some (time_Date (time_Year l) (time_Month l) (time_Day l)
      + int (sod div 3600 * 3600 + sod div 60 mod 60 * 60 + sod mod 60) * second + int ns - z * second, z)"
    unfolding s parse_rfc3339_def
    using nums md y d(4) get_zone_format [OF assms(2) y(3)]
    by (simp add: frac Let_def)
  also have "\<dots> = Some (l - z * second, z)"
    using sum date by (simp add: algebra_simps)
  finally show ?thesis by (simp add: l_def)
qed

text \<open>The written form needs no escaping.\<close>

lemma digits_plain [simp]: "list_all plain_char (digits k n)"
proof -
  have "plain_char c" if "is_digit c" for c
    using that by (auto simp: is_digit_def plain_char_def)
  then show ?thesis using digits_are_digits [of k n] by (metis list_all_iff)
qed

lemma format_rfc3339_plain:
  assumes "format_rfc3339 w = Some s"
  shows "list_all plain_char s"
proof -
  have st: "list_all plain_char (strip_zeros q)" if "list_all plain_char q" for q
    using that by (auto simp: strip_zeros_def list_all_iff dest: set_dropWhileD)
  have "list_all plain_char (format_fraction n)" for n
    by (simp add: format_fraction_def st plain_char_def)
  moreover have "list_all plain_char (format_zone z)" for z
    by (simp add: format_zone_def plain_char_def Let_def)
  ultimately show ?thesis
    using assms by (auto simp: format_rfc3339_def plain_char_def Let_def split: prod.splits if_splits)
qed

text \<open>A field of type \<open>time.Time\<close>: the literal itself is parsed.\<close>

definition time_field :: "(time \<times> int \<Rightarrow> 'r \<Rightarrow> 'r) \<Rightarrow> json \<Rightarrow> 'r \<Rightarrow> 'r option" where
  "time_field upd v r = (case v of
     JNull \<Rightarrow> Some r
   | JStr raw \<Rightarrow> (case parse_rfc3339 raw of Some w \<Rightarrow> Some (upd w r) | None \<Rightarrow> None)
   | _ \<Rightarrow> None)"

lemma time_field_quote:
  assumes "format_rfc3339 w = Some t" "snd w mod 60 = 0"
  shows "time_field upd (JStr (quote_body t)) r = Some (upd w r)"
proof -
  obtain a z where w: "w = (a, z)" by fastforce
  then have "parse_rfc3339 t = Some w" using parse_format_rfc3339 assms by simp
  then show ?thesis by (simp add: time_field_def quote_body_plain [OF format_rfc3339_plain [OF assms(1)]])
qed

end
