(* ===== verification/GoBase64.thy ===== *)
theory GoBase64
  imports GoJson
begin

text \<open>
  \<open>base64.RawURLEncoding\<close>: the URL alphabet without padding. The decoder skips line breaks and does
  not look at the unused bits of the last character.
\<close>

definition b64_char :: "nat \<Rightarrow> char" where
  "b64_char n =
     (if n < 26 then char_of (65 + n) else if n < 52 then char_of (71 + n)
      else if n < 62 then char_of (n - 4) else if n = 62 then CHR ''-'' else CHR ''_'')"

definition b64_val :: "char \<Rightarrow> nat option" where
  "b64_val c = (let n = code c in
     if 65 \<le> n \<and> n \<le> 90 then Some (n - 65) else if 97 \<le> n \<and> n \<le> 122 then Some (n - 71)
     else if 48 \<le> n \<and> n \<le> 57 then Some (n + 4) else if c = CHR ''-'' then Some 62
     else if c = CHR ''_'' then Some 63 else None)"

fun b64_encode :: "string \<Rightarrow> string" where
  "b64_encode (a # b # c # s) =
     b64_char (code a div 4) # b64_char (code a mod 4 * 16 + code b div 16)
     # b64_char (code b mod 16 * 4 + code c div 64) # b64_char (code c mod 64) # b64_encode s"
| "b64_encode [a, b] =
     [b64_char (code a div 4), b64_char (code a mod 4 * 16 + code b div 16), b64_char (code b mod 16 * 4)]"
| "b64_encode [a] = [b64_char (code a div 4), b64_char (code a mod 4 * 16)]"
| "b64_encode [] = []"

fun b64_quanta :: "nat list \<Rightarrow> string option" where
  "b64_quanta (w # x # y # z # s) =
     map_option (\<lambda>r. char_of (w * 4 + x div 16) # char_of (x mod 16 * 16 + y div 4) # char_of (y mod 4 * 64 + z) # r)
       (b64_quanta s)"
| "b64_quanta [w, x, y] = Some [char_of (w * 4 + x div 16), char_of (x mod 16 * 16 + y div 4)]"
| "b64_quanta [w, x] = Some [char_of (w * 4 + x div 16)]"
| "b64_quanta [w] = None"
| "b64_quanta [] = Some []"

definition b64_decode :: "string \<Rightarrow> string option" where
  "b64_decode s =
     (let vs = map b64_val (filter (\<lambda>c. c \<notin> {CHR 0x0A, CHR 0x0D}) s) in
      if None \<in> set vs then None else b64_quanta (map the vs))"

section \<open>Lemmas\<close>

lemma b64_val_char: "n < 64 \<Longrightarrow> b64_val (b64_char n) = Some n"
proof -
  assume "n < 64"
  then consider "n < 26" | "26 \<le> n" "n < 52" | "52 \<le> n" "n < 62" | "n = 62" | "n = 63" by linarith
  then show ?thesis by cases (auto simp: b64_val_def b64_char_def Let_def)
qed

lemma b64_char_kept: "n < 64 \<Longrightarrow> b64_char n \<notin> {CHR 0x0A, CHR 0x0D, CHR ''.''}"
proof -
  assume n: "n < 64"
  have "b64_val (CHR 0x0A) = None" "b64_val (CHR 0x0D) = None" "b64_val (CHR ''.'') = None" by code_simp+
  then show ?thesis using b64_val_char [OF n] by auto
qed

text \<open>The sextets of a string.\<close>

fun sextets :: "string \<Rightarrow> nat list" where
  "sextets (a # b # c # s) =
     (code a div 4) # (code a mod 4 * 16 + code b div 16) # (code b mod 16 * 4 + code c div 64)
     # (code c mod 64) # sextets s"
| "sextets [a, b] = [code a div 4, code a mod 4 * 16 + code b div 16, code b mod 16 * 4]"
| "sextets [a] = [code a div 4, code a mod 4 * 16]"
| "sextets [] = []"

lemma b64_encode_sextets: "b64_encode s = map b64_char (sextets s)"
  by (induction s rule: sextets.induct) auto

lemma code_parts:
  "code c div 4 < 64" "code c mod 4 < 4" "code c div 16 < 16" "code c mod 16 < 16" "code c div 64 < 4"
  "code c mod 64 < 64"
  using code_less [of c] by (simp_all add: less_mult_imp_div_less)

lemma split16: "y < 16 \<Longrightarrow> (m * 16 + y) div 16 = m" "y < 16 \<Longrightarrow> (m * 16 + y) mod 16 = (y :: nat)"
  and split4: "y < 4 \<Longrightarrow> (m * 4 + y) div 4 = m" "y < 4 \<Longrightarrow> (m * 4 + y) mod 4 = (y :: nat)"
  by simp_all

lemma code_sextets:
  "code a mod 4 * 16 + code b div 16 < 64" "code b mod 16 * 4 + code c div 64 < 64"
  "code a mod 4 * 16 < 64" "code b mod 16 * 4 < 64"
  using code_parts [of a] code_parts [of b] code_parts [of c] by linarith+

lemma sextets_lt: "n \<in> set (sextets s) \<Longrightarrow> n < 64"
proof (induction s rule: sextets.induct)
  case (1 a b c s)
  then show ?case using code_parts(1) [of a] code_sextets by auto
next
  case (2 a b)
  then show ?case using code_parts(1) [of a] code_sextets by auto
next
  case (3 a)
  then show ?case using code_parts(1) [of a] code_sextets by auto
qed simp

lemma quanta_sextets: "b64_quanta (sextets s) = Some s"
proof (induction s rule: sextets.induct)
  case (1 a b c s)
  then show ?case
    using split16(2) [OF code_parts(3) [of b], of "code a mod 4"] split4 [OF code_parts(5) [of c], of "code b mod 16"]
    by (simp add: split16(1) [OF code_parts(3)])
next
  case (2 a b)
  then show ?case
    using split16(2) [OF code_parts(3) [of b], of "code a mod 4"]
    by (simp add: split16(1) [OF code_parts(3)])
qed simp_all

lemma b64_roundtrip: "b64_decode (b64_encode s) = Some s"
proof -
  have keep: "filter (\<lambda>c. c \<notin> {CHR 0x0A, CHR 0x0D}) (b64_encode s) = b64_encode s"
    using b64_char_kept sextets_lt by (fastforce simp: b64_encode_sextets filter_id_conv)
  have vals: "map b64_val (b64_encode s) = map Some (sextets s)"
    using sextets_lt by (auto simp: b64_encode_sextets b64_val_char)
  show ?thesis
    unfolding b64_decode_def keep vals Let_def by (auto simp: quanta_sextets comp_def)
qed

lemma b64_encode_ascii: "list_all is_ascii (b64_encode s)"
proof -
  have "is_ascii (b64_char n)" if "n < 64" for n
  proof -
    consider "n < 26" | "26 \<le> n" "n < 52" | "52 \<le> n" "n < 62" | "n = 62" | "n = 63" using \<open>n < 64\<close> by linarith
    then show ?thesis by cases (simp_all add: b64_char_def is_ascii_def)
  qed
  then show ?thesis using sextets_lt by (auto simp: b64_encode_sextets list_all_iff)
qed

lemma b64_encode_no_dot: "CHR ''.'' \<notin> set (b64_encode s)"
  using b64_char_kept sextets_lt by (fastforce simp: b64_encode_sextets)

end
