(* ===== verification/Pricing.thy ===== *)
theory Pricing
  imports GoFloat
begin

text \<open>
  src/internal/domain/usage/pricing.go: the server's price table, the model-family detection and
  \<open>CostForUsage\<close>. Token counters are \<open>int64\<close>, rates and costs are doubles with every operation
  rounded. \<open>uni\<close> is what \<open>strings.ToLower\<close> does to a string with non-ASCII bytes.
\<close>

section \<open>The table\<close>

record modelRate =
  Input :: float64
  Output :: float64
  CacheWrite5m :: float64
  CacheRead :: float64

text \<open>A Go map read with a missing key gives the zero value of its element type.\<close>

definition zeroRate :: modelRate where
  "zeroRate = \<lparr>Input = 0, Output = 0, CacheWrite5m = 0, CacheRead = 0\<rparr>"

text \<open>The literals of the source are decimals; the compiler rounds each to a double.\<close>

definition rate :: "rat \<Rightarrow> rat \<Rightarrow> rat \<Rightarrow> rat \<Rightarrow> modelRate" where
  "rate i out cw cr = \<lparr>Input = fl64 i, Output = fl64 out, CacheWrite5m = fl64 cw, CacheRead = fl64 cr\<rparr>"

text \<open>The decimals of each row: input, output, cache write, cache read.\<close>

definition priceList :: "(string \<times> rat \<times> rat \<times> rat \<times> rat) list" where
  "priceList =
     [(''fable'', 10, 50, 25/2, 1),
      (''opus'', 5, 25, 25/4, 1/2),
      (''opus_legacy'', 15, 75, 75/4, 3/2),
      (''sonnet'', 3, 15, 15/4, 3/10),
      (''haiku'', 1, 5, 5/4, 1/10),
      (''haiku_legacy'', 4/5, 4, 1, 2/25)]"

definition pricingTable :: "string \<Rightarrow> modelRate" where
  "pricingTable f = (case map_of priceList f of
     Some (i, out, cw, cr) \<Rightarrow> rate i out cw cr | None \<Rightarrow> zeroRate)"

definition defaultFamily :: string where "defaultFamily = ''sonnet''"

section \<open>Family detection and cost\<close>

definition containsAny :: "string \<Rightarrow> string list \<Rightarrow> bool" where
  "containsAny s vs = list_ex (strings_Contains s) vs"

definition modelFamily :: "(string \<Rightarrow> string) \<Rightarrow> string \<Rightarrow> string" where
  "modelFamily uni m =
     (if m = [] then defaultFamily
      else let lower = strings_ToLower uni m in
        if strings_Contains lower ''fable'' \<or> strings_Contains lower ''mythos'' then ''fable''
        else if strings_Contains lower ''opus'' then
          (if containsAny lower [''4-5'', ''4-6'', ''4-7'', ''4-8'', ''4.5'', ''4.6'', ''4.7'', ''4.8'']
           then ''opus''
           else if containsAny lower [''4-0'', ''4-1'', ''4.0'', ''4.1''] then ''opus_legacy''
           else ''opus'')
        else if strings_Contains lower ''sonnet'' then ''sonnet''
        else if strings_Contains lower ''haiku'' then
          (if containsAny lower [''3-5'', ''3.5''] then ''haiku_legacy'' else ''haiku'')
        else if strings_Contains lower ''synthetic'' then ''haiku''
        else defaultFamily)"

definition CostForUsage :: "(string \<Rightarrow> string) \<Rightarrow> string \<Rightarrow> i64 \<Rightarrow> i64 \<Rightarrow> i64 \<Rightarrow> i64 \<Rightarrow> float64" where
  "CostForUsage uni m inputTokens outputTokens cacheReadInputTokens cacheCreationInputTokens =
     (let r = pricingTable (modelFamily uni m) in
      f64_add (f64_add (f64_add
        (f64_div (f64_mul (f64_of_i64 inputTokens) (Input r)) 1000000)
        (f64_div (f64_mul (f64_of_i64 outputTokens) (Output r)) 1000000))
        (f64_div (f64_mul (f64_of_i64 cacheReadInputTokens) (CacheRead r)) 1000000))
        (f64_div (f64_mul (f64_of_i64 cacheCreationInputTokens) (CacheWrite5m r)) 1000000))"

text \<open>The list price, in exact arithmetic.\<close>

definition list_price :: "(string \<Rightarrow> string) \<Rightarrow> string \<Rightarrow> i64 \<Rightarrow> i64 \<Rightarrow> i64 \<Rightarrow> i64 \<Rightarrow> rat" where
  "list_price uni m inp out cr cw =
     (case map_of priceList (modelFamily uni m) of
        Some (p_in, p_out, p_cw, p_cr) \<Rightarrow>
          (of_int (sint inp) * p_in + of_int (sint out) * p_out + of_int (sint cr) * p_cr
           + of_int (sint cw) * p_cw) / 1000000
      | None \<Rightarrow> 0)"

section \<open>The family is always a row of the table\<close>

lemma modelFamily_in_table: "modelFamily uni m \<in> fst ` set priceList"
  by (simp add: modelFamily_def priceList_def defaultFamily_def Let_def)

text \<open>What the proofs use of a row: its decimals lie between 2/25 and 75.\<close>

definition price_ok :: "rat \<Rightarrow> bool" where "price_ok p \<longleftrightarrow> 2/25 \<le> p \<and> p \<le> 75"

lemma priceList_ok:
  assumes "(f, i, out, cw, cr) \<in> set priceList"
  shows "price_ok i" "price_ok out" "price_ok cw" "price_ok cr"
  using assms by (auto simp: priceList_def price_ok_def)

lemma pricingTable_row:
  obtains f i out cw cr where "(f, i, out, cw, cr) \<in> set priceList"
    and "map_of priceList (modelFamily uni m) = Some (i, out, cw, cr)"
    and "pricingTable (modelFamily uni m) = rate i out cw cr"
proof -
  have "map_of priceList (modelFamily uni m) \<noteq> None"
    using modelFamily_in_table [of uni m] by (simp add: map_of_eq_None_iff)
  then obtain i out cw cr where r: "map_of priceList (modelFamily uni m) = Some (i, out, cw, cr)" by auto
  show thesis
    by (rule that [OF map_of_SomeD [OF r] r]) (simp add: pricingTable_def r)
qed

section \<open>One priced counter\<close>

text \<open>The value of one counter at a decimal price, as the code computes it.\<close>

definition term_cost :: "i64 \<Rightarrow> rat \<Rightarrow> float64" where
  "term_cost n p = f64_div (f64_mul (f64_of_i64 n) (fl64 p)) 1000000"

definition exact_term :: "i64 \<Rightarrow> rat \<Rightarrow> rat" where
  "exact_term n p = of_int (sint n) * p / 1000000"

lemma CostForUsage_terms:
  assumes "pricingTable (modelFamily uni m) = rate i out cw cr"
  shows "CostForUsage uni m a b c d =
    fl64 (fl64 (fl64 (term_cost a i + term_cost b out) + term_cost c cr) + term_cost d cw)"
  by (simp add: CostForUsage_def assms rate_def term_cost_def f64_add_def)

lemma i64_abs_bound: "\<bar>of_int (sint (n :: i64)) :: rat\<bar> \<le> 2 ^ 63"
proof -
  have "- (2 ^ 63) \<le> sint n" "sint n < 2 ^ 63"
    using sint_ge [of n] sint_lt [of n] by simp_all
  then have "\<bar>sint n\<bar> \<le> 2 ^ 63" by linarith
  then have "(of_int \<bar>sint n\<bar> :: rat) \<le> of_int (2 ^ 63)" by (simp only: of_int_le_iff)
  then show ?thesis by simp
qed

lemma i64_le_rat: "sint (n :: i64) \<le> sint n' \<Longrightarrow> (of_int (sint n) :: rat) \<le> of_int (sint n')"
  by (simp only: of_int_le_iff)

lemma i64_ge_1_rat: "0 \<le> sint (n :: i64) \<Longrightarrow> sint n \<noteq> 0 \<Longrightarrow> (1 :: rat) \<le> of_int (sint n)"
  by (subst of_int_1 [symmetric]) (simp only: of_int_le_iff)

lemma term_cost_bound:
  assumes "price_ok p"
  shows "\<bar>term_cost n p\<bar> \<le> 2 ^ 51"
proof -
  have "\<bar>f64_of_i64 n\<bar> \<le> 2 ^ 63"
    unfolding f64_of_i64_def by (rule fl64_abs_le_pow2) (rule i64_abs_bound)
  moreover have "\<bar>fl64 p\<bar> \<le> 2 ^ 7"
    by (rule fl64_abs_le_pow2) (use assms in \<open>simp add: price_ok_def\<close>)
  ultimately have "\<bar>f64_of_i64 n * fl64 p\<bar> \<le> 2 ^ 63 * 2 ^ 7"
    unfolding abs_mult by (rule mult_mono) simp_all
  then have "\<bar>f64_mul (f64_of_i64 n) (fl64 p)\<bar> \<le> 2 ^ 70"
    unfolding f64_mul_def by (intro fl64_abs_le_pow2) simp
  then have "\<bar>f64_mul (f64_of_i64 n) (fl64 p) / 1000000\<bar> \<le> 2 ^ 51" by simp
  then show ?thesis
    unfolding term_cost_def f64_div_def by (rule fl64_abs_le_pow2)
qed

lemma term_cost_mono:
  assumes "price_ok p" "sint n \<le> sint n'"
  shows "term_cost n p \<le> term_cost n' p"
proof -
  have "f64_of_i64 n \<le> f64_of_i64 n'"
    unfolding f64_of_i64_def by (intro fl64_mono i64_le_rat assms(2))
  moreover have "0 \<le> fl64 p" using assms by (intro fl64_nonneg) (simp add: price_ok_def)
  ultimately have "f64_mul (f64_of_i64 n) (fl64 p) \<le> f64_mul (f64_of_i64 n') (fl64 p)"
    unfolding f64_mul_def by (intro fl64_mono mult_right_mono)
  then show ?thesis unfolding term_cost_def f64_div_def by (intro fl64_mono) simp
qed

lemma term_cost_0 [simp]: "term_cost 0 p = 0"
  by (simp add: term_cost_def f64_of_i64_def f64_mul_def f64_div_def)

lemma term_cost_nonneg: "price_ok p \<Longrightarrow> 0 \<le> sint n \<Longrightarrow> 0 \<le> term_cost n p"
  using term_cost_mono [of p 0 n] by simp

lemma exact_term_range:
  assumes "price_ok p" "0 \<le> sint n"
  shows "exact_term n p = 0 \<or> 2 / 10 ^ 8 \<le> exact_term n p" and "0 \<le> exact_term n p"
proof -
  have "exact_term n p = 0 \<or> 2 / 10 ^ 8 \<le> exact_term n p"
  proof (cases "sint n = 0")
    case True
    then show ?thesis by (simp add: exact_term_def)
  next
    case False
    with assms(2) have "(1 :: rat) \<le> of_int (sint n)" by (rule i64_ge_1_rat)
    with assms(1) have "1 * (2/25) \<le> of_int (sint n) * p"
      by (intro mult_mono) (simp_all add: price_ok_def)
    then show ?thesis by (simp add: exact_term_def)
  qed
  then show "exact_term n p = 0 \<or> 2 / 10 ^ 8 \<le> exact_term n p" "0 \<le> exact_term n p" by auto
qed

lemma term_cost_near:
  assumes p: "price_ok p" and n: "0 \<le> sint n"
  shows "near 4 (term_cost n p) (exact_term n p)"
proof -
  let ?n = "of_int (sint n) :: rat"
  have n1: "?n = 0 \<or> 1 \<le> ?n" using i64_ge_1_rat [OF n] by (cases "sint n = 0") auto
  have "near 1 (f64_of_i64 n) ?n"
    using near_fl64 [OF near_refl, of ?n] n1 n by (auto simp: f64_of_i64_def)
  moreover have "near 1 (fl64 p) p"
    using near_fl64 [OF near_refl, of p] p by (simp add: price_ok_def)
  ultimately have "near (1 + 1) (f64_of_i64 n * fl64 p) (?n * p)" by (rule near_mult)
  moreover have "?n * p = 0 \<or> 1 / 10 ^ 8 \<le> ?n * p"
  proof -
    have scale: "q = 0 \<or> 1 / 10 ^ 8 \<le> q" if "q / 1000000 = 0 \<or> 2 / 10 ^ 8 \<le> q / 1000000" for q :: rat
      using that by auto
    show ?thesis by (rule scale) (rule exact_term_range(1) [OF p n, unfolded exact_term_def])
  qed
  ultimately have "near (Suc (1 + 1)) (f64_mul (f64_of_i64 n) (fl64 p)) (?n * p)"
    unfolding f64_mul_def by (intro near_fl64) simp_all
  then have "near (Suc (1 + 1)) (f64_mul (f64_of_i64 n) (fl64 p) / 1000000) (exact_term n p)"
    unfolding exact_term_def by (rule near_divide) simp
  moreover have "exact_term n p = 0 \<or> 1 / 10 ^ 8 \<le> exact_term n p"
    using exact_term_range(1) [OF p n] by auto
  ultimately have "near (Suc (Suc (1 + 1))) (term_cost n p) (exact_term n p)"
    unfolding term_cost_def f64_div_def by (intro near_fl64) simp_all
  then show ?thesis by (simp add: numeral_eq_Suc)
qed

lemma near_sum:
  assumes "near k a x" "near 4 b y" "4 \<le> k" "k < 20"
    and "x = 0 \<or> 1 / 10 ^ 8 \<le> x" "y = 0 \<or> 1 / 10 ^ 8 \<le> y"
  shows "near (Suc k) (fl64 (a + b)) (x + y)" and "x + y = 0 \<or> 1 / 10 ^ 8 \<le> x + y"
proof -
  show r: "x + y = 0 \<or> 1 / 10 ^ 8 \<le> x + y" using assms(5,6) by auto
  show "near (Suc k) (fl64 (a + b)) (x + y)"
    by (rule near_fl64 [OF near_add [OF assms(1) near_weaken [OF assms(2,3)]]]) (use assms(4) r in simp_all)
qed

section \<open>The properties of CostForUsage\<close>

text \<open>
  A cost is a finite double far below the overflow threshold, whatever the counters: the
  arithmetic of \<open>CostForUsage\<close> never leaves the range where doubles behave.
\<close>

lemma cost_bounds: "\<bar>CostForUsage uni m i out cr cw\<bar> \<le> 2 ^ 54"
proof -
  obtain f p_in p_out p_cw p_cr where row: "(f, p_in, p_out, p_cw, p_cr) \<in> set priceList"
    and tab: "pricingTable (modelFamily uni m) = rate p_in p_out p_cw p_cr"
    by (rule pricingTable_row)
  note ok = priceList_ok [OF row]
  have add: "\<bar>fl64 (a + b)\<bar> \<le> 2 ^ Suc k" if "\<bar>a\<bar> \<le> 2 ^ k" "\<bar>b\<bar> \<le> 2 ^ 51" "51 \<le> k" for a b k
  proof (rule fl64_abs_le_pow2)
    have "(2 :: rat) ^ 51 \<le> 2 ^ k" using that(3) by (rule power_increasing) simp
    with that show "\<bar>a + b\<bar> \<le> 2 ^ Suc k" by (simp add: abs_le_iff)
  qed
  have "\<bar>CostForUsage uni m i out cr cw\<bar> \<le> 2 ^ Suc (Suc (Suc 51))"
    unfolding CostForUsage_terms [OF tab] by (intro add term_cost_bound ok) simp_all
  then show ?thesis by (simp add: eval_nat_numeral)
qed

lemma near_error: "near 7 a x \<Longrightarrow> \<bar>a - x\<bar> \<le> x / 2 ^ 50"
proof -
  assume n: "near 7 a x"
  have "1 - 1 / 2 ^ 50 \<le> (1 - 1 / 2 ^ 53 :: rat) ^ 7" "(1 + 1 / 2 ^ 53 :: rat) ^ 7 \<le> 1 + 1 / 2 ^ 50"
    by (simp_all add: power_divide)
  moreover have "0 \<le> x" using n by (simp add: near_def)
  ultimately have "(1 - 1 / 2 ^ 50) * x \<le> (1 - 1 / 2 ^ 53) ^ 7 * x"
    "(1 + 1 / 2 ^ 53) ^ 7 * x \<le> (1 + 1 / 2 ^ 50) * x"
    by (simp_all only: mult_right_mono)
  with n have "(1 - 1 / 2 ^ 50) * x \<le> a" "a \<le> (1 + 1 / 2 ^ 50) * x" unfolding near_def by linarith+
  then have "x - x / 2 ^ 50 \<le> a" "a \<le> x + x / 2 ^ 50" by (simp_all only: left_diff_distrib distrib_right) simp_all
  then show ?thesis unfolding abs_le_iff by linarith
qed

text \<open>
  C26. With no negative counter, the cost is within \<open>2 ^ -50\<close> of the list price, relatively: the
  eleven roundings of the four products, divisions and three additions never add up to more.
\<close>

theorem cost_accurate:
  assumes "0 \<le> sint inp" "0 \<le> sint out" "0 \<le> sint cr" "0 \<le> sint cw"
  shows "\<bar>CostForUsage uni m inp out cr cw - list_price uni m inp out cr cw\<bar>
    \<le> list_price uni m inp out cr cw / 2 ^ 50"
proof -
  obtain f p_in p_out p_cw p_cr where row: "(f, p_in, p_out, p_cw, p_cr) \<in> set priceList"
    and look: "map_of priceList (modelFamily uni m) = Some (p_in, p_out, p_cw, p_cr)"
    and tab: "pricingTable (modelFamily uni m) = rate p_in p_out p_cw p_cr"
    by (rule pricingTable_row)
  note ok = priceList_ok [OF row]
  have t: "near 4 (term_cost n p) (exact_term n p)" "exact_term n p = 0 \<or> 1 / 10 ^ 8 \<le> exact_term n p"
    if "price_ok p" "0 \<le> sint n" for n p
    using term_cost_near [OF that] exact_term_range(1) [OF that] by auto
  note a = t [OF ok(1) assms(1)] and b = t [OF ok(2) assms(2)]
    and c = t [OF ok(4) assms(3)] and d = t [OF ok(3) assms(4)]
  note ab = near_sum [OF a(1) b(1) _ _ a(2) b(2)]
  note abc = near_sum [OF ab(1) c(1) _ _ ab(2) c(2)]
  note abcd = near_sum [OF abc(1) d(1) _ _ abc(2) d(2)]
  have "near 7 (CostForUsage uni m inp out cr cw)
      (exact_term inp p_in + exact_term out p_out + exact_term cr p_cr + exact_term cw p_cw)"
    unfolding CostForUsage_terms [OF tab] using abcd(1) by simp
  moreover have "exact_term inp p_in + exact_term out p_out + exact_term cr p_cr + exact_term cw p_cw
      = list_price uni m inp out cr cw"
    by (simp add: list_price_def look exact_term_def add_divide_distrib)
  ultimately show ?thesis using near_error by metis
qed

text \<open>
  A turn that used at least as much of each counter never costs less, so rounding never turns
  more usage into a smaller figure.
\<close>

lemma cost_mono:
  assumes "sint inp \<le> sint inp'" "sint out \<le> sint out'" "sint cr \<le> sint cr'" "sint cw \<le> sint cw'"
  shows "CostForUsage uni m inp out cr cw \<le> CostForUsage uni m inp' out' cr' cw'"
proof -
  obtain f p_in p_out p_cw p_cr where row: "(f, p_in, p_out, p_cw, p_cr) \<in> set priceList"
    and tab: "pricingTable (modelFamily uni m) = rate p_in p_out p_cw p_cr"
    by (rule pricingTable_row)
  note ok = priceList_ok [OF row]
  show ?thesis
    unfolding CostForUsage_terms [OF tab]
    by (intro fl64_mono add_mono term_cost_mono ok assms)
qed

theorem cost_mono_witness:
  "CostForUsage (\<lambda>s. s) ''claude-opus-4-5'' 10 20 0 (-1) \<le> CostForUsage (\<lambda>s. s) ''claude-opus-4-5'' 10 21 0 7"
  by (rule cost_mono) simp_all

theorem cost_accurate_witness:
  "\<bar>CostForUsage (\<lambda>s. s) ''sonnet'' 1000 2000 3000 4000 - 489/10000\<bar> \<le> 489/10000 / 2 ^ 50"
proof -
  have "modelFamily (\<lambda>s. s) ''sonnet'' = ''sonnet''" by code_simp
  then have lp: "list_price (\<lambda>s. s) ''sonnet'' 1000 2000 3000 4000 = 489/10000"
    by (simp add: list_price_def priceList_def)
  show ?thesis unfolding lp [symmetric] by (rule cost_accurate) simp_all
qed

text \<open>No usage costs nothing.\<close>

lemma cost_zero: "CostForUsage uni m 0 0 0 0 = 0"
proof -
  obtain f p_in p_out p_cw p_cr where "pricingTable (modelFamily uni m) = rate p_in p_out p_cw p_cr"
    by (rule pricingTable_row)
  then show ?thesis by (simp add: CostForUsage_terms)
qed

lemma cost_nonneg:
  assumes "0 \<le> sint inp" "0 \<le> sint out" "0 \<le> sint cr" "0 \<le> sint cw"
  shows "0 \<le> CostForUsage uni m inp out cr cw"
proof -
  obtain f p_in p_out p_cw p_cr where row: "(f, p_in, p_out, p_cw, p_cr) \<in> set priceList"
    and tab: "pricingTable (modelFamily uni m) = rate p_in p_out p_cw p_cr"
    by (rule pricingTable_row)
  note ok = priceList_ok [OF row]
  show ?thesis
    unfolding CostForUsage_terms [OF tab]
    by (intro fl64_nonneg add_nonneg_nonneg term_cost_nonneg ok assms)
qed

section \<open>Spelling of the model id\<close>

lemma ascii_upper_lower: "is_ascii c \<Longrightarrow> is_ascii (ascii_upper c) \<and> ascii_lower (ascii_upper c) = ascii_lower c"
proof -
  assume "is_ascii c"
  then have n: "(of_char c :: nat) < 128" by (simp add: is_ascii_def)
  then have "(of_char (char_of (of_char c - 32 :: nat) :: char) :: nat) = of_char c - 32"
    by simp
  with n show ?thesis by (auto simp: is_ascii_def ascii_upper_def ascii_lower_def)
qed

text \<open>
  The price of a turn does not depend on the case in which its ASCII model id is written.
\<close>

lemma cost_ignores_case:
  assumes "list_all is_ascii m"
  shows "CostForUsage uni (map ascii_upper m) inp out cr cw = CostForUsage uni m inp out cr cw"
proof -
  have "list_all is_ascii (map ascii_upper m)" "map ascii_lower (map ascii_upper m) = map ascii_lower m"
    using assms ascii_upper_lower by (auto simp: list_all_iff)
  then have "strings_ToLower uni (map ascii_upper m) = strings_ToLower uni m"
    using assms by (simp add: strings_ToLower_def)
  then show ?thesis by (simp add: CostForUsage_def modelFamily_def)
qed

lemma cost_ignores_case_witness:
  "CostForUsage (\<lambda>s. []) ''OPUS-4'' 1 2 3 4 = CostForUsage (\<lambda>s. []) ''opus-4'' 1 2 3 4"
proof -
  have "map ascii_upper ''opus-4'' = ''OPUS-4''" by code_simp
  moreover have "list_all is_ascii ''opus-4''" by (simp add: is_ascii_def)
  ultimately show ?thesis using cost_ignores_case [of "''opus-4''" "\<lambda>s. []" 1 2 3 4] by simp
qed

end
