(* ===== verification/Collector_Pricing.thy ===== *)
theory Collector_Pricing
  imports Pricing
begin

text \<open>
  src/internal/collector/pricing.go: the collector's own copy of the price table, the family
  detection and the cost estimate, written out again as the source does, and the proof that the
  two copies agree on every input.
\<close>

definition collector_defaultFamily :: string where "collector_defaultFamily = ''sonnet''"

definition collector_pricingTable :: "string \<Rightarrow> modelRate" where
  "collector_pricingTable f =
     (if f = ''fable'' then rate 10 50 (25/2) 1
      else if f = ''opus'' then rate 5 25 (25/4) (1/2)
      else if f = ''opus_legacy'' then rate 15 75 (75/4) (3/2)
      else if f = ''sonnet'' then rate 3 15 (15/4) (3/10)
      else if f = ''haiku'' then rate 1 5 (5/4) (1/10)
      else if f = ''haiku_legacy'' then rate (4/5) 4 1 (2/25)
      else zeroRate)"

definition collector_modelFamily :: "(string \<Rightarrow> string) \<Rightarrow> string \<Rightarrow> string" where
  "collector_modelFamily uni m =
     (if m = [] then collector_defaultFamily
      else let lower = strings_ToLower uni m; has = strings_Contains lower in
        if has ''fable'' \<or> has ''mythos'' then ''fable''
        else if has ''opus'' then
          (if list_ex has [''4-5'', ''4-6'', ''4-7'', ''4-8'', ''4.5'', ''4.6'', ''4.7'', ''4.8''] then ''opus''
           else if list_ex has [''4-0'', ''4-1'', ''4.0'', ''4.1''] then ''opus_legacy''
           else ''opus'')
        else if has ''sonnet'' then ''sonnet''
        else if has ''haiku'' then
          (if list_ex has [''3-5'', ''3.5''] then ''haiku_legacy'' else ''haiku'')
        else if has ''synthetic'' then ''haiku''
        else collector_defaultFamily)"

definition collector_CostForUsage ::
    "(string \<Rightarrow> string) \<Rightarrow> string \<Rightarrow> i64 \<Rightarrow> i64 \<Rightarrow> i64 \<Rightarrow> i64 \<Rightarrow> float64" where
  "collector_CostForUsage uni m inputTokens outputTokens cacheReadInputTokens cacheCreationInputTokens =
     (let r = collector_pricingTable (collector_modelFamily uni m);
          part = (\<lambda>n p. f64_div (f64_mul (f64_of_i64 n) p) 1000000) in
      f64_add (f64_add (f64_add (part inputTokens (Input r)) (part outputTokens (Output r)))
        (part cacheReadInputTokens (CacheRead r))) (part cacheCreationInputTokens (CacheWrite5m r)))"

lemma collector_modelFamily_eq: "collector_modelFamily uni m = modelFamily uni m"
  by (simp add: collector_modelFamily_def modelFamily_def containsAny_def Let_def
      collector_defaultFamily_def defaultFamily_def)

lemma collector_pricingTable_eq: "collector_pricingTable f = pricingTable f"
  by (simp add: collector_pricingTable_def pricingTable_def priceList_def)

text \<open>
  C27. The collector's local estimate is the figure the server stores, for every model id and every
  counter value: the two copies of the table and of the family detection have not drifted apart.
\<close>

theorem estimate_eq_server_cost:
  "collector_CostForUsage uni m inp out cr cw = CostForUsage uni m inp out cr cw"
  by (simp add: collector_CostForUsage_def CostForUsage_def collector_modelFamily_eq
      collector_pricingTable_eq Let_def)

end
