(* ===== verification/Database.thy ===== *)
theory Database
  imports Pricing
begin

text \<open>
  The SQLite database behind every repository: the rows of the five tables of src/db/migrations,
  the statements of src/internal/db as functions of the tables, and the failures a statement may
  report. Each statement first consumes one entry of the script \<open>faults\<close>: \<open>True\<close> makes it fail
  in the driver with no effect, so a theorem about all databases covers every place a statement
  can fail. What SQLite and its driver leave open is the parameter \<open>engine\<close>.
\<close>

section \<open>Times as the driver stores them\<close>

text \<open>A Go time with its zone: the instant and the offset of the zone in seconds.\<close>

type_synonym wtime = "time \<times> int"

section \<open>Rows\<close>

text \<open>A row of \<open>usage_events\<close>; the same fields as \<open>usage.Event\<close>.\<close>

record Event =
  ev_ID :: string
  ev_SessionID :: string
  ev_Actor :: string
  ev_Path :: string
  ev_Machine :: string
  ev_Model :: string
  ev_ScanRoot :: string
  ev_InputTokens :: i64
  ev_OutputTokens :: i64
  ev_CacheReadInputTokens :: i64
  ev_CacheCreationInputTokens :: i64
  ev_Cost :: float64
  ev_Source :: string
  ev_CreatedAt :: wtime

record MachineRow =
  mr_InstallID :: string
  mr_Hostname :: string
  mr_LastSeenAt :: wtime

record ScanRootRow =
  sr_InstallID :: string
  sr_ScanRootPath :: string
  sr_Name :: string
  sr_SourceType :: string
  sr_LastSeenAt :: wtime

text \<open>\<open>role\<close> is TEXT; the nullable columns are options.\<close>

record UserRow =
  u_ID :: string
  u_Handle :: string
  u_Role :: string
  u_Active :: bool
  u_SsoSubject :: "string option"
  u_CreatedAt :: time
  u_UpdatedAt :: time

record ApiKeyRow =
  k_ID :: string
  k_UserID :: string
  k_KeyHash :: string
  k_KeyPrefix :: string
  k_CreatedAt :: time
  k_ExpiresAt :: time
  k_RevokedAt :: "time option"

record db =
  usage_events :: "Event list"
  machines :: "MachineRow list"
  scan_roots :: "ScanRootRow list"
  users :: "UserRow list"
  api_keys :: "ApiKeyRow list"
  faults :: "bool list"

section \<open>Errors\<close>

text \<open>The errors that travel through the server: the driver's and the sentinels of the packages;
  \<open>Wrap\<close> is \<open>fmt.Errorf\<close> with \<open>%w\<close>, seen through by \<open>errors.Is\<close>.\<close>

datatype go_error =
    DriverErr
  | NoRows
  | UniqueErr
  | UnknownWindow string
  | ErrNotFound
  | ErrUnauthorized
  | JwtErr string
  | RandErr
  | ErrInvalidCookie
  | TextErr string
  | Wrap string go_error

fun errors_Is :: "go_error \<Rightarrow> go_error \<Rightarrow> bool" where
  "errors_Is (Wrap m e) target = (Wrap m e = target \<or> errors_Is e target)"
| "errors_Is e target = (e = target)"

section \<open>The engine\<close>

text \<open>
  What the code relies on without stating it: the order in which a SELECT with no ORDER BY
  returns its rows, the order of stored times as the driver's text form gives it, and the two SUM
  aggregates (\<open>None\<close> is SQLite's integer-overflow error).
\<close>

datatype sqlval = SqlReal float64 | SqlInt i64 | SqlOther

record engine =
  e_events :: "Event list \<Rightarrow> Event list"
  e_machines :: "MachineRow list \<Rightarrow> MachineRow list"
  e_roots :: "ScanRootRow list \<Rightarrow> ScanRootRow list"
  e_keys :: "ApiKeyRow list \<Rightarrow> ApiKeyRow list"
  e_lt :: "wtime \<Rightarrow> wtime \<Rightarrow> bool"
  e_sum_cost :: "float64 list \<Rightarrow> sqlval"
  e_sum_tokens :: "(i64 \<times> i64 \<times> i64 \<times> i64) list \<Rightarrow> sqlval option"

definition tokens4 :: "i64 \<times> i64 \<times> i64 \<times> i64 \<Rightarrow> int" where
  "tokens4 q = (case q of (a, b, c, d) \<Rightarrow> sint a + sint b + sint c + sint d)"

definition nonneg4 :: "i64 \<times> i64 \<times> i64 \<times> i64 \<Rightarrow> bool" where
  "nonneg4 q = (case q of (a, b, c, d) \<Rightarrow> 0 \<le> sint a \<and> 0 \<le> sint b \<and> 0 \<le> sint c \<and> 0 \<le> sint d)"

text \<open>The documented behaviour the theorems use: a SELECT returns each row once, times of one
  zone compare as instants, and SUM of non-negative integers that fit is exact. The text of a stored
  time ends in its offset and the name of its zone; what is said of one zone holds for the years 0 to
  9999, the only ones RFC 3339 can write, and for one name of the zone, as UTC has where the server's own
  zone is UTC. How times of different offsets compare is left open.\<close>

definition engine_ok :: "engine \<Rightarrow> bool" where
  "engine_ok g \<longleftrightarrow>
     (\<forall>xs. mset (e_events g xs) = mset xs) \<and> (\<forall>xs. mset (e_machines g xs) = mset xs)
     \<and> (\<forall>xs. mset (e_roots g xs) = mset xs) \<and> (\<forall>xs. mset (e_keys g xs) = mset xs)
     \<and> (\<forall>a b z. e_lt g (a, z) (b, z) \<longleftrightarrow> a < b)
     \<and> (\<forall>qs. list_all nonneg4 qs \<and> sum_list (map tokens4 qs) < 2 ^ 63
          \<longrightarrow> e_sum_tokens g qs = Some (SqlInt (of_int (sum_list (map tokens4 qs)))))"

text \<open>An engine that has these properties: table order, instants, left-to-right sums.\<close>

definition plain_engine :: engine where
  "plain_engine = \<lparr>e_events = (\<lambda>xs. xs), e_machines = (\<lambda>xs. xs), e_roots = (\<lambda>xs. xs),
     e_keys = (\<lambda>xs. xs), e_lt = (\<lambda>a b. fst a < fst b),
     e_sum_cost = (\<lambda>cs. SqlReal (foldl f64_add 0 cs)),
     e_sum_tokens = (\<lambda>qs. Some (SqlInt (of_int (sum_list (map tokens4 qs)))))\<rparr>"

lemma plain_engine_ok: "engine_ok plain_engine"
  by (simp add: engine_ok_def plain_engine_def)

lemma engine_okD:
  assumes "engine_ok g"
  shows "mset (e_events g es) = mset es" "mset (e_machines g ms) = mset ms"
    "mset (e_roots g rs) = mset rs" "mset (e_keys g ks) = mset ks"
    "e_lt g (a, z) (b, z) \<longleftrightarrow> a < b"
  using assms by (simp_all add: engine_ok_def)

lemma engine_ok_sets:
  assumes "engine_ok g"
  shows "set (e_events g es) = set es" "set (e_machines g ms) = set ms"
    "set (e_roots g rs) = set rs" "set (e_keys g ks) = set ks"
  using engine_okD [OF assms] by (metis set_mset_mset)+

section \<open>Statements\<close>

definition stmt :: "(db, go_error, 'a) io \<Rightarrow> (db, go_error, 'a) io" where
  "stmt f s = (case faults s of
     [] \<Rightarrow> f s
   | True # bs \<Rightarrow> (Inl DriverErr, s\<lparr>faults := bs\<rparr>)
   | False # bs \<Rightarrow> f (s\<lparr>faults := bs\<rparr>))"

text \<open>A read: the value of an expression over the tables.\<close>

definition select :: "(db \<Rightarrow> 'a) \<Rightarrow> (db, go_error, 'a) io" where
  "select f = stmt (\<lambda>s. (Inr (f s), s))"

text \<open>Equality of two databases up to the script of failures.\<close>

definition same_tables :: "db \<Rightarrow> db \<Rightarrow> bool" where
  "same_tables s t \<longleftrightarrow> t = s\<lparr>faults := faults t\<rparr>"

lemma same_tables_refl [simp, intro]: "same_tables s s"
  by (simp add: same_tables_def)

lemma same_tables_iff: "same_tables s t \<longleftrightarrow> (\<exists>bs. t = s\<lparr>faults := bs\<rparr>)"
  by (cases s; cases t) (auto simp: same_tables_def)

lemma same_tables_trans: "same_tables a b \<Longrightarrow> same_tables b c \<Longrightarrow> same_tables a c"
  by (auto simp: same_tables_iff)

lemma same_tables_eq:
  assumes "same_tables s t"
  shows "usage_events t = usage_events s" "machines t = machines s" "scan_roots t = scan_roots s"
    "users t = users s" "api_keys t = api_keys s"
  by (subst assms [unfolded same_tables_def]; simp)+

lemma same_tables_faults [simp]: "same_tables s (s\<lparr>faults := bs\<rparr>)"
  by (simp add: same_tables_def)

lemma stmt_cases:
  assumes "stmt f s = (r, t)"
  obtains (fail) bs where "faults s = True # bs" "r = Inl DriverErr" "t = s\<lparr>faults := bs\<rparr>"
  | (ok) s' where "same_tables s s'" "faults s' = tl (faults s)" "f s' = (r, t)"
proof (cases "faults s")
  case Nil
  then show ?thesis using assms ok [of s] by (simp add: stmt_def)
next
  case (Cons b bs)
  then show ?thesis
    using assms fail [of bs] ok [of "s\<lparr>faults := bs\<rparr>"] by (cases b) (auto simp: stmt_def)
qed

lemma select_cases:
  assumes "select f s = (r, t)"
  obtains (fail) "same_tables s t" "r = Inl DriverErr"
  | (ok) "same_tables s t" "r = Inr (f t)"
  using assms unfolding select_def by (elim stmt_cases) auto

lemma select_same: "select f s = (r, t) \<Longrightarrow> same_tables s t"
  by (elim select_cases)

lemma stmt_no_faults [io_simps]: "faults s = [] \<Longrightarrow> stmt f s = f s"
  by (simp add: stmt_def)

lemma select_no_faults [io_simps]: "faults s = [] \<Longrightarrow> select f s = (Inr (f s), s)"
  by (simp add: select_def stmt_def)

section \<open>The invariant of the tables: unique keys\<close>

definition usage_db_ok :: "db \<Rightarrow> bool" where
  "usage_db_ok s \<longleftrightarrow> distinct (map ev_ID (usage_events s)) \<and> distinct (map mr_InstallID (machines s))
     \<and> distinct (map (\<lambda>r. (sr_InstallID r, sr_ScanRootPath r)) (scan_roots s))"

lemma usage_db_ok_same: "same_tables s t \<Longrightarrow> usage_db_ok t \<longleftrightarrow> usage_db_ok s"
  by (simp add: usage_db_ok_def same_tables_eq)

definition empty_db :: "bool list \<Rightarrow> db" where
  "empty_db fs = \<lparr>usage_events = [], machines = [], scan_roots = [], users = [], api_keys = [], faults = fs\<rparr>"

lemma usage_db_ok_empty [simp]: "usage_db_ok (empty_db fs)"
  by (simp add: usage_db_ok_def empty_db_def)

end
