(* ===== verification/Usage_Repo.thy ===== *)
theory Usage_Repo
  imports Database
begin

text \<open>
  src/internal/domain/usage/repo.go over the generated statements of src/internal/db: batch
  insertion in one transaction, the window query and its filters, the upserts of machines and scan
  roots, and the lists. The interface \<open>Repository\<close> is a record of functions, as a Go interface
  value is; \<open>Repo g\<close> is its implementation on the database.
\<close>

section \<open>Statements on usage_events, machines and scan_roots\<close>

text \<open>\<open>INSERT OR IGNORE\<close>; the result is the affected-row count.\<close>

definition db_InsertUsageEventIgnoreDuplicate :: "Event \<Rightarrow> (db, go_error, i64) io" where
  "db_InsertUsageEventIgnoreDuplicate e = stmt (\<lambda>s.
     if ev_ID e \<in> ev_ID ` set (usage_events s) then (Inr 0, s)
     else (Inr 1, s\<lparr>usage_events := usage_events s @ [e]\<rparr>))"

text \<open>The optional arguments of the window query: \<open>None\<close> is SQL NULL.\<close>

record WindowParams =
  p_RangeStart :: wtime
  p_RangeEnd :: wtime
  p_Machine :: "string option"
  p_ScanRootInstallID :: "string option"
  p_ScanRootPath :: "string option"

definition sql_optional :: "string option \<Rightarrow> string \<Rightarrow> bool" where
  "sql_optional p v = (case p of None \<Rightarrow> True | Some w \<Rightarrow> v = w)"

definition db_ListUsageEventsInWindow :: "engine \<Rightarrow> WindowParams \<Rightarrow> (db, go_error, Event list) io" where
  "db_ListUsageEventsInWindow g p = select (\<lambda>s. e_events g (filter (\<lambda>e.
     \<not> e_lt g (ev_CreatedAt e) (p_RangeStart p) \<and> e_lt g (ev_CreatedAt e) (p_RangeEnd p)
     \<and> sql_optional (p_Machine p) (ev_Machine e)
     \<and> sql_optional (p_ScanRootInstallID p) (ev_Machine e)
     \<and> sql_optional (p_ScanRootPath p) (ev_ScanRoot e)) (usage_events s)))"

text \<open>\<open>INSERT OR REPLACE\<close>: a row with the same primary key is deleted first.\<close>

definition db_UpsertMachine :: "MachineRow \<Rightarrow> (db, go_error, unit) io" where
  "db_UpsertMachine r = stmt (\<lambda>s. (Inr (), s\<lparr>machines :=
     filter (\<lambda>x. mr_InstallID x \<noteq> mr_InstallID r) (machines s) @ [r]\<rparr>))"

definition db_ListMachines :: "engine \<Rightarrow> (db, go_error, MachineRow list) io" where
  "db_ListMachines g = select (\<lambda>s. e_machines g (machines s))"

definition db_UpsertScanRoot :: "ScanRootRow \<Rightarrow> (db, go_error, unit) io" where
  "db_UpsertScanRoot r = stmt (\<lambda>s. (Inr (), s\<lparr>scan_roots :=
     filter (\<lambda>x. (sr_InstallID x, sr_ScanRootPath x) \<noteq> (sr_InstallID r, sr_ScanRootPath r))
       (scan_roots s) @ [r]\<rparr>))"

definition db_ListScanRoots :: "engine \<Rightarrow> (db, go_error, ScanRootRow list) io" where
  "db_ListScanRoots g = select (\<lambda>s. e_roots g (scan_roots s))"

text \<open>The aggregating query: one group per machine (its primary key is grouped by), the events of
  the machine joined in, \<open>COALESCE\<close> turning the NULL of an empty group into the integer 0.\<close>

record MachineSummaryRow =
  ms_InstallID :: string
  ms_Hostname :: string
  ms_LastSeenAt :: wtime
  ms_LifetimeCost :: sqlval
  ms_LifetimeTokens :: sqlval
  ms_CollectedPaths :: i64
  ms_CollectedActors :: i64

definition event_counters :: "Event \<Rightarrow> i64 \<times> i64 \<times> i64 \<times> i64" where
  "event_counters e = (ev_InputTokens e, ev_OutputTokens e, ev_CacheReadInputTokens e,
     ev_CacheCreationInputTokens e)"

definition summary_row :: "engine \<Rightarrow> Event list \<Rightarrow> MachineRow \<Rightarrow> MachineSummaryRow option" where
  "summary_row g evs r =
     (let us = filter (\<lambda>e. ev_Machine e = mr_InstallID r) (e_events g evs) in
      case (if us = [] then Some (SqlInt 0) else e_sum_tokens g (map event_counters us)) of
        None \<Rightarrow> None
      | Some toks \<Rightarrow> Some \<lparr>ms_InstallID = mr_InstallID r, ms_Hostname = mr_Hostname r,
          ms_LastSeenAt = mr_LastSeenAt r,
          ms_LifetimeCost = (if us = [] then SqlInt 0 else e_sum_cost g (map ev_Cost us)),
          ms_LifetimeTokens = toks,
          ms_CollectedPaths = of_nat (card (set (map ev_Path us))),
          ms_CollectedActors = of_nat (card (set (map ev_Actor us)))\<rparr>)"

fun all_rows :: "'a option list \<Rightarrow> 'a list option" where
  "all_rows [] = Some []"
| "all_rows (None # xs) = None"
| "all_rows (Some x # xs) = map_option ((#) x) (all_rows xs)"

definition db_ListMachineSummaries :: "engine \<Rightarrow> (db, go_error, MachineSummaryRow list) io" where
  "db_ListMachineSummaries g = stmt (\<lambda>s.
     case all_rows (map (summary_row g (usage_events s))
            (sort_stable (\<lambda>a b. e_lt g (mr_LastSeenAt b) (mr_LastSeenAt a)) (e_machines g (machines s)))) of
       None \<Rightarrow> (Inl DriverErr, s)
     | Some rows \<Rightarrow> (Inr rows, s))"

section \<open>Transactions\<close>

text \<open>Rolling back restores the tables of the start of the transaction; the failure script goes on.\<close>

definition restore :: "db \<Rightarrow> db \<Rightarrow> db" where
  "restore s0 s = s0\<lparr>faults := faults s\<rparr>"

fun insert_all :: "Event list \<Rightarrow> i64 \<Rightarrow> (db, go_error, i64) io" where
  "insert_all [] inserted s = (Inr inserted, s)"
| "insert_all (e # batch) inserted s =
     (case db_InsertUsageEventIgnoreDuplicate e s of
        (Inl err, t) \<Rightarrow> (Inl err, t)
      | (Inr rows, t) \<Rightarrow> insert_all batch (inserted + rows) t)"

text \<open>\<open>BeginTx\<close>, the inserts, then \<open>Commit\<close>; an insert that fails is followed by \<open>Rollback\<close>, whose
  own error wins. A commit that reports an error is taken to have stored nothing; one that was durable all
  the same, its answer lost, is not represented.\<close>

definition Repo_InsertBatch :: "Event list \<Rightarrow> (db, go_error, i64) io" where
  "Repo_InsertBatch batch s =
     (case stmt (\<lambda>s. (Inr (), s)) s of
        (Inl err, s0) \<Rightarrow> (Inl err, s0)
      | (Inr _, s0) \<Rightarrow>
          (case insert_all batch 0 s0 of
             (Inl err, t) \<Rightarrow>
               (case stmt (\<lambda>s. (Inr (), s)) t of
                  (Inl rbErr, t') \<Rightarrow> (Inl rbErr, restore s0 t')
                | (Inr _, t') \<Rightarrow> (Inl err, restore s0 t'))
           | (Inr inserted, t) \<Rightarrow>
               (case stmt (\<lambda>s. (Inr (), s)) t of
                  (Inl err, t') \<Rightarrow> (Inl err, restore s0 t')
                | (Inr _, t') \<Rightarrow> (Inr inserted, t'))))"

section \<open>The window query\<close>

record Filter =
  f_Machine :: string
  f_ScanRoot :: string

definition no_filter :: Filter where "no_filter = \<lparr>f_Machine = [], f_ScanRoot = []\<rparr>"

definition splitScanRootFilter :: "string \<Rightarrow> string \<times> string \<times> bool" where
  "splitScanRootFilter scanRoot = strings_Cut scanRoot (CHR '':'')"

definition nullableFilterArg :: "string \<Rightarrow> string option" where
  "nullableFilterArg v = (if v = [] then None else Some v)"

definition buildListEventsInWindowParams :: "wtime \<Rightarrow> wtime \<Rightarrow> Filter \<Rightarrow> WindowParams option" where
  "buildListEventsInWindowParams start end1 flt =
     (let params = \<lparr>p_RangeStart = start, p_RangeEnd = end1, p_Machine = nullableFilterArg (f_Machine flt),
                    p_ScanRootInstallID = None, p_ScanRootPath = None\<rparr> in
      if f_ScanRoot flt = [] then Some params
      else case splitScanRootFilter (f_ScanRoot flt) of
             (installID, path, ok) \<Rightarrow>
               if \<not> ok then None
               else Some (params\<lparr>p_ScanRootInstallID := Some installID, p_ScanRootPath := Some path\<rparr>))"

definition Repo_ListEventsInWindow :: "engine \<Rightarrow> wtime \<Rightarrow> wtime \<Rightarrow> Filter \<Rightarrow> (db, go_error, Event list) io" where
  "Repo_ListEventsInWindow g start end1 flt =
     (case buildListEventsInWindowParams start end1 flt of
        None \<Rightarrow> returnR []
      | Some params \<Rightarrow> db_ListUsageEventsInWindow g params)"

section \<open>Machines and scan roots\<close>

definition Repo_UpsertMachine :: "string \<Rightarrow> string \<Rightarrow> wtime \<Rightarrow> (db, go_error, unit) io" where
  "Repo_UpsertMachine installID hostname lastSeenAt =
     db_UpsertMachine \<lparr>mr_InstallID = installID, mr_Hostname = hostname, mr_LastSeenAt = lastSeenAt\<rparr>"

text \<open>The map built row by row: a later row of the same install wins.\<close>

definition hostname_map :: "MachineRow list \<Rightarrow> string \<Rightarrow> string option" where
  "hostname_map rows = foldl (\<lambda>out r. out(mr_InstallID r \<mapsto> mr_Hostname r)) (\<lambda>_. None) rows"

definition Repo_MachineHostnames :: "engine \<Rightarrow> (db, go_error, string \<Rightarrow> string option) io" where
  "Repo_MachineHostnames g = bindR (db_ListMachines g) (\<lambda>rows. returnR (hostname_map rows))"

definition Repo_UpsertScanRoot :: "string \<Rightarrow> string \<Rightarrow> string \<Rightarrow> string \<Rightarrow> wtime \<Rightarrow> (db, go_error, unit) io" where
  "Repo_UpsertScanRoot installID scanRootPath name sourceType lastSeenAt =
     db_UpsertScanRoot \<lparr>sr_InstallID = installID, sr_ScanRootPath = scanRootPath, sr_Name = name,
       sr_SourceType = sourceType, sr_LastSeenAt = lastSeenAt\<rparr>"

record ScanRootRecord =
  rec_InstallID :: string
  rec_ScanRootPath :: string
  rec_Name :: string
  rec_SourceType :: string

definition toScanRootRecord :: "ScanRootRow \<Rightarrow> ScanRootRecord" where
  "toScanRootRecord row = \<lparr>rec_InstallID = sr_InstallID row, rec_ScanRootPath = sr_ScanRootPath row,
     rec_Name = sr_Name row, rec_SourceType = sr_SourceType row\<rparr>"

definition Repo_ListScanRoots :: "engine \<Rightarrow> (db, go_error, ScanRootRecord list) io" where
  "Repo_ListScanRoots g = bindR (db_ListScanRoots g) (\<lambda>rows. returnR (map toScanRootRecord rows))"

text \<open>The two conversions of a dynamically typed number. Go leaves \<open>int64(x)\<close> of a double out of
  range to the implementation: \<open>conv\<close>; in range it truncates.\<close>

definition numericToFloat64 :: "sqlval \<Rightarrow> float64" where
  "numericToFloat64 v = (case v of SqlReal x \<Rightarrow> x | SqlInt n \<Rightarrow> f64_of_i64 n | SqlOther \<Rightarrow> 0)"

definition rat_trunc :: "rat \<Rightarrow> int" where
  "rat_trunc x = (if 0 \<le> x then \<lfloor>x\<rfloor> else - \<lfloor>- x\<rfloor>)"

definition numericToInt64 :: "(float64 \<Rightarrow> i64) \<Rightarrow> sqlval \<Rightarrow> i64" where
  "numericToInt64 conv v = (case v of
     SqlInt n \<Rightarrow> n
   | SqlReal x \<Rightarrow> if - (2 ^ 63) \<le> rat_trunc x \<and> rat_trunc x < 2 ^ 63 then of_int (rat_trunc x) else conv x
   | SqlOther \<Rightarrow> 0)"

record MachineSummary =
  sum_InstallID :: string
  sum_Hostname :: string
  sum_LastSeenAt :: wtime
  sum_LifetimeCost :: float64
  sum_LifetimeTokens :: i64
  sum_CollectedPaths :: i64
  sum_CollectedActors :: i64

definition toMachineSummary :: "(float64 \<Rightarrow> i64) \<Rightarrow> MachineSummaryRow \<Rightarrow> MachineSummary" where
  "toMachineSummary conv row = \<lparr>sum_InstallID = ms_InstallID row, sum_Hostname = ms_Hostname row,
     sum_LastSeenAt = ms_LastSeenAt row, sum_LifetimeCost = numericToFloat64 (ms_LifetimeCost row),
     sum_LifetimeTokens = numericToInt64 conv (ms_LifetimeTokens row),
     sum_CollectedPaths = ms_CollectedPaths row, sum_CollectedActors = ms_CollectedActors row\<rparr>"

definition Repo_ListMachineSummaries ::
    "engine \<Rightarrow> (float64 \<Rightarrow> i64) \<Rightarrow> (db, go_error, MachineSummary list) io" where
  "Repo_ListMachineSummaries g conv =
     bindR (db_ListMachineSummaries g) (\<lambda>rows. returnR (map (toMachineSummary conv) rows))"

section \<open>The interface\<close>

record 's Repository =
  InsertBatch :: "Event list \<Rightarrow> ('s, go_error, i64) io"
  ListEventsInWindow :: "wtime \<Rightarrow> wtime \<Rightarrow> Filter \<Rightarrow> ('s, go_error, Event list) io"
  UpsertMachine :: "string \<Rightarrow> string \<Rightarrow> wtime \<Rightarrow> ('s, go_error, unit) io"
  MachineHostnames :: "('s, go_error, string \<Rightarrow> string option) io"
  UpsertScanRoot :: "string \<Rightarrow> string \<Rightarrow> string \<Rightarrow> string \<Rightarrow> wtime \<Rightarrow> ('s, go_error, unit) io"
  ListScanRoots :: "('s, go_error, ScanRootRecord list) io"
  ListMachineSummaries :: "('s, go_error, MachineSummary list) io"

definition NewRepo :: "engine \<Rightarrow> (float64 \<Rightarrow> i64) \<Rightarrow> db Repository" where
  "NewRepo g conv = \<lparr>InsertBatch = Repo_InsertBatch, ListEventsInWindow = Repo_ListEventsInWindow g,
     UpsertMachine = Repo_UpsertMachine, MachineHostnames = Repo_MachineHostnames g,
     UpsertScanRoot = Repo_UpsertScanRoot, ListScanRoots = Repo_ListScanRoots g,
     ListMachineSummaries = Repo_ListMachineSummaries g conv\<rparr>"

section \<open>What a batch adds\<close>

text \<open>The events of a batch whose id neither is stored nor occurred earlier in the batch.\<close>

fun ingest_new :: "string set \<Rightarrow> Event list \<Rightarrow> Event list" where
  "ingest_new seen [] = []"
| "ingest_new seen (e # es) =
     (if ev_ID e \<in> seen then ingest_new seen es else e # ingest_new (insert (ev_ID e) seen) es)"

abbreviation event_ids :: "Event list \<Rightarrow> string set" where "event_ids es \<equiv> ev_ID ` set es"

lemma ingest_new_length: "length (ingest_new seen es) \<le> length es"
  by (induction es arbitrary: seen) (simp_all add: le_SucI)

lemma ingest_new_ids: "event_ids (ingest_new seen es) = event_ids es - seen"
  by (induction es arbitrary: seen) auto

lemma ingest_new_subset: "set (ingest_new seen es) \<subseteq> set es"
  by (induction es arbitrary: seen) auto

lemma ingest_new_distinct: "distinct (map ev_ID (ingest_new seen es))"
proof (induction es arbitrary: seen)
  case (Cons e es)
  then show ?case
    using ingest_new_ids [of "insert (ev_ID e) seen" es] by (auto simp: image_iff set_eq_iff)
qed simp

lemma ingest_new_known: "event_ids es \<subseteq> seen \<Longrightarrow> ingest_new seen es = []"
  by (induction es) auto

lemma ingest_new_fresh:
  "distinct (map ev_ID es) \<Longrightarrow> event_ids es \<inter> seen = {} \<Longrightarrow> ingest_new seen es = es"
  by (induction es arbitrary: seen) auto

section \<open>Running a batch\<close>

lemma insert_one:
  assumes "db_InsertUsageEventIgnoreDuplicate e s = (r, t)"
  obtains (fail) "same_tables s t" "r = Inl DriverErr"
  | (dup) "same_tables s t" "r = Inr 0" "ev_ID e \<in> event_ids (usage_events s)"
  | (fresh) s' where "same_tables s s'" "t = s'\<lparr>usage_events := usage_events s @ [e]\<rparr>" "r = Inr 1"
      "ev_ID e \<notin> event_ids (usage_events s)"
  using assms unfolding db_InsertUsageEventIgnoreDuplicate_def
proof (cases rule: stmt_cases)
  case (fail bs)
  then show ?thesis using that(1) by simp
next
  case (ok s')
  then show ?thesis using that(2) that(3) [of s'] by (auto simp: same_tables_eq split: if_splits)
qed

text \<open>Equality of databases up to events and failures.\<close>

definition same_but_events :: "db \<Rightarrow> db \<Rightarrow> bool" where
  "same_but_events s t \<longleftrightarrow> same_tables s (t\<lparr>usage_events := usage_events s\<rparr>)"

lemma same_but_eventsI [intro]: "same_tables s t \<Longrightarrow> same_but_events s t"
  by (cases s; cases t) (auto simp: same_but_events_def same_tables_def)

lemma same_but_events_trans: "same_but_events a b \<Longrightarrow> same_but_events b c \<Longrightarrow> same_but_events a c"
  by (cases a; cases b; cases c) (auto simp: same_but_events_def same_tables_def)

lemma same_but_events_upd: "same_tables s s' \<Longrightarrow> same_but_events s (s'\<lparr>usage_events := es\<rparr>)"
  by (cases s; cases s') (auto simp: same_but_events_def same_tables_def)

lemma same_but_events_eq [frame_simps]:
  assumes "same_but_events s t"
  shows "machines t = machines s" "scan_roots t = scan_roots s" "users t = users s" "api_keys t = api_keys s"
  using same_tables_eq [OF assms [unfolded same_but_events_def]] by simp_all

lemma insert_all_ok:
  assumes "insert_all batch n s = (Inr k, t)"
  shows "usage_events t = usage_events s @ ingest_new (event_ids (usage_events s)) batch
    \<and> k = n + of_nat (length (ingest_new (event_ids (usage_events s)) batch)) \<and> same_but_events s t"
  using assms
proof (induction batch arbitrary: n s)
  case Nil
  then show ?case by auto
next
  case (Cons e batch)
  obtain r u where ins: "db_InsertUsageEventIgnoreDuplicate e s = (r, u)" by fastforce
  then show ?case
  proof (cases rule: insert_one)
    case fail
    with Cons.prems ins show ?thesis by simp
  next
    case dup
    with Cons.prems ins have "insert_all batch n u = (Inr k, t)" by simp
    from Cons.IH [OF this] dup show ?thesis
      by (auto simp: same_tables_eq intro: same_but_events_trans)
  next
    case (fresh s')
    with Cons.prems ins have "insert_all batch (n + 1) u = (Inr k, t)" by simp
    from Cons.IH [OF this] fresh show ?thesis
      using same_but_events_upd [OF fresh(1)] by (auto intro: same_but_events_trans)
  qed
qed

lemma insert_all_no_faults: "faults s = [] \<Longrightarrow> \<exists>k t. insert_all batch n s = (Inr k, t) \<and> faults t = []"
proof (induction batch arbitrary: n s)
  case (Cons e batch)
  then show ?case
    by (simp add: db_InsertUsageEventIgnoreDuplicate_def io_simps split: if_split)
qed simp

text \<open>A batch is all or nothing.\<close>

lemma restore_same [simp]: "same_tables s s0 \<Longrightarrow> same_tables s (restore s0 t)"
  unfolding restore_def by (erule same_tables_trans) (rule same_tables_faults)

lemma Repo_InsertBatch_cases:
  assumes "Repo_InsertBatch batch s = (r, t)"
  obtains (err) e where "r = Inl e" "same_tables s t"
  | (ok) "r = Inr (of_nat (length (ingest_new (event_ids (usage_events s)) batch)))"
      "usage_events t = usage_events s @ ingest_new (event_ids (usage_events s)) batch"
      "same_but_events s t"
proof -
  obtain q s0 where b: "stmt (\<lambda>s. (Inr (), s)) s = (q, s0)" by fastforce
  then have s0: "same_tables s s0" by (cases rule: stmt_cases) simp_all
  show thesis
  proof (cases q)
    case (Inl e)
    with assms b have "r = Inl e" "t = s0" by (simp_all add: Repo_InsertBatch_def)
    with s0 show thesis by (intro err) simp_all
  next
    case (Inr u)
    obtain p u where i: "insert_all batch 0 s0 = (p, u)" by fastforce
    obtain q' v where c: "stmt (\<lambda>s. (Inr (), s)) u = (q', v)" by fastforce
    have v: "same_tables u v" using c by (cases rule: stmt_cases) simp_all
    show thesis
    proof (cases p)
      case (Inl e)
      with assms b i c Inr s0 show thesis
        using err by (cases q') (auto simp: Repo_InsertBatch_def)
    next
      case p: (Inr k)
      note io = insert_all_ok [OF i [unfolded p]]
      show thesis
      proof (cases q')
        case (Inl e)
        with assms b i c Inr p have "r = Inl e" "t = restore s0 v" by (simp_all add: Repo_InsertBatch_def)
        with s0 show thesis by (intro err) simp_all
      next
        case q': (Inr w)
        with assms b i c Inr p have "r = Inr k" "t = v" by (simp_all add: Repo_InsertBatch_def)
        moreover have "same_but_events s v"
          using io s0 v by (meson same_but_eventsI same_but_events_trans)
        ultimately show thesis using io v s0 by (intro ok) (simp_all add: same_tables_eq)
      qed
    qed
  qed
qed

lemma Repo_InsertBatch_no_faults:
  assumes "faults s = []"
  obtains k t where "Repo_InsertBatch batch s = (Inr k, t)" "faults t = []"
proof -
  obtain k t where "insert_all batch 0 s = (Inr k, t)" "faults t = []"
    using insert_all_no_faults [OF assms] by blast
  then have "Repo_InsertBatch batch s = (Inr k, t)"
    using assms by (simp add: Repo_InsertBatch_def io_simps)
  from that [OF this \<open>faults t = []\<close>] show thesis .
qed

section \<open>The window query\<close>

text \<open>What the query selects, stated on the filter of the request: the half-open window, the
  machine if one is named, and the two halves of the composite scan root if one is named.\<close>

definition selected :: "(wtime \<Rightarrow> wtime \<Rightarrow> bool) \<Rightarrow> wtime \<Rightarrow> wtime \<Rightarrow> Filter \<Rightarrow> Event \<Rightarrow> bool" where
  "selected lt start end1 flt e \<longleftrightarrow>
     \<not> lt (ev_CreatedAt e) start \<and> lt (ev_CreatedAt e) end1
     \<and> (f_Machine flt = [] \<or> ev_Machine e = f_Machine flt)
     \<and> (f_ScanRoot flt = []
        \<or> (CHR '':'' \<notin> set (ev_Machine e) \<and> ev_Machine e @ CHR '':'' # ev_ScanRoot e = f_ScanRoot flt))"

lemma Cut_eq_iff:
  "strings_Cut s sep = (a, b, True) \<longleftrightarrow> s = a @ sep # b \<and> sep \<notin> set a"
  using Cut_found Cut_append by metis

lemma build_params_selected:
  "(case buildListEventsInWindowParams a z flt of
      None \<Rightarrow> False
    | Some p \<Rightarrow> \<not> lt (ev_CreatedAt e) (p_RangeStart p) \<and> lt (ev_CreatedAt e) (p_RangeEnd p)
        \<and> sql_optional (p_Machine p) (ev_Machine e)
        \<and> sql_optional (p_ScanRootInstallID p) (ev_Machine e)
        \<and> sql_optional (p_ScanRootPath p) (ev_ScanRoot e)) \<longleftrightarrow> selected lt a z flt e"
proof -
  have m: "sql_optional (nullableFilterArg v) w \<longleftrightarrow> v = [] \<or> w = v" for v w
    by (simp add: nullableFilterArg_def sql_optional_def)
  obtain i p ok where cut: "strings_Cut (f_ScanRoot flt) (CHR '':'') = (i, p, ok)" by (metis prod_cases3)
  show ?thesis
  proof (cases "f_ScanRoot flt = []")
    case True
    then show ?thesis by (simp add: buildListEventsInWindowParams_def selected_def m) (simp add: sql_optional_def)
  next
    case nonempty: False
    show ?thesis
    proof (cases ok)
      case True
      with cut have split: "f_ScanRoot flt = i @ CHR '':'' # p" "CHR '':'' \<notin> set i" by (auto dest: Cut_found)
      have "CHR '':'' \<notin> set (ev_Machine e) \<and> ev_Machine e @ CHR '':'' # ev_ScanRoot e = f_ScanRoot flt
          \<longleftrightarrow> ev_Machine e = i \<and> ev_ScanRoot e = p"
        using split join_sep_inj [of "CHR '':''" "ev_Machine e" i "ev_ScanRoot e" p] by auto
      with nonempty cut True show ?thesis
        by (simp add: buildListEventsInWindowParams_def selected_def splitScanRootFilter_def m)
          (auto simp: sql_optional_def)
    next
      case False
      with cut have "CHR '':'' \<notin> set (f_ScanRoot flt)" by (auto dest: Cut_not_found)
      then have "ev_Machine e @ CHR '':'' # ev_ScanRoot e \<noteq> f_ScanRoot flt" by (metis in_set_conv_decomp)
      with nonempty cut False show ?thesis
        by (simp add: buildListEventsInWindowParams_def selected_def splitScanRootFilter_def)
    qed
  qed
qed

lemma Repo_ListEventsInWindow_cases:
  assumes "Repo_ListEventsInWindow g a z flt s = (r, t)"
  obtains (err) "r = Inl DriverErr" "same_tables s t"
  | (ok) es where "r = Inr es" "same_tables s t"
      "engine_ok g \<Longrightarrow> mset es = mset (filter (selected (e_lt g) a z flt) (usage_events s))"
proof (cases "buildListEventsInWindowParams a z flt")
  case None
  then have "\<not> selected (e_lt g) a z flt e" for e
    using build_params_selected [of "e_lt g" e a z flt] by simp
  then have "filter (selected (e_lt g) a z flt) (usage_events s) = []" by (simp add: filter_False)
  with None assms show thesis
    by (intro ok [of "[]"]) (auto simp: Repo_ListEventsInWindow_def)
next
  case (Some p)
  then have eq: "(\<lambda>e. \<not> e_lt g (ev_CreatedAt e) (p_RangeStart p) \<and> e_lt g (ev_CreatedAt e) (p_RangeEnd p)
        \<and> sql_optional (p_Machine p) (ev_Machine e)
        \<and> sql_optional (p_ScanRootInstallID p) (ev_Machine e)
        \<and> sql_optional (p_ScanRootPath p) (ev_ScanRoot e)) = selected (e_lt g) a z flt"
    using build_params_selected [of "e_lt g" _ a z flt] by (intro ext) simp
  have run: "select (\<lambda>s. e_events g (filter (selected (e_lt g) a z flt) (usage_events s))) s = (r, t)"
    using assms Some by (simp add: Repo_ListEventsInWindow_def db_ListUsageEventsInWindow_def eq)
  then show thesis
  proof (cases rule: select_cases)
    case fail
    then show thesis by (intro err) simp_all
  next
    case select_ok: ok
    then show thesis by (intro ok) (auto simp: engine_okD same_tables_eq)
  qed
qed

lemma Repo_ListEventsInWindow_no_faults:
  "faults s = [] \<Longrightarrow> \<exists>es. Repo_ListEventsInWindow g a z flt s = (Inr es, s)"
  by (cases "buildListEventsInWindowParams a z flt")
    (simp_all add: Repo_ListEventsInWindow_def db_ListUsageEventsInWindow_def io_simps)

section \<open>Machines\<close>

definition machine_hosts :: "db \<Rightarrow> string \<Rightarrow> string option" where
  "machine_hosts s = map_of (map (\<lambda>r. (mr_InstallID r, mr_Hostname r)) (machines s))"

lemma foldl_map_upd: "foldl (\<lambda>out r. out(k r \<mapsto> v r)) m rows = m ++ map_of (rev (map (\<lambda>r. (k r, v r)) rows))"
proof (induction rows arbitrary: m)
  case (Cons r rows)
  show ?case
    by (simp only: foldl.simps Cons.IH) (rule ext, simp add: map_add_def split: option.splits)
qed simp

lemma map_of_perm:
  assumes "mset xs = mset ys" "distinct (map fst ys)"
  shows "map_of xs = map_of ys"
proof -
  have "distinct (map fst xs)" using assms by (metis mset_eq_imp_distinct_iff mset_map)
  moreover have "set xs = set ys" using assms(1) by (metis set_mset_mset)
  ultimately show ?thesis using assms(2) map_of_inject_set by blast
qed

lemma hostname_map_eq:
  assumes "mset rows = mset (machines s)" "usage_db_ok s"
  shows "hostname_map rows = machine_hosts s"
proof -
  let ?p = "\<lambda>r. (mr_InstallID r, mr_Hostname r)"
  have "hostname_map rows = map_of (rev (map ?p rows))"
    by (simp add: hostname_map_def foldl_map_upd flip: empty_def)
  also have "\<dots> = map_of (map ?p (machines s))"
  proof (rule map_of_perm)
    show "mset (rev (map ?p rows)) = mset (map ?p (machines s))" using assms(1) by simp
    show "distinct (map fst (map ?p (machines s)))"
      using assms(2) by (simp add: usage_db_ok_def comp_def)
  qed
  finally show ?thesis by (simp add: machine_hosts_def)
qed

lemma Repo_MachineHostnames_cases:
  assumes "Repo_MachineHostnames g s = (r, t)"
  obtains (err) "r = Inl DriverErr" "same_tables s t"
  | (ok) h where "r = Inr h" "same_tables s t" "engine_ok g \<Longrightarrow> usage_db_ok s \<Longrightarrow> h = machine_hosts s"
proof -
  obtain q u where q: "db_ListMachines g s = (q, u)" by fastforce
  then have "select (\<lambda>s. e_machines g (machines s)) s = (q, u)" by (simp add: db_ListMachines_def)
  then show thesis
  proof (cases rule: select_cases)
    case fail
    with q assms show thesis by (intro err) (simp_all add: Repo_MachineHostnames_def bindR_def)
  next
    case select_ok: ok
    have "hostname_map (e_machines g (machines u)) = machine_hosts s" if "engine_ok g" "usage_db_ok s"
      using hostname_map_eq [OF engine_okD(2) [OF that(1)]] that(2) select_ok(1)
      by (simp add: same_tables_eq)
    moreover have "r = Inr (hostname_map (e_machines g (machines u)))" "same_tables s t"
      using q assms select_ok by (auto simp: Repo_MachineHostnames_def bindR_def)
    ultimately show thesis by (intro ok)
  qed
qed

lemma Repo_MachineHostnames_no_faults:
  "faults s = [] \<Longrightarrow> \<exists>h. Repo_MachineHostnames g s = (Inr h, s)"
  by (simp add: Repo_MachineHostnames_def db_ListMachines_def io_simps bindR_def)

lemma Repo_UpsertMachine_cases:
  assumes "Repo_UpsertMachine i h now s = (r, t)"
  obtains (err) "r = Inl DriverErr" "same_tables s t"
  | (ok) s' where "r = Inr ()" "same_tables s s'"
      "t = s'\<lparr>machines := filter (\<lambda>x. mr_InstallID x \<noteq> i) (machines s)
             @ [\<lparr>mr_InstallID = i, mr_Hostname = h, mr_LastSeenAt = now\<rparr>]\<rparr>"
  using assms unfolding Repo_UpsertMachine_def db_UpsertMachine_def
proof (cases rule: stmt_cases)
  case (fail bs)
  then show ?thesis by (intro that(1)) simp_all
next
  case (ok s')
  then show ?thesis by (intro that(2) [of s']) (simp_all add: same_tables_eq)
qed

lemma machine_hosts_upsert:
  assumes "machines t = filter (\<lambda>x. mr_InstallID x \<noteq> i) (machines s)
             @ [\<lparr>mr_InstallID = i, mr_Hostname = h, mr_LastSeenAt = now\<rparr>]"
  shows "machine_hosts t = (machine_hosts s)(i \<mapsto> h)"
proof -
  have flt: "map_of (map (\<lambda>r. (mr_InstallID r, mr_Hostname r)) (filter (\<lambda>x. mr_InstallID x \<noteq> i) ms)) k
      = (if k = i then None else map_of (map (\<lambda>r. (mr_InstallID r, mr_Hostname r)) ms) k)"
    for ms :: "MachineRow list" and k
    by (induction ms) auto
  show ?thesis
    by (rule ext) (simp add: machine_hosts_def assms map_add_def flt split: option.splits)
qed

lemma machine_hosts_same: "same_tables s t \<Longrightarrow> machine_hosts t = machine_hosts s"
  by (simp add: machine_hosts_def same_tables_eq)

section \<open>Scan roots\<close>

definition scan_root_records :: "db \<Rightarrow> ScanRootRecord list" where
  "scan_root_records s = map toScanRootRecord (scan_roots s)"

lemma Repo_UpsertScanRoot_cases:
  assumes "Repo_UpsertScanRoot i p n ty now s = (r, t)"
  obtains (err) "r = Inl DriverErr" "same_tables s t"
  | (ok) s' where "r = Inr ()" "same_tables s s'"
      "t = s'\<lparr>scan_roots := filter (\<lambda>x. (sr_InstallID x, sr_ScanRootPath x) \<noteq> (i, p)) (scan_roots s)
        @ [\<lparr>sr_InstallID = i, sr_ScanRootPath = p, sr_Name = n, sr_SourceType = ty, sr_LastSeenAt = now\<rparr>]\<rparr>"
  using assms unfolding Repo_UpsertScanRoot_def db_UpsertScanRoot_def
proof (cases rule: stmt_cases)
  case (fail bs)
  then show ?thesis by (intro that(1)) simp_all
next
  case (ok s')
  then show ?thesis by (intro that(2) [of s']) (simp_all add: same_tables_eq)
qed

lemma Repo_ListScanRoots_cases:
  assumes "Repo_ListScanRoots g s = (r, t)"
  obtains (err) "r = Inl DriverErr" "same_tables s t"
  | (ok) rs where "r = Inr rs" "same_tables s t" "engine_ok g \<Longrightarrow> mset rs = mset (scan_root_records s)"
proof -
  obtain q u where q: "db_ListScanRoots g s = (q, u)" by fastforce
  then have "select (\<lambda>s. e_roots g (scan_roots s)) s = (q, u)" by (simp add: db_ListScanRoots_def)
  then show thesis
  proof (cases rule: select_cases)
    case fail
    with q assms show thesis by (intro err) (simp_all add: Repo_ListScanRoots_def bindR_def)
  next
    case select_ok: ok
    have "mset (map toScanRootRecord (e_roots g (scan_roots u))) = mset (scan_root_records s)"
      if "engine_ok g"
      using engine_okD(3) [OF that] select_ok(1) by (simp add: scan_root_records_def same_tables_eq)
    moreover have "r = Inr (map toScanRootRecord (e_roots g (scan_roots u)))" "same_tables s t"
      using q assms select_ok by (auto simp: Repo_ListScanRoots_def bindR_def)
    ultimately show thesis by (intro ok)
  qed
qed

section \<open>The invariant of the tables\<close>

lemma usage_db_ok_events:
  assumes "usage_db_ok s" "same_but_events s t"
    "usage_events t = usage_events s @ ingest_new (event_ids (usage_events s)) batch"
  shows "usage_db_ok t"
proof -
  have "distinct (map ev_ID (usage_events t))"
    using assms(1,3) ingest_new_distinct ingest_new_ids [of "event_ids (usage_events s)" batch]
    by (auto simp: usage_db_ok_def)
  with assms show ?thesis by (simp add: usage_db_ok_def frame_simps)
qed

lemma Repo_InsertBatch_inv: "Repo_InsertBatch batch s = (r, t) \<Longrightarrow> usage_db_ok s \<Longrightarrow> usage_db_ok t"
  by (elim Repo_InsertBatch_cases) (auto simp: usage_db_ok_same intro: usage_db_ok_events)

lemma Repo_UpsertMachine_inv:
  "Repo_UpsertMachine i h now s = (r, t) \<Longrightarrow> usage_db_ok s \<Longrightarrow> usage_db_ok t"
  by (elim Repo_UpsertMachine_cases)
    (auto simp: usage_db_ok_same usage_db_ok_def same_tables_eq distinct_map_filter)

lemma Repo_UpsertScanRoot_inv:
  "Repo_UpsertScanRoot i p n ty now s = (r, t) \<Longrightarrow> usage_db_ok s \<Longrightarrow> usage_db_ok t"
  by (elim Repo_UpsertScanRoot_cases)
    (auto simp: usage_db_ok_same usage_db_ok_def same_tables_eq distinct_map_filter)

section \<open>The contract of the interface\<close>

text \<open>
  What \<open>Service\<close> may rely on. \<open>evs\<close>, \<open>hosts\<close> and \<open>roots\<close> observe the store; \<open>same\<close> relates two
  states the interface cannot tell apart; \<open>inv\<close> is the invariant every operation keeps.
\<close>

locale usage_repository =
  fixes repo :: "'s Repository"
    and evs :: "'s \<Rightarrow> Event list" and hosts :: "'s \<Rightarrow> string \<Rightarrow> string option"
    and roots :: "'s \<Rightarrow> ScanRootRecord list"
    and inv :: "'s \<Rightarrow> bool" and same :: "'s \<Rightarrow> 's \<Rightarrow> bool" and lt :: "wtime \<Rightarrow> wtime \<Rightarrow> bool"
  assumes same_obs: "same s t \<Longrightarrow> evs t = evs s \<and> hosts t = hosts s \<and> roots t = roots s \<and> (inv s \<longrightarrow> inv t)"
    and same_trans: "same s t \<Longrightarrow> same t u \<Longrightarrow> same s u"
    and same_refl: "same s s"
    and insert_err: "InsertBatch repo b s = (Inl e, t) \<Longrightarrow> same s t"
    and insert_ok: "InsertBatch repo b s = (Inr k, t) \<Longrightarrow> inv s \<Longrightarrow>
      inv t \<and> evs t = evs s @ ingest_new (event_ids (evs s)) b
      \<and> k = of_nat (length (ingest_new (event_ids (evs s)) b)) \<and> hosts t = hosts s \<and> roots t = roots s"
    and list_same: "ListEventsInWindow repo a z flt s = (r, t) \<Longrightarrow> same s t"
    and list_ok: "ListEventsInWindow repo a z flt s = (Inr es, t) \<Longrightarrow> inv s \<Longrightarrow>
      mset es = mset (filter (selected lt a z flt) (evs s))"
    and hosts_same: "MachineHostnames repo s = (q, t) \<Longrightarrow> same s t"
    and hosts_ok: "MachineHostnames repo s = (Inr h, t) \<Longrightarrow> inv s \<Longrightarrow> h = hosts s"
    and machine_err: "UpsertMachine repo i hn now s = (Inl e, t) \<Longrightarrow> same s t"
    and machine_ok: "UpsertMachine repo i hn now s = (Inr (), t) \<Longrightarrow> inv s \<Longrightarrow>
      inv t \<and> evs t = evs s \<and> hosts t = (hosts s)(i \<mapsto> hn) \<and> roots t = roots s"
    and root_err: "UpsertScanRoot repo i p n ty now s = (Inl e, t) \<Longrightarrow> same s t"
    and root_ok: "UpsertScanRoot repo i p n ty now s = (Inr (), t) \<Longrightarrow> inv s \<Longrightarrow>
      inv t \<and> evs t = evs s \<and> hosts t = hosts s
      \<and> roots t = filter (\<lambda>x. (rec_InstallID x, rec_ScanRootPath x) \<noteq> (i, p)) (roots s)
          @ [\<lparr>rec_InstallID = i, rec_ScanRootPath = p, rec_Name = n, rec_SourceType = ty\<rparr>]"
    and roots_same: "ListScanRoots repo s = (w, t) \<Longrightarrow> same s t"
    and roots_ok: "ListScanRoots repo s = (Inr rs, t) \<Longrightarrow> inv s \<Longrightarrow> mset rs = mset (roots s)"

definition repo_inv :: "engine \<Rightarrow> db \<Rightarrow> bool" where
  "repo_inv g s \<longleftrightarrow> engine_ok g \<and> usage_db_ok s"

lemma scan_root_records_upsert:
  "map toScanRootRecord (filter (\<lambda>x. (sr_InstallID x, sr_ScanRootPath x) \<noteq> k) rs)
   = filter (\<lambda>x. (rec_InstallID x, rec_ScanRootPath x) \<noteq> k) (map toScanRootRecord rs)"
  by (induction rs) (auto simp: toScanRootRecord_def)

interpretation repo: usage_repository "NewRepo g conv" usage_events machine_hosts scan_root_records
    "repo_inv g" same_tables "e_lt g" for g conv
proof (unfold_locales, goal_cases)
  case (1 s t)
  then show ?case
    by (simp add: same_tables_eq machine_hosts_same scan_root_records_def repo_inv_def usage_db_ok_same)
next
  case (2 s t u)
  then show ?case by (rule same_tables_trans)
next
  case (4 b s e t)
  then show ?case by (simp add: NewRepo_def) (elim Repo_InsertBatch_cases; simp)
next
  case (5 b s k t)
  then have run: "Repo_InsertBatch b s = (Inr k, t)" by (simp add: NewRepo_def)
  show ?case
    using Repo_InsertBatch_inv [OF run] 5(2) run
    by (elim Repo_InsertBatch_cases)
      (auto simp: repo_inv_def frame_simps machine_hosts_def scan_root_records_def)
next
  case (6 a z flt s r t)
  then show ?case by (simp add: NewRepo_def) (elim Repo_ListEventsInWindow_cases; simp)
next
  case (7 a z flt s es t)
  then show ?case by (simp add: NewRepo_def repo_inv_def) (elim Repo_ListEventsInWindow_cases; simp)
next
  case (8 s r t)
  then show ?case by (simp add: NewRepo_def) (elim Repo_MachineHostnames_cases; simp)
next
  case (9 s h t)
  then show ?case by (simp add: NewRepo_def repo_inv_def) (elim Repo_MachineHostnames_cases; simp)
next
  case (10 i hn now s e t)
  then show ?case by (simp add: NewRepo_def) (elim Repo_UpsertMachine_cases; simp)
next
  case (11 i hn now s t)
  then have run: "Repo_UpsertMachine i hn now s = (Inr (), t)" by (simp add: NewRepo_def)
  show ?case
    using Repo_UpsertMachine_inv [OF run] 11(2) run
    by (elim Repo_UpsertMachine_cases)
      (auto simp: repo_inv_def same_tables_eq scan_root_records_def machine_hosts_upsert)
next
  case (12 i p n ty now s e t)
  then show ?case by (simp add: NewRepo_def) (elim Repo_UpsertScanRoot_cases; simp)
next
  case (13 i p n ty now s t)
  then have run: "Repo_UpsertScanRoot i p n ty now s = (Inr (), t)" by (simp add: NewRepo_def)
  have one: "toScanRootRecord \<lparr>sr_InstallID = i, sr_ScanRootPath = p, sr_Name = n, sr_SourceType = ty,
      sr_LastSeenAt = now\<rparr> = \<lparr>rec_InstallID = i, rec_ScanRootPath = p, rec_Name = n, rec_SourceType = ty\<rparr>"
    by (simp add: toScanRootRecord_def)
  show ?case
    using run
  proof (cases rule: Repo_UpsertScanRoot_cases)
    case (ok s')
    then show ?thesis
      using Repo_UpsertScanRoot_inv [OF run] 13(2)
      by (simp add: repo_inv_def same_tables_eq machine_hosts_def scan_root_records_def
          scan_root_records_upsert one del: prod.inject)
  qed simp
next
  case (14 s r t)
  then show ?case by (simp add: NewRepo_def) (elim Repo_ListScanRoots_cases; simp)
next
  case (15 s rs t)
  then show ?case by (simp add: NewRepo_def repo_inv_def) (elim Repo_ListScanRoots_cases; simp)
qed simp

section \<open>Machine summaries\<close>

lemma all_rows_Some: "all_rows xs = Some ys \<longleftrightarrow> xs = map Some ys"
proof (induction xs arbitrary: ys)
  case (Cons x xs)
  then show ?case by (cases x; cases ys) auto
qed auto

lemma last_seen_sorted:
  assumes "engine_ok g" "\<forall>m \<in> set ms. snd (mr_LastSeenAt m) = z"
  shows "sorted_wrt (\<lambda>a b. fst (mr_LastSeenAt b) \<le> fst (mr_LastSeenAt a))
    (sort_stable (\<lambda>a b. e_lt g (mr_LastSeenAt b) (mr_LastSeenAt a)) ms)"
proof -
  have "e_lt g (mr_LastSeenAt b) (mr_LastSeenAt a) = (fst (mr_LastSeenAt b) < fst (mr_LastSeenAt a))"
    if "a \<in> set ms" "b \<in> set ms" for a b
    using engine_okD(5) [OF assms(1), of "fst (mr_LastSeenAt b)" z "fst (mr_LastSeenAt a)"] assms(2) that
    by (metis prod.collapse)
  then have "sort_stable (\<lambda>a b. e_lt g (mr_LastSeenAt b) (mr_LastSeenAt a)) ms
      = sort_stable (\<lambda>a b. fst (mr_LastSeenAt b) < fst (mr_LastSeenAt a)) ms"
    by (intro sort_stable_cong) simp
  moreover have "sorted_wrt (\<lambda>a b. \<not> fst (mr_LastSeenAt a) < fst (mr_LastSeenAt b))
      (sort_stable (\<lambda>a b. fst (mr_LastSeenAt b) < fst (mr_LastSeenAt a)) ms)"
    by (rule sorted_sort_stable) simp_all
  ultimately show ?thesis by (simp add: not_less)
qed

text \<open>The events of a machine, as a sum of its counters in exact arithmetic.\<close>

definition machine_events :: "string \<Rightarrow> db \<Rightarrow> Event list" where
  "machine_events i s = filter (\<lambda>e. ev_Machine e = i) (usage_events s)"

definition lifetime_tokens :: "string \<Rightarrow> db \<Rightarrow> int" where
  "lifetime_tokens i s = sum_list (map (\<lambda>e. tokens4 (event_counters e)) (machine_events i s))"

text \<open>What SUM gives for the costs of some events, in whatever order it visits them, as a double.\<close>

definition cost_of_events :: "engine \<Rightarrow> Event list \<Rightarrow> float64 \<Rightarrow> bool" where
  "cost_of_events g evs x \<longleftrightarrow> (\<exists>us. mset us = mset evs
     \<and> x = (if us = [] then 0 else case e_sum_cost g (map ev_Cost us) of
         SqlReal y \<Rightarrow> y | SqlInt n \<Rightarrow> f64_of_i64 n | SqlOther \<Rightarrow> 0))"

lemma summary_row_fields:
  assumes g: "engine_ok g" and row: "summary_row g (usage_events s) m = Some r"
    and nn: "\<forall>e \<in> set (usage_events s). nonneg4 (event_counters e)"
    and small: "lifetime_tokens (mr_InstallID m) s < 2 ^ 63"
  shows "ms_InstallID r = mr_InstallID m \<and> ms_Hostname r = mr_Hostname m \<and> ms_LastSeenAt r = mr_LastSeenAt m
    \<and> cost_of_events g (machine_events (mr_InstallID m) s) (numericToFloat64 (ms_LifetimeCost r))
    \<and> ms_LifetimeTokens r = SqlInt (of_int (lifetime_tokens (mr_InstallID m) s))
    \<and> ms_CollectedPaths r = of_nat (card (ev_Path ` set (machine_events (mr_InstallID m) s)))
    \<and> ms_CollectedActors r = of_nat (card (ev_Actor ` set (machine_events (mr_InstallID m) s)))"
proof -
  define us where "us = filter (\<lambda>e. ev_Machine e = mr_InstallID m) (e_events g (usage_events s))"
  have m: "mset us = mset (machine_events (mr_InstallID m) s)"
    by (simp add: us_def machine_events_def engine_okD(1) [OF g])
  then have st: "set us = set (machine_events (mr_InstallID m) s)" by (metis set_mset_mset)
  have tot: "sum_list (map tokens4 (map event_counters us)) = lifetime_tokens (mr_InstallID m) s"
    using m unfolding lifetime_tokens_def by (simp only: map_map comp_def) (metis mset_map sum_mset_sum_list)
  have "list_all nonneg4 (map event_counters us)"
    using nn st by (auto simp: list_all_iff machine_events_def)
  then have "e_sum_tokens g (map event_counters us) = Some (SqlInt (of_int (lifetime_tokens (mr_InstallID m) s)))"
    using g small tot unfolding engine_ok_def by metis
  moreover have "us = [] \<Longrightarrow> lifetime_tokens (mr_InstallID m) s = 0" using tot by simp
  ultimately have fields: "ms_InstallID r = mr_InstallID m" "ms_Hostname r = mr_Hostname m" "ms_LastSeenAt r = mr_LastSeenAt m"
    "ms_LifetimeTokens r = SqlInt (of_int (lifetime_tokens (mr_InstallID m) s))"
    "ms_CollectedPaths r = of_nat (card (ev_Path ` set (machine_events (mr_InstallID m) s)))"
    "ms_CollectedActors r = of_nat (card (ev_Actor ` set (machine_events (mr_InstallID m) s)))"
    "ms_LifetimeCost r = (if us = [] then SqlInt 0 else e_sum_cost g (map ev_Cost us))"
    using row st by (auto simp: summary_row_def us_def [symmetric] Let_def split: if_splits)
  have "numericToFloat64 (SqlInt 0) = 0" by (simp add: numericToFloat64_def f64_of_i64_def fl64_def)
  then have "cost_of_events g (machine_events (mr_InstallID m) s) (numericToFloat64 (ms_LifetimeCost r))"
    unfolding cost_of_events_def fields(7) by (intro exI [of _ us]) (simp add: m numericToFloat64_def)
  with fields show ?thesis by blast
qed

text \<open>
  C25. The machines page lists each registered machine once, most recently seen first, with its hostname,
  the cost the engine sums over the costs of exactly its events, the exact total of their tokens, and
  how many distinct paths and actors they have; a machine with no events is listed with zeros. (No
  counter is negative, no machine has 2^63 tokens or more, and the times a machine was seen are of one
  zone, that of the server's clock.)
\<close>

theorem machine_summaries_correct:
  assumes "ListMachineSummaries (NewRepo g conv) s = (Inr rows, t)" "engine_ok g"
    and "\<forall>e \<in> set (usage_events s). nonneg4 (event_counters e)"
    and "\<forall>m \<in> set (machines s). lifetime_tokens (mr_InstallID m) s < 2 ^ 63"
    and "\<forall>m \<in> set (machines s). snd (mr_LastSeenAt m) = z"
  shows "mset (map sum_InstallID rows) = mset (map mr_InstallID (machines s))
    \<and> sorted_wrt (\<lambda>a b. fst (sum_LastSeenAt b) \<le> fst (sum_LastSeenAt a)) rows
    \<and> (\<forall>r \<in> set rows. \<exists>m \<in> set (machines s).
         sum_InstallID r = mr_InstallID m \<and> sum_Hostname r = mr_Hostname m
         \<and> sum_LastSeenAt r = mr_LastSeenAt m
         \<and> cost_of_events g (machine_events (mr_InstallID m) s) (sum_LifetimeCost r)
         \<and> sum_LifetimeTokens r = of_int (lifetime_tokens (mr_InstallID m) s)
         \<and> sum_CollectedPaths r = of_nat (card (ev_Path ` set (machine_events (mr_InstallID m) s)))
         \<and> sum_CollectedActors r = of_nat (card (ev_Actor ` set (machine_events (mr_InstallID m) s))))"
proof -
  let ?ord = "\<lambda>u. sort_stable (\<lambda>a b. e_lt g (mr_LastSeenAt b) (mr_LastSeenAt a)) (e_machines g (machines u))"
  obtain rs where db: "db_ListMachineSummaries g s = (Inr rs, t)" and rows: "rows = map (toMachineSummary conv) rs"
    using assms(1) by (auto simp: NewRepo_def Repo_ListMachineSummaries_def elim!: bindR_okE)
  then obtain u where su: "same_tables s u" and "all_rows (map (summary_row g (usage_events u)) (?ord u)) = Some rs"
    unfolding db_ListMachineSummaries_def by (elim stmt_cases) (auto split: option.splits)
  then have rs: "map (summary_row g (usage_events s)) (?ord s) = map Some rs"
    by (simp add: all_rows_Some same_tables_eq)
  have ms: "mset (?ord s) = mset (machines s)" by (simp add: engine_okD [OF assms(2)])
  then have mset_eq: "set (?ord s) = set (machines s)" by (metis set_mset_mset)
  have sorted: "sorted_wrt (\<lambda>a b. fst (mr_LastSeenAt b) \<le> fst (mr_LastSeenAt a)) (?ord s)"
    using assms(2,5) engine_ok_sets [OF assms(2)] by (intro last_seen_sorted) auto
  have "list_all2 (\<lambda>m r. m \<in> set (machines s) \<and> summary_row g (usage_events s) m = Some r) (?ord s) rs"
    using map_Some_rel [OF rs] unfolding mset_eq .
  then have rel: "list_all2 (\<lambda>m r. m \<in> set (machines s)
      \<and> sum_InstallID r = mr_InstallID m \<and> sum_Hostname r = mr_Hostname m \<and> sum_LastSeenAt r = mr_LastSeenAt m
      \<and> cost_of_events g (machine_events (mr_InstallID m) s) (sum_LifetimeCost r)
      \<and> sum_LifetimeTokens r = of_int (lifetime_tokens (mr_InstallID m) s)
      \<and> sum_CollectedPaths r = of_nat (card (ev_Path ` set (machine_events (mr_InstallID m) s)))
      \<and> sum_CollectedActors r = of_nat (card (ev_Actor ` set (machine_events (mr_InstallID m) s)))) (?ord s) rows"
    unfolding rows list_all2_map2
    using summary_row_fields [OF assms(2) _ assms(3)] assms(4)
    by (elim list_all2_mono) (auto simp: toMachineSummary_def numericToInt64_def)
  then have "map mr_InstallID (?ord s) = map sum_InstallID rows" "map mr_LastSeenAt (?ord s) = map sum_LastSeenAt rows"
    by (auto simp: list_all2_conv_all_nth intro!: nth_equalityI)
  moreover have "sorted_wrt (\<lambda>a b. fst b \<le> fst a) (map mr_LastSeenAt (?ord s))"
    using sorted by (simp add: sorted_wrt_map)
  ultimately have "mset (map sum_InstallID rows) = mset (map mr_InstallID (machines s))"
    and "sorted_wrt (\<lambda>a b. fst b \<le> fst a) (map sum_LastSeenAt rows)"
    using ms by (metis mset_map, simp)
  moreover have "\<forall>r \<in> set rows. \<exists>m \<in> set (machines s).
         sum_InstallID r = mr_InstallID m \<and> sum_Hostname r = mr_Hostname m
         \<and> sum_LastSeenAt r = mr_LastSeenAt m
         \<and> cost_of_events g (machine_events (mr_InstallID m) s) (sum_LifetimeCost r)
         \<and> sum_LifetimeTokens r = of_int (lifetime_tokens (mr_InstallID m) s)
         \<and> sum_CollectedPaths r = of_nat (card (ev_Path ` set (machine_events (mr_InstallID m) s)))
         \<and> sum_CollectedActors r = of_nat (card (ev_Actor ` set (machine_events (mr_InstallID m) s)))"
    using list_all2_ex2 [OF rel] by blast
  ultimately show ?thesis by (simp add: sorted_wrt_map)
qed

section \<open>The window query\<close>

text \<open>The instant of a time stored in UTC decides; any other stored time is compared by the engine, as text.\<close>

definition in_window :: "engine \<Rightarrow> time \<Rightarrow> time \<Rightarrow> wtime \<Rightarrow> bool" where
  "in_window g a z w \<longleftrightarrow> (if snd w = 0 then a \<le> fst w \<and> fst w < z else \<not> e_lt g w (a, 0) \<and> e_lt g w (z, 0))"

text \<open>
  C24. The query returns, each once, exactly the stored events in the window, of the named machine if one
  is named, and of the named scan root of the named install if one is named; both filters must hold
  together, and a scan root with no colon selects nothing. An event stored with a UTC time is in the
  window when it was created at or after its start and before its end; the time of an event that was
  sent with another offset is stored as it came and compared as the engine compares the text.
\<close>

theorem window_query_exact:
  assumes "ListEventsInWindow (NewRepo g conv) (a, 0) (z, 0) flt s = (Inr es, t)" "engine_ok g"
  shows "mset es = mset (filter (\<lambda>e. in_window g a z (ev_CreatedAt e)
      \<and> (f_Machine flt \<noteq> [] \<longrightarrow> ev_Machine e = f_Machine flt)
      \<and> (f_ScanRoot flt \<noteq> [] \<longrightarrow>
          strings_Cut (f_ScanRoot flt) (CHR '':'') = (ev_Machine e, ev_ScanRoot e, True))) (usage_events s))
    \<and> same_tables s t"
proof -
  have sel: "selected (e_lt g) (a, 0) (z, 0) flt e \<longleftrightarrow>
      (in_window g a z (ev_CreatedAt e)
      \<and> (f_Machine flt \<noteq> [] \<longrightarrow> ev_Machine e = f_Machine flt)
      \<and> (f_ScanRoot flt \<noteq> [] \<longrightarrow>
          strings_Cut (f_ScanRoot flt) (CHR '':'') = (ev_Machine e, ev_ScanRoot e, True)))" for e
  proof -
    obtain i k where c: "ev_CreatedAt e = (i, k)" by (cases "ev_CreatedAt e")
    have win: "\<not> e_lt g (i, k) (a, 0) \<and> e_lt g (i, k) (z, 0) \<longleftrightarrow> in_window g a z (i, k)"
      using engine_okD(5) [OF assms(2)] by (auto simp: in_window_def)
    have root: "CHR '':'' \<notin> set (ev_Machine e) \<and> ev_Machine e @ CHR '':'' # ev_ScanRoot e = f_ScanRoot flt
        \<longleftrightarrow> strings_Cut (f_ScanRoot flt) (CHR '':'') = (ev_Machine e, ev_ScanRoot e, True)"
      using Cut_eq_iff [of "f_ScanRoot flt"] by metis
    show ?thesis unfolding selected_def c root using win by blast
  qed
  have "Repo_ListEventsInWindow g (a, 0) (z, 0) flt s = (Inr es, t)" using assms(1) by (simp add: NewRepo_def)
  then show ?thesis
  proof (cases rule: Repo_ListEventsInWindow_cases)
    case (ok es')
    then show ?thesis using assms(2) by (simp add: sel cong: filter_cong)
  qed simp
qed

end
