(* ===== verification/Usage_Summary.thy ===== *)
theory Usage_Summary
  imports GoTime Database
begin

text \<open>
  src/internal/domain/usage/summary.go: the fixed windows and their bounds, the grouping keys, and
  \<open>Aggregate\<close>, which turns the events of a window into totals and a ranked breakdown. \<open>Window\<close> and
  \<open>GroupBy\<close> are string types in the source, with a default branch for other strings.
\<close>

section \<open>Windows\<close>

type_synonym Window = string

definition Windows :: "Window list" where
  "Windows = [''5h'', ''24h'', ''today'', ''week'', ''month'', ''year'', ''lifetime'']"

definition ParseWindow :: "string \<Rightarrow> Window \<times> bool" where
  "ParseWindow s = (case find (\<lambda>w. w = s) Windows of Some w \<Rightarrow> (w, True) | None \<Rightarrow> ([], False))"

definition WindowBounds :: "Window \<Rightarrow> time \<Rightarrow> go_error + (time \<times> time)" where
  "WindowBounds w now =
     (let midnight = time_Date (time_Year now) (time_Month now) (time_Day now) in
      if w = ''5h'' then Inr (now - 5 * hour, now)
      else if w = ''24h'' then Inr (now - 24 * hour, now)
      else if w = ''today'' then Inr (midnight, now)
      else if w = ''week'' then
        (let daysSinceMonday = (time_Weekday midnight + 6) mod 7
         in Inr (time_AddDays midnight (- daysSinceMonday), now))
      else if w = ''month'' then Inr (time_Date (time_Year now) (time_Month now) 1, now)
      else if w = ''year'' then Inr (time_Date (time_Year now) 1 1, now)
      else if w = ''lifetime'' then Inr (time_Date 2000 1 1, now)
      else Inl (UnknownWindow w))"

section \<open>Grouping\<close>

type_synonym GroupBy = string

abbreviation GroupByActor :: GroupBy where "GroupByActor \<equiv> ''actor''"
abbreviation GroupByPath :: GroupBy where "GroupByPath \<equiv> ''path''"
abbreviation GroupByMachine :: GroupBy where "GroupByMachine \<equiv> ''machine''"

definition ParseGroupBy :: "string \<Rightarrow> GroupBy \<times> bool" where
  "ParseGroupBy s = (if s \<in> {GroupByActor, GroupByPath, GroupByMachine} then (s, True) else ([], False))"

definition keyFor :: "GroupBy \<Rightarrow> Event \<Rightarrow> string" where
  "keyFor g e =
     (if g = GroupByActor then ev_Machine e @ '':'' @ ev_Actor e
      else if g = GroupByPath then ev_Machine e @ '':'' @ ev_Path e
      else if g = GroupByMachine then ev_Machine e
      else [])"

definition excludedFromPathBreakdown :: "Event \<Rightarrow> bool" where
  "excludedFromPathBreakdown e \<longleftrightarrow> ev_Path e = ev_Actor e"

section \<open>Totals and breakdown\<close>

record Totals =
  tot_Tokens :: i64
  tot_Cost :: float64
  tot_Turns :: i64

record BreakdownRow =
  row_Key :: string
  row_RawKey :: string
  row_Tokens :: i64
  row_Cost :: float64
  row_Turns :: i64

record SummaryResult =
  res_Totals :: Totals
  res_Breakdown :: "BreakdownRow list"
  res_ReportingInstalls :: i64

definition tokensFor :: "Event \<Rightarrow> i64" where
  "tokensFor e = ev_InputTokens e + ev_OutputTokens e + ev_CacheReadInputTokens e
     + ev_CacheCreationInputTokens e"

text \<open>The locals of \<open>Aggregate\<close>: the totals, the set of machines, the rows by key, and the keys
  in the order they were first met.\<close>

record agg =
  ag_totals :: Totals
  ag_machines :: "string list"
  ag_byKey :: "string \<Rightarrow> BreakdownRow option"
  ag_order :: "string list"

definition agg_init :: agg where
  "agg_init = \<lparr>ag_totals = \<lparr>tot_Tokens = 0, tot_Cost = 0, tot_Turns = 0\<rparr>, ag_machines = [],
     ag_byKey = (\<lambda>_. None), ag_order = []\<rparr>"

definition add_to_row :: "Event \<Rightarrow> BreakdownRow \<Rightarrow> BreakdownRow" where
  "add_to_row e r = r\<lparr>row_Tokens := row_Tokens r + tokensFor e, row_Cost := f64_add (row_Cost r) (ev_Cost e),
     row_Turns := row_Turns r + 1\<rparr>"

definition fresh_row :: "string \<Rightarrow> BreakdownRow" where
  "fresh_row key = \<lparr>row_Key = key, row_RawKey = [], row_Tokens = 0, row_Cost = 0, row_Turns = 0\<rparr>"

definition agg_totals :: "Event \<Rightarrow> Totals \<Rightarrow> Totals" where
  "agg_totals e t = \<lparr>tot_Tokens = tot_Tokens t + tokensFor e, tot_Cost = f64_add (tot_Cost t) (ev_Cost e),
     tot_Turns = tot_Turns t + 1\<rparr>"

text \<open>One turn of the loop.\<close>

definition agg_step :: "GroupBy \<Rightarrow> agg \<Rightarrow> Event \<Rightarrow> agg" where
  "agg_step groupBy st e =
     (let st1 = st\<lparr>ag_totals := agg_totals e (ag_totals st),
                   ag_machines := (if ev_Machine e \<noteq> [] then List.insert (ev_Machine e) (ag_machines st)
                                   else ag_machines st)\<rparr> in
      if groupBy = GroupByPath \<and> excludedFromPathBreakdown e then st1
      else let key = keyFor groupBy e in
        case ag_byKey st1 key of
          Some row \<Rightarrow> st1\<lparr>ag_byKey := (ag_byKey st1)(key \<mapsto> add_to_row e row)\<rparr>
        | None \<Rightarrow> st1\<lparr>ag_byKey := (ag_byKey st1)(key \<mapsto> add_to_row e (fresh_row key)),
                     ag_order := ag_order st1 @ [key]\<rparr>)"

text \<open>The comparison of the stable sort: cost descending, ties by key.\<close>

definition row_before :: "BreakdownRow \<Rightarrow> BreakdownRow \<Rightarrow> bool" where
  "row_before a b = (if row_Cost a \<noteq> row_Cost b then row_Cost b < row_Cost a else row_Key a < row_Key b)"

definition Aggregate :: "Event list \<Rightarrow> GroupBy \<Rightarrow> SummaryResult" where
  "Aggregate events groupBy =
     (let st = foldl (agg_step groupBy) agg_init events in
      \<lparr>res_Totals = ag_totals st,
       res_Breakdown = sort_stable row_before (map (\<lambda>k. the (ag_byKey st k)) (ag_order st)),
       res_ReportingInstalls = of_nat (length (ag_machines st))\<rparr>)"

section \<open>Window bounds: lemmas\<close>

lemma year_start_le: "time_Date (time_Year now) 1 1 \<le> now"
proof -
  have "days_before_year (time_Year now) \<le> day_number now"
    unfolding time_Year_def by (rule year_of_bounds)
  then have "(days_before_year (time_Year now) - epoch_day) * day_ns \<le> (now div day_ns) * day_ns"
    by (intro mult_right_mono) (simp_all add: day_number_def)
  also have "\<dots> \<le> now" using pos_mod_sign [of day_ns now] by (simp add: minus_mod_eq_div_mult [symmetric])
  finally show ?thesis by (simp add: time_Date_def days_before_month_def month_starts_def)
qed

lemma month_start_le_today:
  "time_Date (time_Year now) (time_Month now) 1 \<le> time_Date (time_Year now) (time_Month now) (time_Day now)"
  using time_Day_ge [of now] by (simp add: time_Date_def)

lemma year_start_le_month_start: "time_Date (time_Year now) 1 1 \<le> time_Date (time_Year now) (time_Month now) 1"
proof -
  have "days_before_month (is_leap (time_Year now)) 1 \<le> days_before_month (is_leap (time_Year now)) (time_Month now)"
    using days_before_month_mono [of 1 "time_Month now"] time_Month_bounds [of now]
    by (cases "time_Month now = 1") (simp_all add: order_less_imp_le)
  then show ?thesis by (simp add: time_Date_def)
qed

lemma midnight_eq: "time_Date (time_Year now) (time_Month now) (time_Day now) = now - now mod day_ns"
  by (rule time_Date_today)

lemma week_start_eq:
  "time_AddDays (now - now mod day_ns) (- ((time_Weekday (now - now mod day_ns) + 6) mod 7))
   = now - now mod day_ns - ((now div day_ns + 3) mod 7) * day_ns"
proof -
  have "(now - now mod day_ns) div day_ns = now div day_ns" by (simp add: minus_mod_eq_mult_div)
  then have "(time_Weekday (now - now mod day_ns) + 6) mod 7 = (now div day_ns + 3) mod 7"
    unfolding time_Weekday_def by presburger
  then show ?thesis by (simp add: time_AddDays_eq)
qed

section \<open>Keys\<close>

lemma keyFor_inj:
  assumes "keyFor g e = keyFor g e'" "g \<in> {GroupByActor, GroupByPath, GroupByMachine}"
    "CHR '':'' \<notin> set (ev_Machine e)" "CHR '':'' \<notin> set (ev_Machine e')"
  shows "ev_Machine e = ev_Machine e'
    \<and> (g = GroupByActor \<longrightarrow> ev_Actor e = ev_Actor e') \<and> (g = GroupByPath \<longrightarrow> ev_Path e = ev_Path e')"
proof -
  note inj = join_sep_inj [OF assms(3,4)]
  from assms(2) consider "g = GroupByActor" | "g = GroupByPath" | "g = GroupByMachine" by blast
  then show ?thesis
  proof cases
    case 1
    with assms(1) show ?thesis using inj [of "ev_Actor e" "ev_Actor e'"] by (simp add: keyFor_def)
  next
    case 2
    with assms(1) show ?thesis using inj [of "ev_Path e" "ev_Path e'"] by (simp add: keyFor_def)
  next
    case 3
    with assms(1) show ?thesis by (simp add: keyFor_def)
  qed
qed

section \<open>The loop of Aggregate\<close>

definition counted :: "GroupBy \<Rightarrow> Event \<Rightarrow> bool" where
  "counted g e \<longleftrightarrow> \<not> (g = GroupByPath \<and> excludedFromPathBreakdown e)"

text \<open>The events a row stands for, and the row they make.\<close>

definition group_events :: "GroupBy \<Rightarrow> string \<Rightarrow> Event list \<Rightarrow> Event list" where
  "group_events g k es = filter (\<lambda>e. counted g e \<and> keyFor g e = k) es"

definition row_of :: "string \<Rightarrow> Event list \<Rightarrow> BreakdownRow" where
  "row_of k es = \<lparr>row_Key = k, row_RawKey = [], row_Tokens = sum_list (map tokensFor es),
     row_Cost = foldl f64_add 0 (map ev_Cost es), row_Turns = of_nat (length es)\<rparr>"

definition totals_of :: "Event list \<Rightarrow> Totals" where
  "totals_of es = \<lparr>tot_Tokens = sum_list (map tokensFor es), tot_Cost = foldl f64_add 0 (map ev_Cost es),
     tot_Turns = of_nat (length es)\<rparr>"

lemma row_of_Nil: "row_of k [] = fresh_row k"
  by (simp add: row_of_def fresh_row_def)

lemma row_of_snoc: "row_of k (es @ [e]) = add_to_row e (row_of k es)"
  by (simp add: row_of_def add_to_row_def)

lemma totals_of_snoc: "totals_of (es @ [e]) = agg_totals e (totals_of es)"
  by (simp add: totals_of_def agg_totals_def)

definition agg_inv :: "GroupBy \<Rightarrow> Event list \<Rightarrow> agg \<Rightarrow> bool" where
  "agg_inv g es st \<longleftrightarrow>
     ag_totals st = totals_of es
     \<and> distinct (ag_machines st) \<and> set (ag_machines st) = ev_Machine ` set es - {[]}
     \<and> distinct (ag_order st) \<and> set (ag_order st) = keyFor g ` {e \<in> set es. counted g e}
     \<and> (\<forall>k. ag_byKey st k = (if k \<in> set (ag_order st) then Some (row_of k (group_events g k es)) else None))"

lemma group_events_snoc:
  "group_events g k (es @ [e]) = group_events g k es @ (if counted g e \<and> keyFor g e = k then [e] else [])"
  by (simp add: group_events_def)

lemma group_events_empty: "k \<notin> keyFor g ` {e \<in> set es. counted g e} \<Longrightarrow> group_events g k es = []"
  by (auto simp: group_events_def filter_empty_conv)

lemma agg_inv_step:
  assumes "agg_inv g es st"
  shows "agg_inv g (es @ [e]) (agg_step g st e)"
proof (cases "counted g e")
  case False
  then have "agg_step g st e = st\<lparr>ag_totals := agg_totals e (ag_totals st),
      ag_machines := (if ev_Machine e \<noteq> [] then List.insert (ev_Machine e) (ag_machines st) else ag_machines st)\<rparr>"
    by (simp add: agg_step_def counted_def)
  with assms False show ?thesis
    by (auto simp: agg_inv_def totals_of_snoc group_events_snoc)
next
  case True
  note inv = assms [unfolded agg_inv_def]
  let ?k = "keyFor g e"
  show ?thesis
  proof (cases "?k \<in> set (ag_order st)")
    case seen: True
    with inv have look: "ag_byKey st ?k = Some (row_of ?k (group_events g ?k es))" by simp
    with True have "agg_step g st e = st\<lparr>ag_totals := agg_totals e (ag_totals st),
        ag_machines := (if ev_Machine e \<noteq> [] then List.insert (ev_Machine e) (ag_machines st) else ag_machines st),
        ag_byKey := (ag_byKey st)(?k \<mapsto> add_to_row e (row_of ?k (group_events g ?k es)))\<rparr>"
      by (auto simp: agg_step_def counted_def Let_def)
    with inv True seen show ?thesis
      by (auto simp: agg_inv_def totals_of_snoc group_events_snoc row_of_snoc)
  next
    case new: False
    with inv have "group_events g ?k es = []" "ag_byKey st ?k = None"
      by (simp_all add: group_events_empty)
    with True have "agg_step g st e = st\<lparr>ag_totals := agg_totals e (ag_totals st),
        ag_machines := (if ev_Machine e \<noteq> [] then List.insert (ev_Machine e) (ag_machines st) else ag_machines st),
        ag_byKey := (ag_byKey st)(?k \<mapsto> add_to_row e (row_of ?k (group_events g ?k es))),
        ag_order := ag_order st @ [?k]\<rparr>"
      by (auto simp: agg_step_def counted_def Let_def row_of_Nil)
    with inv True new show ?thesis
      by (auto simp: agg_inv_def totals_of_snoc group_events_snoc row_of_snoc)
  qed
qed

lemma agg_inv_run: "agg_inv g es (foldl (agg_step g) agg_init es)"
proof (induction es rule: rev_induct)
  case Nil
  then show ?case by (simp add: agg_inv_def agg_init_def totals_of_def)
next
  case (snoc e es)
  then show ?case using agg_inv_step by simp
qed

section \<open>The result of Aggregate\<close>

lemma Aggregate_totals: "res_Totals (Aggregate es g) = totals_of es"
  using agg_inv_run [of g es] by (simp add: Aggregate_def agg_inv_def Let_def)

lemma Aggregate_installs: "res_ReportingInstalls (Aggregate es g) = of_nat (card (ev_Machine ` set es - {[]}))"
  using agg_inv_run [of g es] by (simp add: Aggregate_def agg_inv_def Let_def flip: distinct_card)

lemma Aggregate_rows:
  obtains ks where "distinct ks" "set ks = keyFor g ` {e \<in> set es. counted g e}"
    "mset (res_Breakdown (Aggregate es g)) = mset (map (\<lambda>k. row_of k (group_events g k es)) ks)"
proof -
  let ?st = "foldl (agg_step g) agg_init es"
  note inv = agg_inv_run [of g es, unfolded agg_inv_def]
  have "map (\<lambda>k. the (ag_byKey ?st k)) (ag_order ?st) = map (\<lambda>k. row_of k (group_events g k es)) (ag_order ?st)"
    using inv by (intro map_cong) simp_all
  then have "mset (res_Breakdown (Aggregate es g)) = mset (map (\<lambda>k. row_of k (group_events g k es)) (ag_order ?st))"
    by (simp only: Aggregate_def Let_def SummaryResult.simps mset_sort_stable)
  with inv show thesis by (intro that [of "ag_order ?st"]) blast+
qed

lemma Aggregate_keys:
  "distinct (map row_Key (res_Breakdown (Aggregate es g)))"
  "row_Key ` set (res_Breakdown (Aggregate es g)) = keyFor g ` {e \<in> set es. counted g e}"
proof -
  obtain ks where ks: "distinct ks" "set ks = keyFor g ` {e \<in> set es. counted g e}"
    "mset (res_Breakdown (Aggregate es g)) = mset (map (\<lambda>k. row_of k (group_events g k es)) ks)"
    by (rule Aggregate_rows)
  have key: "row_Key (row_of k xs) = k" for k xs by (simp add: row_of_def)
  have "mset (map row_Key (res_Breakdown (Aggregate es g))) = mset (map row_Key (map (\<lambda>k. row_of k (group_events g k es)) ks))"
    using ks(3) by (metis mset_map)
  then have m: "mset (map row_Key (res_Breakdown (Aggregate es g))) = mset ks" by (simp add: comp_def key)
  with ks(1) show "distinct (map row_Key (res_Breakdown (Aggregate es g)))"
    by (metis mset_eq_imp_distinct_iff)
  show "row_Key ` set (res_Breakdown (Aggregate es g)) = keyFor g ` {e \<in> set es. counted g e}"
    using m ks(2) by (metis set_map set_mset_mset)
qed

lemma Aggregate_row:
  assumes "r \<in> set (res_Breakdown (Aggregate es g))"
  shows "r = row_of (row_Key r) (group_events g (row_Key r) es)"
proof -
  obtain ks where "mset (res_Breakdown (Aggregate es g)) = mset (map (\<lambda>k. row_of k (group_events g k es)) ks)"
    by (rule Aggregate_rows)
  then have "r \<in> set (map (\<lambda>k. row_of k (group_events g k es)) ks)" using assms by (metis set_mset_mset)
  then show ?thesis by (auto simp: row_of_def)
qed

lemma row_before_order:
  "row_before a b \<Longrightarrow> \<not> row_before b a"
  "\<not> row_before b a \<Longrightarrow> \<not> row_before c b \<Longrightarrow> \<not> row_before c a"
  by (auto simp: row_before_def split: if_splits)

lemma Aggregate_sorted: "sorted_wrt (\<lambda>a b. \<not> row_before b a) (res_Breakdown (Aggregate es g))"
  unfolding Aggregate_def Let_def SummaryResult.simps
  by (rule sorted_sort_stable [OF row_before_order])

text \<open>Summing the groups of all keys gives the sum over the counted events.\<close>

lemma sum_groups:
  fixes f :: "Event \<Rightarrow> 'a :: comm_monoid_add"
  assumes "distinct ks" "keyFor g ` {e \<in> set es. counted g e} \<subseteq> set ks"
  shows "sum_list (map (\<lambda>k. sum_list (map f (group_events g k es))) ks) = sum_list (map f (filter (counted g) es))"
  using assms(2)
proof (induction es)
  case Nil
  then show ?case by (simp add: group_events_def)
next
  case (Cons e es)
  have IH: "sum_list (map (\<lambda>k. sum_list (map f (group_events g k es))) ks) = sum_list (map f (filter (counted g) es))"
    by (rule Cons.IH) (use Cons.prems in auto)
  have split: "sum_list (map f (group_events g k (e # es)))
      = (if counted g e \<and> keyFor g e = k then f e else 0) + sum_list (map f (group_events g k es))" for k
    by (simp add: group_events_def)
  show ?case
  proof (cases "counted g e")
    case False
    then show ?thesis by (simp add: split IH)
  next
    case True
    then have "keyFor g e \<in> set ks" using Cons.prems by auto
    then have "sum_list (map (\<lambda>k. if keyFor g e = k then f e else 0) ks) = f e"
      using assms(1) by (simp add: sum_list_distinct_conv_sum_set)
    with True show ?thesis by (simp add: split sum_list_addf IH)
  qed
qed

lemma Aggregate_sum:
  assumes row: "\<And>k xs. sel (row_of k xs) = sum_list (map f xs)"
  shows "sum_list (map sel (res_Breakdown (Aggregate es g))) = sum_list (map (f :: Event \<Rightarrow> i64) (filter (counted g) es))"
proof -
  obtain ks where ks: "distinct ks" "set ks = keyFor g ` {e \<in> set es. counted g e}"
    "mset (res_Breakdown (Aggregate es g)) = mset (map (\<lambda>k. row_of k (group_events g k es)) ks)"
    by (rule Aggregate_rows)
  have "sum_list (map sel (res_Breakdown (Aggregate es g)))
      = sum_mset (mset (map sel (res_Breakdown (Aggregate es g))))" by (simp only: sum_mset_sum_list)
  also have "\<dots> = sum_mset (mset (map sel (map (\<lambda>k. row_of k (group_events g k es)) ks)))"
    using ks(3) by (metis mset_map)
  also have "\<dots> = sum_list (map (\<lambda>k. sum_list (map f (group_events g k es))) ks)"
    by (simp only: sum_mset_sum_list map_map comp_def row)
  also have "\<dots> = sum_list (map f (filter (counted g) es))"
    by (rule sum_groups) (simp_all add: ks)
  finally show ?thesis .
qed

section \<open>Properties of the windows\<close>

abbreviation window_start :: "Window \<Rightarrow> time \<Rightarrow> time" where
  "window_start w now \<equiv> (case WindowBounds w now of Inr (start, _) \<Rightarrow> start | Inl _ \<Rightarrow> 0)"

lemma window_starts:
  "WindowBounds ''5h'' now = Inr (now - 5 * hour, now)"
  "WindowBounds ''24h'' now = Inr (now - 24 * hour, now)"
  "WindowBounds ''today'' now = Inr (now - now mod day_ns, now)"
  "WindowBounds ''week'' now = Inr (now - now mod day_ns - ((now div day_ns + 3) mod 7) * day_ns, now)"
  "WindowBounds ''month'' now = Inr (time_Date (time_Year now) (time_Month now) 1, now)"
  "WindowBounds ''year'' now = Inr (time_Date (time_Year now) 1 1, now)"
  "WindowBounds ''lifetime'' now = Inr (time_Date 2000 1 1, now)"
  unfolding WindowBounds_def Let_def midnight_eq week_start_eq by simp_all

text \<open>
  The calendar windows start where they say: today at the last UTC midnight (less than a day
  ago), the week at the last Monday midnight (less than seven days ago), the month and the year at
  midnight of their first day; and the window ends now.
\<close>

lemma window_anchors:
  "(\<exists>start. WindowBounds ''today'' now = Inr (start, now)
      \<and> start mod day_ns = 0 \<and> start \<le> now \<and> now < start + day_ns)
   \<and> (\<exists>start. WindowBounds ''week'' now = Inr (start, now)
      \<and> start mod day_ns = 0 \<and> time_Weekday start = 1 \<and> start \<le> now \<and> now < start + 7 * day_ns)
   \<and> (\<exists>start. WindowBounds ''month'' now = Inr (start, now) \<and> start mod day_ns = 0 \<and> start \<le> now
      \<and> time_Year start = time_Year now \<and> time_Month start = time_Month now \<and> time_Day start = 1)
   \<and> (\<exists>start. WindowBounds ''year'' now = Inr (start, now) \<and> start mod day_ns = 0 \<and> start \<le> now
      \<and> time_Year start = time_Year now \<and> time_Month start = 1 \<and> time_Day start = 1)"
proof (intro conjI exI)
  let ?d = "now div day_ns"
  have now: "now = ?d * day_ns + now mod day_ns" by simp
  have m: "0 \<le> now mod day_ns" "now mod day_ns < day_ns" by (simp_all add: pos_mod_bound)
  have w: "0 \<le> (?d + 3) mod 7" "(?d + 3) mod 7 < 7" by simp_all
  let ?mon = "now - now mod day_ns - ((?d + 3) mod 7) * day_ns"
  have mon: "?mon = (?d - (?d + 3) mod 7) * day_ns" by (simp add: algebra_simps minus_mod_eq_mult_div)
  show "WindowBounds ''today'' now = Inr (now - now mod day_ns, now)" by (rule window_starts)
  show "(now - now mod day_ns) mod day_ns = 0" by (simp add: minus_mod_eq_mult_div)
  show "now - now mod day_ns \<le> now" "now < now - now mod day_ns + day_ns" using m by linarith+
  show "WindowBounds ''week'' now = Inr (?mon, now)" by (rule window_starts)
  show "?mon mod day_ns = 0" unfolding mon by (rule mod_mult_self2_is_0)
  have "?mon div day_ns = ?d - (?d + 3) mod 7" unfolding mon by simp
  then show "time_Weekday ?mon = 1" unfolding time_Weekday_def by presburger
  have "((?d + 3) mod 7) * day_ns \<le> 6 * day_ns" "0 \<le> ((?d + 3) mod 7) * day_ns" using w by simp_all
  then show "?mon \<le> now" "now < ?mon + 7 * day_ns" using m by linarith+
  show "WindowBounds ''month'' now = Inr (time_Date (time_Year now) (time_Month now) 1, now)"
    and "WindowBounds ''year'' now = Inr (time_Date (time_Year now) 1 1, now)" by (rule window_starts)+
  show "time_Date (time_Year now) (time_Month now) 1 mod day_ns = 0"
    and "time_Date (time_Year now) 1 1 mod day_ns = 0" by (rule time_Date_midnight)+
  show "time_Date (time_Year now) (time_Month now) 1 \<le> now"
    using month_start_le_today [of now] m unfolding midnight_eq by linarith
  show "time_Date (time_Year now) 1 1 \<le> now" by (rule year_start_le)
qed (rule fields_time_Date_1 time_Month_bounds | simp)+

text \<open>
  The windows nest: 5h in 24h, today in the week, in the month and in 24 hours back, the month in
  the year, so a figure can only grow from the narrower to the wider tab.
\<close>

lemma window_nesting:
  "window_start ''24h'' now \<le> window_start ''5h'' now
   \<and> window_start ''24h'' now \<le> window_start ''today'' now
   \<and> window_start ''week'' now \<le> window_start ''today'' now
   \<and> window_start ''month'' now \<le> window_start ''today'' now
   \<and> window_start ''year'' now \<le> window_start ''month'' now"
proof -
  have "now mod day_ns < day_ns" by (simp add: pos_mod_bound)
  moreover have "0 \<le> ((now div day_ns + 3) mod 7) * day_ns" by simp
  ultimately show ?thesis
    using month_start_le_today [of now] year_start_le_month_start [of now]
    unfolding midnight_eq by (simp add: window_starts)
qed

text \<open>
  \<open>ParseWindow\<close> and \<open>WindowBounds\<close> agree on which strings are windows: every parsed window has
  bounds that end now, and any other string is an error.
\<close>

lemma window_parse_bounds:
  "(if snd (ParseWindow s) then fst (ParseWindow s) = s \<and> (\<exists>start. WindowBounds s now = Inr (start, now))
    else WindowBounds s now = Inl (UnknownWindow s))
   \<and> (snd (ParseWindow s) \<longleftrightarrow> s \<in> set Windows)"
proof (cases "s \<in> set Windows")
  case True
  then have "find (\<lambda>w. w = s) Windows = Some s" by (auto simp: Windows_def)
  moreover have "\<exists>start. WindowBounds s now = Inr (start, now)"
    using True by (auto simp: Windows_def window_starts)
  ultimately show ?thesis using True by (simp add: ParseWindow_def)
next
  case False
  then have "find (\<lambda>w. w = s) Windows = None" by (auto simp: find_None_iff)
  with False show ?thesis by (simp add: ParseWindow_def WindowBounds_def Windows_def Let_def)
qed

section \<open>Properties of Aggregate\<close>

text \<open>
  C23. \<open>Aggregate\<close> is the group-by it means to be: totals over all events; one row for each key of a
  counted event and no other, holding the sums over exactly the events of that key (costs added in
  the order of the events); and the number of distinct non-empty machines over all events.
\<close>

theorem aggregate_groups:
  "res_Totals (Aggregate es g) = totals_of es
   \<and> distinct (map row_Key (res_Breakdown (Aggregate es g)))
   \<and> set (res_Breakdown (Aggregate es g))
       = (\<lambda>k. row_of k (filter (\<lambda>e. counted g e \<and> keyFor g e = k) es)) ` keyFor g ` {e \<in> set es. counted g e}
   \<and> res_ReportingInstalls (Aggregate es g) = of_nat (card (ev_Machine ` set es - {[]}))"
proof -
  have "set (res_Breakdown (Aggregate es g))
      = (\<lambda>k. row_of k (group_events g k es)) ` keyFor g ` {e \<in> set es. counted g e}"
  proof
    show "set (res_Breakdown (Aggregate es g)) \<subseteq> (\<lambda>k. row_of k (group_events g k es)) ` keyFor g ` {e \<in> set es. counted g e}"
      using Aggregate_row [of _ es g] Aggregate_keys(2) [of es g] by blast
    show "(\<lambda>k. row_of k (group_events g k es)) ` keyFor g ` {e \<in> set es. counted g e} \<subseteq> set (res_Breakdown (Aggregate es g))"
    proof safe
      fix e assume "e \<in> set es" "counted g e"
      then have "keyFor g e \<in> row_Key ` set (res_Breakdown (Aggregate es g))"
        unfolding Aggregate_keys(2) by blast
      then obtain r where "r \<in> set (res_Breakdown (Aggregate es g))" "row_Key r = keyFor g e" by auto
      then show "row_of (keyFor g e) (group_events g (keyFor g e) es) \<in> set (res_Breakdown (Aggregate es g))"
        using Aggregate_row [of r es g] by simp
    qed
  qed
  then show ?thesis by (simp add: Aggregate_totals Aggregate_installs Aggregate_keys(1) group_events_def)
qed

text \<open>
  The breakdown is ranked: a row never stands above one of higher cost, and rows of equal cost
  are in strictly increasing order of key, so the ranking is the same on every run.
\<close>

lemma aggregate_ranked:
  "sorted_wrt (\<lambda>a b. row_Cost b < row_Cost a \<or> row_Cost a = row_Cost b \<and> row_Key a < row_Key b)
     (res_Breakdown (Aggregate es g))"
proof -
  have "sorted_wrt (\<lambda>a b. row_Key a \<noteq> row_Key b \<and> \<not> row_before b a) (res_Breakdown (Aggregate es g))"
    using Aggregate_keys(1) [of es g] Aggregate_sorted [of es g]
    by (simp add: distinct_conv_nth sorted_wrt_iff_nth_less)
  then show ?thesis
    by (rule sorted_wrt_mono_rel [rotated]) (auto simp: row_before_def split: if_splits)
qed

text \<open>
  Tokens and turns of the rows add up to the totals, less the events the path view leaves out
  (those that never left the directory they were launched in), and to the totals in the other views.
\<close>

lemma aggregate_sums:
  "sum_list (map row_Tokens (res_Breakdown (Aggregate es g)))
     + sum_list (map tokensFor (filter (\<lambda>e. g = GroupByPath \<and> excludedFromPathBreakdown e) es))
     = tot_Tokens (res_Totals (Aggregate es g))
   \<and> sum_list (map row_Turns (res_Breakdown (Aggregate es g)))
     + of_nat (length (filter (\<lambda>e. g = GroupByPath \<and> excludedFromPathBreakdown e) es))
     = tot_Turns (res_Totals (Aggregate es g))"
proof -
  have part: "sum_list (map f (filter (counted g) es))
      + sum_list (map f (filter (\<lambda>e. g = GroupByPath \<and> excludedFromPathBreakdown e) es)) = sum_list (map f es)"
    for f :: "Event \<Rightarrow> i64"
    by (induction es) (auto simp: counted_def ac_simps)
  have ones: "of_nat (length xs) = sum_list (map (\<lambda>_. 1 :: i64) xs)" for xs :: "Event list"
    by (induction xs) simp_all
  have toks: "sum_list (map row_Tokens (res_Breakdown (Aggregate es g))) = sum_list (map tokensFor (filter (counted g) es))"
    by (rule Aggregate_sum) (simp add: row_of_def)
  have turns: "sum_list (map row_Turns (res_Breakdown (Aggregate es g))) = sum_list (map (\<lambda>_. 1) (filter (counted g) es))"
    by (rule Aggregate_sum) (simp add: row_of_def ones)
  show ?thesis
    unfolding Aggregate_totals toks turns totals_of_def ones by (simp add: part)
qed

text \<open>
  Two events share a row exactly when they agree on the machine and on the grouped field,
  provided no machine id contains a colon: the compound keys never merge two machines.
\<close>

lemma grouping_key_injective:
  assumes "g \<in> {GroupByActor, GroupByPath, GroupByMachine}"
    and "CHR '':'' \<notin> set (ev_Machine e)" "CHR '':'' \<notin> set (ev_Machine e')"
  shows "keyFor g e = keyFor g e' \<longleftrightarrow> ev_Machine e = ev_Machine e'
    \<and> (g = GroupByActor \<longrightarrow> ev_Actor e = ev_Actor e') \<and> (g = GroupByPath \<longrightarrow> ev_Path e = ev_Path e')"
proof
  assume "keyFor g e = keyFor g e'"
  then show "ev_Machine e = ev_Machine e'
    \<and> (g = GroupByActor \<longrightarrow> ev_Actor e = ev_Actor e') \<and> (g = GroupByPath \<longrightarrow> ev_Path e = ev_Path e')"
    by (rule keyFor_inj [OF _ assms])
next
  assume r: "ev_Machine e = ev_Machine e'
    \<and> (g = GroupByActor \<longrightarrow> ev_Actor e = ev_Actor e') \<and> (g = GroupByPath \<longrightarrow> ev_Path e = ev_Path e')"
  from assms(1) show "keyFor g e = keyFor g e'"
    by (elim insertE emptyE) (use r in \<open>simp_all add: keyFor_def\<close>)
qed

definition sample_event :: "string \<Rightarrow> string \<Rightarrow> string \<Rightarrow> Event" where
  "sample_event i machine path = \<lparr>ev_ID = i, ev_SessionID = ''s1'', ev_Actor = ''/home/a'', ev_Path = path,
     ev_Machine = machine, ev_Model = ''claude-opus-4-5'', ev_ScanRoot = ''/root'', ev_InputTokens = 10,
     ev_OutputTokens = 20, ev_CacheReadInputTokens = 30, ev_CacheCreationInputTokens = 40,
     ev_Cost = 1, ev_Source = ''claude_code'', ev_CreatedAt = (0, 0)\<rparr>"

theorem grouping_key_injective_witness:
  "keyFor GroupByPath (sample_event ''1'' ''m1'' ''/p'') \<noteq> keyFor GroupByPath (sample_event ''2'' ''m2'' ''/p'')"
  using grouping_key_injective [of GroupByPath "sample_event ''1'' ''m1'' ''/p''" "sample_event ''2'' ''m2'' ''/p''"]
  by (simp add: sample_event_def)

end
