(* ===== verification/Usage_Service.thy ===== *)
theory Usage_Service
  imports Usage_Repo Usage_Summary
begin

text \<open>
  src/internal/domain/usage/service.go: ingestion with the server's own cost and source, the
  summary of a window with its hostname substitution, the table of all windows, scan roots and
  machine summaries, over any implementation of \<open>Repository\<close>. The lemmas are proved once from the
  contract \<open>usage_repository\<close>; the properties are its facts at \<open>NewRepo\<close>, the database.
\<close>

section \<open>Ingestion\<close>

definition Source :: string where "Source = ''claude_code''"

record IngestEvent =
  in_ID :: string
  in_SessionID :: string
  in_Actor :: string
  in_Path :: string
  in_Machine :: string
  in_Model :: string
  in_ScanRoot :: string
  in_InputTokens :: i64
  in_OutputTokens :: i64
  in_CacheReadInputTokens :: i64
  in_CacheCreationInputTokens :: i64
  in_Timestamp :: wtime

definition toEvent :: "(string \<Rightarrow> string) \<Rightarrow> IngestEvent \<Rightarrow> Event" where
  "toEvent uni e = \<lparr>ev_ID = in_ID e, ev_SessionID = in_SessionID e, ev_Actor = in_Actor e,
     ev_Path = in_Path e, ev_Machine = in_Machine e, ev_Model = in_Model e, ev_ScanRoot = in_ScanRoot e,
     ev_InputTokens = in_InputTokens e, ev_OutputTokens = in_OutputTokens e,
     ev_CacheReadInputTokens = in_CacheReadInputTokens e,
     ev_CacheCreationInputTokens = in_CacheCreationInputTokens e,
     ev_Cost = CostForUsage uni (in_Model e) (in_InputTokens e) (in_OutputTokens e)
                 (in_CacheReadInputTokens e) (in_CacheCreationInputTokens e),
     ev_Source = Source, ev_CreatedAt = in_Timestamp e\<rparr>"

text \<open>The pair \<open>(received, inserted)\<close>.\<close>

definition IngestBatch ::
    "'s Repository \<Rightarrow> (string \<Rightarrow> string) \<Rightarrow> IngestEvent list \<Rightarrow> ('s, go_error, nat \<times> i64) io" where
  "IngestBatch repo uni events =
     (let received = length events in
      if received = 0 then returnR (0, 0)
      else bindR (InsertBatch repo (map (toEvent uni) events))
             (\<lambda>insertedRows. returnR (received, insertedRows)))"

section \<open>Hostname substitution\<close>

definition substituteMachineHostnames :: "'s Repository \<Rightarrow> BreakdownRow list \<Rightarrow> ('s, go_error, BreakdownRow list) io" where
  "substituteMachineHostnames repo breakdown =
     (if breakdown = [] then returnR []
      else bindR (MachineHostnames repo) (\<lambda>hostnames. returnR (map (\<lambda>r.
        let installID = row_Key r in
        case hostnames installID of
          Some hostname \<Rightarrow> if hostname \<noteq> [] then r\<lparr>row_Key := hostname, row_RawKey := installID\<rparr> else r
        | None \<Rightarrow> r) breakdown)))"

definition substituteMachineHostnamesInPathKeys ::
    "'s Repository \<Rightarrow> BreakdownRow list \<Rightarrow> ('s, go_error, BreakdownRow list) io" where
  "substituteMachineHostnamesInPathKeys repo breakdown =
     (if breakdown = [] then returnR []
      else bindR (MachineHostnames repo) (\<lambda>hostnames. returnR (map (\<lambda>r.
        let rawKey = row_Key r in
        case strings_Cut rawKey (CHR '':'') of (installID, path, found) \<Rightarrow>
          if \<not> found then r
          else case hostnames installID of
                 Some hostname \<Rightarrow> if hostname \<noteq> []
                   then r\<lparr>row_Key := hostname @ '':'' @ path, row_RawKey := rawKey\<rparr> else r
               | None \<Rightarrow> r) breakdown)))"

definition substituteMachineHostnamesInActorKeys ::
    "'s Repository \<Rightarrow> BreakdownRow list \<Rightarrow> ('s, go_error, BreakdownRow list) io" where
  "substituteMachineHostnamesInActorKeys repo breakdown =
     (if breakdown = [] then returnR []
      else bindR (MachineHostnames repo) (\<lambda>hostnames. returnR (map (\<lambda>r.
        let rawKey = row_Key r in
        case strings_Cut rawKey (CHR '':'') of (installID, actor, found) \<Rightarrow>
          if \<not> found then r
          else case hostnames installID of
                 Some hostname \<Rightarrow> if hostname \<noteq> []
                   then r\<lparr>row_Key := hostname @ '':'' @ actor, row_RawKey := rawKey\<rparr> else r
               | None \<Rightarrow> r) breakdown)))"

section \<open>Reading\<close>

definition utc :: "time \<Rightarrow> wtime" where "utc t = (t, 0)"

definition Summary :: "'s Repository \<Rightarrow> Window \<Rightarrow> GroupBy \<Rightarrow> Filter \<Rightarrow> time \<Rightarrow> ('s, go_error, SummaryResult) io" where
  "Summary repo window groupBy flt now =
     (case WindowBounds window now of
        Inl err \<Rightarrow> raiseR err
      | Inr (start, end1) \<Rightarrow>
          bindR (ListEventsInWindow repo (utc start) (utc end1) flt) (\<lambda>events.
            let result = Aggregate events groupBy;
                store = (\<lambda>b. returnR (result\<lparr>res_Breakdown := b\<rparr>)) in
            if groupBy = GroupByMachine then bindR (substituteMachineHostnames repo (res_Breakdown result)) store
            else if groupBy = GroupByPath then bindR (substituteMachineHostnamesInPathKeys repo (res_Breakdown result)) store
            else if groupBy = GroupByActor then bindR (substituteMachineHostnamesInActorKeys repo (res_Breakdown result)) store
            else returnR result))"

record WindowTotals =
  wt_Window :: Window
  wt_Totals :: Totals

fun Service_Windows_loop :: "'s Repository \<Rightarrow> Filter \<Rightarrow> time \<Rightarrow> Window list \<Rightarrow> ('s, go_error, WindowTotals list) io" where
  "Service_Windows_loop repo flt now [] = returnR []"
| "Service_Windows_loop repo flt now (w # ws) =
     (case WindowBounds w now of
        Inl err \<Rightarrow> raiseR err
      | Inr (start, end1) \<Rightarrow>
          bindR (ListEventsInWindow repo (utc start) (utc end1) flt) (\<lambda>events.
          bindR (Service_Windows_loop repo flt now ws) (\<lambda>rows.
            returnR (\<lparr>wt_Window = w, wt_Totals = res_Totals (Aggregate events GroupByActor)\<rparr> # rows))))"

definition Service_Windows :: "'s Repository \<Rightarrow> Filter \<Rightarrow> time \<Rightarrow> ('s, go_error, WindowTotals list) io" where
  "Service_Windows repo flt now = Service_Windows_loop repo flt now Windows"

section \<open>Machines and scan roots\<close>

definition Service_UpsertMachine :: "'s Repository \<Rightarrow> string \<Rightarrow> string \<Rightarrow> wtime \<Rightarrow> ('s, go_error, unit) io" where
  "Service_UpsertMachine repo installID hostname now = UpsertMachine repo installID hostname now"

record UpsertScanRootInput =
  usr_Path :: string
  usr_Name :: string
  usr_SourceType :: string

definition UpsertScanRoots ::
    "'s Repository \<Rightarrow> string \<Rightarrow> UpsertScanRootInput list \<Rightarrow> wtime \<Rightarrow> ('s, go_error, unit) io" where
  "UpsertScanRoots repo installID scanRoots now =
     forR (\<lambda>sr. UpsertScanRoot repo installID (usr_Path sr) (usr_Name sr) (usr_SourceType sr) now) scanRoots"

record ScanRootWithHostname =
  srh_InstallID :: string
  srh_Hostname :: string
  srh_ScanRootPath :: string
  srh_Name :: string
  srh_SourceType :: string

definition withHostname :: "(string \<Rightarrow> string option) \<Rightarrow> ScanRootRecord \<Rightarrow> ScanRootWithHostname" where
  "withHostname hostnames r =
     \<lparr>srh_InstallID = rec_InstallID r,
      srh_Hostname = (case hostnames (rec_InstallID r) of
                        Some h \<Rightarrow> if h \<noteq> [] then h else rec_InstallID r
                      | None \<Rightarrow> rec_InstallID r),
      srh_ScanRootPath = rec_ScanRootPath r, srh_Name = rec_Name r, srh_SourceType = rec_SourceType r\<rparr>"

definition ScanRoots :: "'s Repository \<Rightarrow> ('s, go_error, ScanRootWithHostname list) io" where
  "ScanRoots repo = bindR (ListScanRoots repo) (\<lambda>records.
     if records = [] then returnR []
     else bindR (MachineHostnames repo) (\<lambda>hostnames. returnR (map (withHostname hostnames) records)))"

definition MachineSummaries :: "'s Repository \<Rightarrow> ('s, go_error, MachineSummary list) io" where
  "MachineSummaries repo = ListMachineSummaries repo"

section \<open>The substitution, as a function of the hostnames\<close>

definition label_of :: "(string \<Rightarrow> string option) \<Rightarrow> string \<Rightarrow> string option" where
  "label_of hosts i = (case hosts i of Some h \<Rightarrow> if h \<noteq> [] then Some h else None | None \<Rightarrow> None)"

definition relabel :: "GroupBy \<Rightarrow> (string \<Rightarrow> string option) \<Rightarrow> BreakdownRow \<Rightarrow> BreakdownRow" where
  "relabel g hosts r =
     (if g = GroupByMachine then
        (case label_of hosts (row_Key r) of
           Some h \<Rightarrow> r\<lparr>row_Key := h, row_RawKey := row_Key r\<rparr> | None \<Rightarrow> r)
      else if g = GroupByPath \<or> g = GroupByActor then
        (case strings_Cut (row_Key r) (CHR '':'') of (i, rest, found) \<Rightarrow>
           (case (if found then label_of hosts i else None) of
              Some h \<Rightarrow> r\<lparr>row_Key := h @ '':'' @ rest, row_RawKey := row_Key r\<rparr> | None \<Rightarrow> r))
      else r)"

lemma relabel_figures [simp]:
  "row_Tokens (relabel g h r) = row_Tokens r" "row_Cost (relabel g h r) = row_Cost r"
  "row_Turns (relabel g h r) = row_Turns r"
  by (auto simp: relabel_def split: option.splits prod.splits)

text \<open>The three passes are one: run over a non-empty breakdown, they relabel each row.\<close>

definition relabel_pass :: "'s Repository \<Rightarrow> GroupBy \<Rightarrow> BreakdownRow list \<Rightarrow> ('s, go_error, BreakdownRow list) io" where
  "relabel_pass repo g b =
     (if b = [] then returnR [] else bindR (MachineHostnames repo) (\<lambda>h. returnR (map (relabel g h) b)))"

lemma substitute_machine_eq: "substituteMachineHostnames repo b = relabel_pass repo GroupByMachine b"
proof -
  have "(\<lambda>r. let installID = row_Key r in
        case h installID of
          Some hostname \<Rightarrow> if hostname \<noteq> [] then r\<lparr>row_Key := hostname, row_RawKey := installID\<rparr> else r
        | None \<Rightarrow> r) = relabel GroupByMachine h" for h
    by (rule ext) (simp add: relabel_def label_of_def Let_def split: option.splits)
  then show ?thesis by (simp add: substituteMachineHostnames_def relabel_pass_def)
qed

lemma substitute_compound:
  "g = GroupByPath \<or> g = GroupByActor \<Longrightarrow>
   (\<lambda>r. let rawKey = row_Key r in
      case strings_Cut rawKey (CHR '':'') of (installID, rest, found) \<Rightarrow>
        if \<not> found then r
        else case h installID of
               Some hostname \<Rightarrow> if hostname \<noteq> []
                 then r\<lparr>row_Key := hostname @ '':'' @ rest, row_RawKey := rawKey\<rparr> else r
             | None \<Rightarrow> r) = relabel g h"
  by (rule ext) (auto simp: relabel_def label_of_def Let_def split: option.splits prod.splits)

lemma substitute_path_eq: "substituteMachineHostnamesInPathKeys repo b = relabel_pass repo GroupByPath b"
  unfolding substituteMachineHostnamesInPathKeys_def relabel_pass_def
  by (simp only: substitute_compound [of GroupByPath] simp_thms)

lemma substitute_actor_eq: "substituteMachineHostnamesInActorKeys repo b = relabel_pass repo GroupByActor b"
  unfolding substituteMachineHostnamesInActorKeys_def relabel_pass_def
  by (simp only: substitute_compound [of GroupByActor] simp_thms)

text \<open>\<open>Summary\<close> in terms of the one pass.\<close>

lemma Summary_eq:
  assumes "g \<in> {GroupByActor, GroupByPath, GroupByMachine}"
  shows "Summary repo w g flt now =
    (case WindowBounds w now of
       Inl err \<Rightarrow> raiseR err
     | Inr (start, end1) \<Rightarrow> bindR (ListEventsInWindow repo (utc start) (utc end1) flt) (\<lambda>es.
         bindR (relabel_pass repo g (res_Breakdown (Aggregate es g)))
           (\<lambda>b. returnR ((Aggregate es g)\<lparr>res_Breakdown := b\<rparr>))))"
  using assms
  by (auto simp: Summary_def Let_def substitute_machine_eq substitute_path_eq substitute_actor_eq
      split: sum.split)

section \<open>What the service does with any implementation of the contract\<close>

context usage_repository
begin

lemma pass_ok:
  assumes "relabel_pass repo g b s = (Inr b', t)" "inv s"
  shows "b' = map (relabel g (hosts s)) b \<and> same s t"
proof (cases "b = []")
  case True
  with assms show ?thesis by (auto simp: relabel_pass_def same_refl)
next
  case False
  with assms(1) obtain h u where "MachineHostnames repo s = (Inr h, u)" "b' = map (relabel g h) b" "t = u"
    by (auto simp: relabel_pass_def elim!: bindR_okE)
  then show ?thesis using hosts_ok hosts_same assms(2) by metis
qed

lemma summary_ok:
  assumes run: "Summary repo w g flt now s = (Inr res, t)" and inv: "inv s"
    and g: "g \<in> {GroupByActor, GroupByPath, GroupByMachine}"
  obtains start es where "WindowBounds w now = Inr (start, now)"
    "mset es = mset (filter (selected lt (utc start) (utc now) flt) (evs s))"
    "res = (Aggregate es g)\<lparr>res_Breakdown := map (relabel g (hosts s)) (res_Breakdown (Aggregate es g))\<rparr>"
    "same s t"
proof (cases "WindowBounds w now")
  case (Inl e)
  with run show thesis by (simp add: Summary_eq [OF g])
next
  case (Inr p)
  then obtain start where wb: "WindowBounds w now = Inr (start, now)"
    using window_parse_bounds [of w now] by (auto split: if_splits)
  with run obtain es u b where l: "ListEventsInWindow repo (utc start) (utc now) flt s = (Inr es, u)"
    and p: "relabel_pass repo g (res_Breakdown (Aggregate es g)) u = (Inr b, t)"
    and res: "res = (Aggregate es g)\<lparr>res_Breakdown := b\<rparr>"
    by (auto simp: Summary_eq [OF g] elim!: bindR_okE)
  have su: "same s u" by (rule list_same [OF l])
  then have "inv u" "hosts u = hosts s" using same_obs inv by blast+
  with pass_ok [OF p] have "b = map (relabel g (hosts s)) (res_Breakdown (Aggregate es g))" "same u t" by simp_all
  then show thesis
    using that [OF wb list_ok [OF l inv]] res su same_trans by blast
qed

lemma ingest_ok:
  assumes "IngestBatch repo uni es s = (Inr (received, inserted), t)" "inv s"
  shows "inv t \<and> evs t = evs s @ ingest_new (event_ids (evs s)) (map (toEvent uni) es)
    \<and> received = length es
    \<and> inserted = of_nat (length (ingest_new (event_ids (evs s)) (map (toEvent uni) es)))
    \<and> hosts t = hosts s \<and> roots t = roots s"
proof (cases "es = []")
  case True
  with assms show ?thesis by (auto simp: IngestBatch_def)
next
  case False
  with assms(1) have "InsertBatch repo (map (toEvent uni) es) s = (Inr inserted, t)" "received = length es"
    by (auto simp: IngestBatch_def elim!: bindR_okE)
  then show ?thesis using insert_ok [OF _ assms(2)] by auto
qed

lemma ingest_err: "IngestBatch repo uni es s = (Inl e, t) \<Longrightarrow> same s t"
  using insert_err
  by (auto simp: IngestBatch_def bindR_def Let_def split: if_splits prod.splits sum.splits)

lemma windows_loop_ok:
  "Service_Windows_loop repo flt now ws s = (Inr rows, t) \<Longrightarrow> inv s \<Longrightarrow> set ws \<subseteq> set Windows \<Longrightarrow>
   same s t \<and> list_all2 (\<lambda>w row. wt_Window row = w
     \<and> (\<exists>start es. WindowBounds w now = Inr (start, now)
          \<and> mset es = mset (filter (selected lt (utc start) (utc now) flt) (evs s))
          \<and> wt_Totals row = totals_of es)) ws rows"
proof (induction ws arbitrary: s rows)
  case Nil
  then show ?case by (simp add: same_refl)
next
  case (Cons w ws)
  obtain start where wb: "WindowBounds w now = Inr (start, now)"
    using window_parse_bounds [of w now] Cons.prems(3) by auto
  with Cons.prems(1) obtain es u rest
    where l: "ListEventsInWindow repo (utc start) (utc now) flt s = (Inr es, u)"
      and r: "Service_Windows_loop repo flt now ws u = (Inr rest, t)"
      and rows: "rows = \<lparr>wt_Window = w, wt_Totals = totals_of es\<rparr> # rest"
    by (auto simp: Aggregate_totals elim!: bindR_okE)
  have su: "same s u" by (rule list_same [OF l])
  then have u: "inv u" "evs u = evs s" using same_obs Cons.prems(2) by blast+
  have "same u t" and rel: "list_all2 (\<lambda>w row. wt_Window row = w
     \<and> (\<exists>start es. WindowBounds w now = Inr (start, now)
          \<and> mset es = mset (filter (selected lt (utc start) (utc now) flt) (evs s))
          \<and> wt_Totals row = totals_of es)) ws rest"
    using Cons.IH [OF r u(1)] Cons.prems(3) u(2) by auto
  then show ?case
    using su same_trans wb list_ok [OF l Cons.prems(2)] by (auto simp: rows)
qed

lemma upsert_roots_obs:
  "forR (\<lambda>sr. UpsertScanRoot repo i (usr_Path sr) (usr_Name sr) (usr_SourceType sr) now) srs s = (r, t) \<Longrightarrow> inv s
   \<Longrightarrow> inv t \<and> evs t = evs s \<and> hosts t = hosts s"
proof (induction srs arbitrary: s)
  case Nil
  then show ?case by simp
next
  case (Cons sr srs)
  obtain q u where step: "UpsertScanRoot repo i (usr_Path sr) (usr_Name sr) (usr_SourceType sr) now s = (q, u)"
    by fastforce
  show ?case
  proof (cases q)
    case (Inl e)
    with Cons.prems step same_obs [OF root_err [OF step [unfolded Inl]]] show ?thesis by auto
  next
    case (Inr x)
    with Cons.prems step root_ok [OF _ Cons.prems(2)] Cons.IH [of u] show ?thesis by auto
  qed
qed

lemma scan_roots_ok:
  assumes "ScanRoots repo s = (Inr out, t)" "inv s"
  shows "mset out = mset (map (withHostname (hosts s)) (roots s)) \<and> same s t"
proof -
  from assms(1) obtain rs u where l: "ListScanRoots repo s = (Inr rs, u)"
    and rest: "(if rs = [] then returnR [] else bindR (MachineHostnames repo)
      (\<lambda>h. returnR (map (withHostname h) rs))) u = (Inr out, t)"
    by (auto simp: ScanRoots_def elim!: bindR_okE)
  have rs: "mset rs = mset (roots s)" and su: "same s u" using roots_ok [OF l assms(2)] roots_same [OF l] .
  then have u: "inv u" "hosts u = hosts s" using same_obs assms(2) by blast+
  show ?thesis
  proof (cases "rs = []")
    case True
    with rest rs su show ?thesis by auto
  next
    case False
    with rest obtain h where "MachineHostnames repo u = (Inr h, t)" "out = map (withHostname h) rs"
      by (auto elim!: bindR_okE)
    with hosts_ok [OF _ u(1)] hosts_same u(2) rs su same_trans show ?thesis by (metis mset_map)
  qed
qed

end

section \<open>Properties: ingestion\<close>

text \<open>
  C2. A batch that succeeds stores, after what was there, exactly its events with an id not seen
  before (in the database or earlier in the batch), each with the cost and source the server
  computes; it answers how many it received and how many of them were new; nothing else changes.
\<close>

theorem ingest_exact:
  assumes "IngestBatch (NewRepo g conv) uni es s = (Inr (received, inserted), t)" "repo_inv g s"
  shows "usage_events t = usage_events s @ ingest_new (event_ids (usage_events s)) (map (toEvent uni) es)
    \<and> (\<forall>e \<in> set (ingest_new (event_ids (usage_events s)) (map (toEvent uni) es)).
         ev_Source e = ''claude_code''
         \<and> ev_Cost e = CostForUsage uni (ev_Model e) (ev_InputTokens e) (ev_OutputTokens e)
             (ev_CacheReadInputTokens e) (ev_CacheCreationInputTokens e))
    \<and> event_ids (usage_events t) = event_ids (usage_events s) \<union> in_ID ` set es
    \<and> received = length es
    \<and> inserted = of_nat (length (usage_events t) - length (usage_events s))
    \<and> usage_db_ok t \<and> machine_hosts t = machine_hosts s"
proof -
  let ?new = "ingest_new (event_ids (usage_events s)) (map (toEvent uni) es)"
  note ok = repo.ingest_ok [OF assms]
  have "set ?new \<subseteq> toEvent uni ` set es" using ingest_new_subset by fastforce
  then have "\<forall>e \<in> set ?new. ev_Source e = ''claude_code''
      \<and> ev_Cost e = CostForUsage uni (ev_Model e) (ev_InputTokens e) (ev_OutputTokens e)
             (ev_CacheReadInputTokens e) (ev_CacheCreationInputTokens e)"
    by (auto simp: toEvent_def Source_def)
  moreover have "event_ids (map (toEvent uni) es) = in_ID ` set es"
    by (auto simp: toEvent_def image_image)
  ultimately show ?thesis
    using ok ingest_new_ids [of "event_ids (usage_events s)" "map (toEvent uni) es"]
    by (auto simp: repo_inv_def image_Un)
qed

text \<open>
  C16. Ingestion is all or nothing: when any statement of the batch fails, in the middle of the
  inserts or at the commit, every table is as it was.
\<close>

theorem ingest_atomic:
  assumes "IngestBatch (NewRepo g conv) uni es s = (Inl e, t)"
  shows "same_tables s t"
  by (rule repo.ingest_err [OF assms])

text \<open>
  C17. Re-sending is safe: after a batch went through, any batch made of ids already sent leaves the
  tables as they are, whether it succeeds (and then it reports no insertion) or fails.
\<close>

theorem ingest_idempotent:
  assumes "IngestBatch (NewRepo g conv) uni es s = (Inr res, t)" "repo_inv g s"
    and "IngestBatch (NewRepo g conv) uni es' t = (r, u)" "in_ID ` set es' \<subseteq> in_ID ` set es"
  shows "usage_events u = usage_events t \<and> (\<forall>v. r = Inr v \<longrightarrow> v = (length es', 0))"
proof (cases r)
  case (Inl e)
  with assms(3) have "same_tables t u" by (auto intro: repo.ingest_err)
  with Inl show ?thesis by (simp add: same_tables_eq)
next
  case (Inr v)
  obtain received inserted where res: "res = (received, inserted)" by (cases res)
  obtain rc ins where v: "v = (rc, ins)" by (cases v)
  note first = repo.ingest_ok [OF assms(1) [unfolded res] assms(2)]
  have ids: "event_ids (map (toEvent uni) xs) = in_ID ` set xs" for xs
    by (auto simp: toEvent_def image_image)
  have "event_ids (map (toEvent uni) es') \<subseteq> event_ids (usage_events t)"
    using first assms(4) ingest_new_ids [of "event_ids (usage_events s)" "map (toEvent uni) es"]
    unfolding ids by (auto simp: image_Un)
  then have "ingest_new (event_ids (usage_events t)) (map (toEvent uni) es') = []"
    by (rule ingest_new_known)
  then show ?thesis
    using repo.ingest_ok [OF assms(3) [unfolded Inr v]] first by (auto simp: Inr v)
qed

text \<open>
  With no failing statement a batch always goes through.
\<close>

lemma ingest_succeeds:
  assumes "faults s = []"
  shows "\<exists>inserted t. IngestBatch (NewRepo g conv) uni es s = (Inr (length es, inserted), t)"
proof -
  obtain k t where "Repo_InsertBatch (map (toEvent uni) es) s = (Inr k, t)"
    using Repo_InsertBatch_no_faults [OF assms] by metis
  then show ?thesis by (simp add: IngestBatch_def NewRepo_def Let_def bindR_def)
qed

section \<open>Properties: reading\<close>

text \<open>
  C18. A summary that is returned is the aggregation of exactly the stored events the window and the
  filter select, relabelled with the current hostnames; and reading changes no table.
\<close>

theorem summary_correct:
  assumes "Summary (NewRepo g conv) w grp flt now s = (Inr res, t)" "repo_inv g s"
    and "grp \<in> {GroupByActor, GroupByPath, GroupByMachine}"
  shows "\<exists>start es. WindowBounds w now = Inr (start, now)
    \<and> mset es = mset (filter (selected (e_lt g) (utc start) (utc now) flt) (usage_events s))
    \<and> res = (Aggregate es grp)\<lparr>res_Breakdown :=
               map (relabel grp (machine_hosts s)) (res_Breakdown (Aggregate es grp))\<rparr>
    \<and> same_tables s t"
  by (rule repo.summary_ok [OF assms]) blast

text \<open>
  Relabelling never loses the join key: the raw key of a row, or its key where the raw key is
  empty, is the key the events were grouped by, and the figures are untouched.
\<close>

lemma relabel_keeps_raw_key:
  assumes "rows = res_Breakdown (Aggregate es grp)" "grp \<in> {GroupByActor, GroupByPath, GroupByMachine}"
    and "label_of hosts [] = None"
  shows "map (\<lambda>r. if row_RawKey r = [] then row_Key r else row_RawKey r) (map (relabel grp hosts) rows)
       = map row_Key rows
    \<and> map row_Cost (map (relabel grp hosts) rows) = map row_Cost rows
    \<and> map row_Tokens (map (relabel grp hosts) rows) = map row_Tokens rows"
proof -
  have "(if row_RawKey (relabel grp hosts r) = [] then row_Key (relabel grp hosts r)
      else row_RawKey (relabel grp hosts r)) = row_Key r" if "r \<in> set rows" for r
  proof -
    have raw: "row_RawKey r = []"
      using Aggregate_row [OF that [unfolded assms(1)]] by (metis BreakdownRow.select_convs(2) row_of_def)
    show ?thesis
    proof (cases "row_Key r = []")
      case True
      with assms(2,3) raw show ?thesis by (auto simp: relabel_def)
    next
      case False
      with raw show ?thesis by (auto simp: relabel_def split: option.splits prod.splits)
    qed
  qed
  then show ?thesis by (simp add: comp_def)
qed

text \<open>
  The table of windows has one row for each of the seven windows, in their fixed order, each
  with the totals of exactly the events its window and the filter select.
\<close>

lemma windows_correct:
  assumes "Service_Windows (NewRepo g conv) flt now s = (Inr rows, t)" "repo_inv g s"
  shows "list_all2 (\<lambda>w row. wt_Window row = w
     \<and> (\<exists>start es. WindowBounds w now = Inr (start, now)
          \<and> mset es = mset (filter (selected (e_lt g) (utc start) (utc now) flt) (usage_events s))
          \<and> wt_Totals row = totals_of es))
     [''5h'', ''24h'', ''today'', ''week'', ''month'', ''year'', ''lifetime''] rows
    \<and> same_tables s t"
  using repo.windows_loop_ok [of g conv flt now Windows s rows t] assms
  unfolding Service_Windows_def Windows_def by simp

text \<open>
  The scan-root list has one entry per registered root, named after its machine's current
  hostname, or after the bare install id when there is none.
\<close>

lemma scan_roots_correct:
  assumes "ScanRoots (NewRepo g conv) s = (Inr out, t)" "repo_inv g s"
  shows "mset out = mset (map (\<lambda>r. \<lparr>srh_InstallID = sr_InstallID r,
           srh_Hostname = (case machine_hosts s (sr_InstallID r) of
              Some h \<Rightarrow> if h \<noteq> [] then h else sr_InstallID r | None \<Rightarrow> sr_InstallID r),
           srh_ScanRootPath = sr_ScanRootPath r, srh_Name = sr_Name r,
           srh_SourceType = sr_SourceType r\<rparr>) (scan_roots s))"
proof -
  have "mset out = mset (map (withHostname (machine_hosts s)) (scan_root_records s))"
    using repo.scan_roots_ok [OF assms] by blast
  moreover have "withHostname h (toScanRootRecord r) = \<lparr>srh_InstallID = sr_InstallID r,
      srh_Hostname = (case h (sr_InstallID r) of
        Some hn \<Rightarrow> if hn \<noteq> [] then hn else sr_InstallID r | None \<Rightarrow> sr_InstallID r),
      srh_ScanRootPath = sr_ScanRootPath r, srh_Name = sr_Name r, srh_SourceType = sr_SourceType r\<rparr>" for h r
    by (simp add: withHostname_def toScanRootRecord_def split: option.split)
  ultimately show ?thesis by (simp add: scan_root_records_def comp_def)
qed

section \<open>Concrete runs\<close>

definition sample_input :: "string \<Rightarrow> time \<Rightarrow> IngestEvent" where
  "sample_input i stamp = \<lparr>in_ID = i, in_SessionID = ''s1'', in_Actor = ''/home/a'', in_Path = ''/home/p'',
     in_Machine = ''m1'', in_Model = ''claude-opus-4-5'', in_ScanRoot = ''/root'', in_InputTokens = 10,
     in_OutputTokens = 20, in_CacheReadInputTokens = 30, in_CacheCreationInputTokens = 40,
     in_Timestamp = (stamp, 0)\<rparr>"

definition sample_repo :: "db Repository" where "sample_repo = NewRepo plain_engine (\<lambda>_. 0)"

definition sample_db :: db where
  "sample_db = (empty_db [])\<lparr>
     usage_events := [toEvent (\<lambda>s. s) (sample_input ''a'' 0)],
     machines := [\<lparr>mr_InstallID = ''m1'', mr_Hostname = ''laptop'', mr_LastSeenAt = (0, 0)\<rparr>],
     scan_roots := [\<lparr>sr_InstallID = ''m1'', sr_ScanRootPath = ''/root'', sr_Name = ''main'',
        sr_SourceType = ''claude_code'', sr_LastSeenAt = (0, 0)\<rparr>]\<rparr>"

lemma sample_inv: "repo_inv plain_engine sample_db" "repo_inv plain_engine (empty_db fs)"
  by (simp_all add: repo_inv_def plain_engine_ok sample_db_def usage_db_ok_def empty_db_def)

lemma sample_ingest:
  "IngestBatch sample_repo (\<lambda>s. s) [sample_input ''b'' 0, sample_input ''a'' 0, sample_input ''b'' 5] sample_db
   = (Inr (3, 1), sample_db\<lparr>usage_events := [toEvent (\<lambda>s. s) (sample_input ''a'' 0),
        toEvent (\<lambda>s. s) (sample_input ''b'' 0)]\<rparr>)"
  by (simp add: IngestBatch_def sample_repo_def NewRepo_def Repo_InsertBatch_def
      db_InsertUsageEventIgnoreDuplicate_def stmt_def bindR_def sample_db_def empty_db_def toEvent_def
      sample_input_def)

theorem ingest_exact_witness:
  "event_ids (usage_events (sample_db\<lparr>usage_events := [toEvent (\<lambda>s. s) (sample_input ''a'' 0),
     toEvent (\<lambda>s. s) (sample_input ''b'' 0)]\<rparr>)) = event_ids (usage_events sample_db) \<union> {''b'', ''a''}"
proof -
  have "event_ids (usage_events (sample_db\<lparr>usage_events := [toEvent (\<lambda>s. s) (sample_input ''a'' 0),
     toEvent (\<lambda>s. s) (sample_input ''b'' 0)]\<rparr>)) = event_ids (usage_events sample_db)
     \<union> in_ID ` set [sample_input ''b'' 0, sample_input ''a'' 0, sample_input ''b'' 5]"
    using ingest_exact [OF sample_ingest [unfolded sample_repo_def] sample_inv(1)] by blast
  moreover have "in_ID ` set [sample_input ''b'' 0, sample_input ''a'' 0, sample_input ''b'' 5] = {''b'', ''a''}"
    by (simp add: sample_input_def insert_commute)
  ultimately show ?thesis by (simp only:)
qed

theorem ingest_atomic_witness:
  "same_tables (empty_db [False, False, True, False]) (snd (IngestBatch sample_repo (\<lambda>s. s)
     [sample_input ''a'' 0, sample_input ''b'' 0] (empty_db [False, False, True, False])))"
proof -
  have "IngestBatch sample_repo (\<lambda>s. s) [sample_input ''a'' 0, sample_input ''b'' 0]
      (empty_db [False, False, True, False]) = (Inl DriverErr, empty_db [])"
    by (simp add: IngestBatch_def sample_repo_def NewRepo_def Repo_InsertBatch_def restore_def
      db_InsertUsageEventIgnoreDuplicate_def stmt_def bindR_def empty_db_def toEvent_def sample_input_def)
  then show ?thesis using ingest_atomic unfolding sample_repo_def by (metis snd_conv)
qed

theorem ingest_idempotent_witness:
  "\<exists>t u. IngestBatch sample_repo (\<lambda>s. s) [sample_input ''b'' 0, sample_input ''a'' 0, sample_input ''b'' 5] sample_db
      = (Inr (3, 1), t)
    \<and> IngestBatch sample_repo (\<lambda>s. s) [sample_input ''b'' 7] t = (Inr (1, 0), u) \<and> usage_events u = usage_events t"
proof -
  let ?t = "sample_db\<lparr>usage_events := [toEvent (\<lambda>s. s) (sample_input ''a'' 0), toEvent (\<lambda>s. s) (sample_input ''b'' 0)]\<rparr>"
  have "faults ?t = []" by (simp add: sample_db_def empty_db_def)
  then obtain ins u where "Repo_InsertBatch (map (toEvent (\<lambda>s. s)) [sample_input ''b'' 7]) ?t = (Inr ins, u)"
    using Repo_InsertBatch_no_faults by metis
  then have run: "IngestBatch sample_repo (\<lambda>s. s) [sample_input ''b'' 7] ?t = (Inr (1, ins), u)"
    by (simp add: IngestBatch_def sample_repo_def NewRepo_def bindR_def)
  have "in_ID ` set [sample_input ''b'' 7] \<subseteq> in_ID ` set [sample_input ''b'' 0, sample_input ''a'' 0, sample_input ''b'' 5]"
    by (simp add: sample_input_def)
  from ingest_idempotent [OF sample_ingest [unfolded sample_repo_def] sample_inv(1) run [unfolded sample_repo_def] this]
  have "usage_events u = usage_events ?t" "ins = 0" by simp_all
  with run sample_ingest show ?thesis by blast
qed

theorem ingest_succeeds_witness:
  "\<exists>inserted t. IngestBatch sample_repo (\<lambda>s. s) [sample_input ''z'' 0] sample_db = (Inr (1, inserted), t)"
  using ingest_succeeds [of sample_db plain_engine "\<lambda>_. 0" "\<lambda>s. s" "[sample_input ''z'' 0]"]
  by (simp add: sample_repo_def sample_db_def empty_db_def)

lemma sample_summary:
  "\<exists>res. Summary sample_repo ''5h'' GroupByMachine no_filter 1 sample_db = (Inr res, sample_db)"
  by (simp add: Summary_eq window_starts sample_repo_def NewRepo_def Repo_ListEventsInWindow_def
      buildListEventsInWindowParams_def no_filter_def nullableFilterArg_def db_ListUsageEventsInWindow_def
      select_def stmt_def bindR_def sample_db_def empty_db_def relabel_pass_def Repo_MachineHostnames_def
      db_ListMachines_def Let_def)

theorem summary_correct_witness:
  "\<exists>res es. Summary sample_repo ''5h'' GroupByMachine no_filter 1 sample_db = (Inr res, sample_db)
     \<and> es = [toEvent (\<lambda>s. s) (sample_input ''a'' 0)] \<and> res_Totals res = totals_of es"
proof -
  obtain res where run: "Summary sample_repo ''5h'' GroupByMachine no_filter 1 sample_db = (Inr res, sample_db)"
    using sample_summary by blast
  have sel: "filter (selected (e_lt plain_engine) (utc (1 - 5 * hour)) (utc 1) no_filter) (usage_events sample_db)
      = [toEvent (\<lambda>s. s) (sample_input ''a'' 0)]"
    by (simp add: selected_def plain_engine_def utc_def no_filter_def sample_db_def toEvent_def sample_input_def)
  obtain start es where "WindowBounds ''5h'' 1 = Inr (start, 1)"
    "mset es = mset (filter (selected (e_lt plain_engine) (utc start) (utc 1) no_filter) (usage_events sample_db))"
    "res_Totals res = totals_of es"
    using summary_correct [OF run [unfolded sample_repo_def] sample_inv(1)] by (auto simp: Aggregate_totals)
  moreover from this(1) have "start = 1 - 5 * hour" by (simp add: window_starts)
  ultimately have "mset es = mset [toEvent (\<lambda>s. s) (sample_input ''a'' 0)]" "res_Totals res = totals_of es"
    by (simp_all only: sel)
  then have "es = [toEvent (\<lambda>s. s) (sample_input ''a'' 0)]" "res_Totals res = totals_of es" by simp_all
  with run show ?thesis by blast
qed

theorem relabel_keeps_raw_key_witness:
  "map (\<lambda>r. if row_RawKey r = [] then row_Key r else row_RawKey r)
     (map (relabel GroupByMachine (machine_hosts sample_db))
       (res_Breakdown (Aggregate (usage_events sample_db) GroupByMachine)))
   = map row_Key (res_Breakdown (Aggregate (usage_events sample_db) GroupByMachine))"
  using relabel_keeps_raw_key [OF refl, of GroupByMachine "machine_hosts sample_db" "usage_events sample_db"]
  by (simp add: label_of_def machine_hosts_def sample_db_def)

lemma windows_correct_witness:
  "\<exists>rows. Service_Windows sample_repo no_filter 1 sample_db = (Inr rows, sample_db) \<and> length rows = 7"
proof -
  have "\<exists>rows. Service_Windows_loop sample_repo no_filter 1 ws sample_db = (Inr rows, sample_db)"
    if "set ws \<subseteq> set Windows" for ws
    using that
  proof (induction ws)
    case (Cons w ws)
    then obtain rows where "Service_Windows_loop sample_repo no_filter 1 ws sample_db = (Inr rows, sample_db)"
      by auto
    moreover obtain start where "WindowBounds w 1 = Inr (start, 1)"
      using window_parse_bounds [of w 1] Cons.prems by auto
    moreover obtain es where "ListEventsInWindow sample_repo (utc start) (utc 1) no_filter sample_db = (Inr es, sample_db)"
      using Repo_ListEventsInWindow_no_faults [of sample_db plain_engine "utc start" "utc 1" no_filter]
      by (auto simp: sample_repo_def NewRepo_def sample_db_def empty_db_def)
    ultimately show ?case by (simp add: bindR_def)
  qed simp
  then obtain rows where run: "Service_Windows sample_repo no_filter 1 sample_db = (Inr rows, sample_db)"
    unfolding Service_Windows_def by blast
  with windows_correct [OF run [unfolded sample_repo_def] sample_inv(1)] show ?thesis
    by (auto dest: list_all2_lengthD)
qed

lemma scan_roots_correct_witness:
  "\<exists>out. ScanRoots sample_repo sample_db = (Inr out, sample_db) \<and> map srh_Hostname out = [''laptop'']"
proof -
  obtain out where run: "ScanRoots sample_repo sample_db = (Inr out, sample_db)"
    by (simp add: ScanRoots_def sample_repo_def NewRepo_def Repo_ListScanRoots_def db_ListScanRoots_def
        select_def stmt_def bindR_def sample_db_def empty_db_def Repo_MachineHostnames_def db_ListMachines_def
        plain_engine_def)
  have "mset out = {#\<lparr>srh_InstallID = ''m1'', srh_Hostname = ''laptop'', srh_ScanRootPath = ''/root'',
      srh_Name = ''main'', srh_SourceType = ''claude_code''\<rparr>#}"
    using scan_roots_correct [OF run [unfolded sample_repo_def] sample_inv(1)]
    by (simp add: sample_db_def machine_hosts_def)
  with run show ?thesis by auto
qed

theorem machine_summaries_correct_witness:
  "\<exists>rows. ListMachineSummaries sample_repo sample_db = (Inr rows, sample_db)
     \<and> mset (map sum_InstallID rows) = {#''m1''#} \<and> (\<forall>r \<in> set rows. sum_LifetimeTokens r = 100)"
proof -
  have life: "lifetime_tokens ''m1'' sample_db = 100"
    by (simp add: lifetime_tokens_def machine_events_def sample_db_def toEvent_def sample_input_def
        event_counters_def tokens4_def)
  obtain rows where run: "ListMachineSummaries sample_repo sample_db = (Inr rows, sample_db)"
    by (simp add: sample_repo_def NewRepo_def Repo_ListMachineSummaries_def db_ListMachineSummaries_def
        stmt_def bindR_def sample_db_def empty_db_def plain_engine_def summary_row_def Let_def toEvent_def
        sample_input_def)
  have nn: "\<forall>e \<in> set (usage_events sample_db). nonneg4 (event_counters e)"
    by (simp add: sample_db_def toEvent_def sample_input_def event_counters_def nonneg4_def)
  have m: "machines sample_db = [\<lparr>mr_InstallID = ''m1'', mr_Hostname = ''laptop'', mr_LastSeenAt = (0, 0)\<rparr>]"
    by (simp add: sample_db_def)
  have small: "\<forall>m \<in> set (machines sample_db). lifetime_tokens (mr_InstallID m) sample_db < 2 ^ 63"
    and zone: "\<forall>m \<in> set (machines sample_db). snd (mr_LastSeenAt m) = 0" by (simp_all add: m life)
  note c = machine_summaries_correct [OF run [unfolded sample_repo_def] plain_engine_ok nn small zone]
  then have "mset (map sum_InstallID rows) = {#''m1''#}" by (simp add: m)
  moreover have "\<forall>r \<in> set rows. sum_LifetimeTokens r = 100" using c by (simp add: m life)
  ultimately show ?thesis using run by (intro exI conjI)
qed

theorem window_query_exact_witness:
  "\<exists>es. ListEventsInWindow sample_repo (0, 0) (1, 0) \<lparr>f_Machine = ''m1'', f_ScanRoot = ''m1:/root''\<rparr> sample_db
      = (Inr es, sample_db) \<and> mset es = mset (usage_events sample_db)"
proof -
  let ?f = "\<lparr>f_Machine = ''m1'', f_ScanRoot = ''m1:/root''\<rparr>"
  obtain es where run: "ListEventsInWindow sample_repo (0, 0) (1, 0) ?f sample_db = (Inr es, sample_db)"
    using Repo_ListEventsInWindow_no_faults [of sample_db plain_engine "(0, 0)" "(1, 0)" ?f]
    by (auto simp: sample_repo_def NewRepo_def sample_db_def empty_db_def)
  from window_query_exact [OF run [unfolded sample_repo_def] plain_engine_ok]
  have "mset es = mset (usage_events sample_db)"
    by (simp add: sample_db_def in_window_def toEvent_def sample_input_def)
  with run show ?thesis by blast
qed

end
