(* ===== verification/Identity_Repo.thy ===== *)
theory Identity_Repo
  imports Database
begin

text \<open>
  src/internal/identity/repo.go over the statements of src/internal/db on \<open>users\<close> and
  \<open>api_keys\<close>: lookups, creation, listing and revocation. The ids \<open>uuid.NewString()\<close> gives and the
  time \<open>time.Now().UTC()\<close> reads are arguments.
\<close>

section \<open>The domain's own records\<close>

record User =
  usr_ID :: string
  usr_Handle :: string
  usr_Role :: string
  usr_Active :: bool
  usr_SSOSubject :: string
  usr_CreatedAt :: time
  usr_UpdatedAt :: time

record APIKey =
  key_ID :: string
  key_UserID :: string
  key_KeyHash :: string
  key_KeyPrefix :: string
  key_CreatedAt :: time
  key_ExpiresAt :: time
  key_RevokedAt :: "time option"
  key_Handle :: "string option"

text \<open>The string of a \<open>sql.NullString\<close> that is not valid is empty.\<close>

definition userFromRow :: "UserRow \<Rightarrow> User" where
  "userFromRow row = \<lparr>usr_ID = u_ID row, usr_Handle = u_Handle row, usr_Role = u_Role row,
     usr_Active = u_Active row,
     usr_SSOSubject = (case u_SsoSubject row of Some s \<Rightarrow> s | None \<Rightarrow> []),
     usr_CreatedAt = u_CreatedAt row, usr_UpdatedAt = u_UpdatedAt row\<rparr>"

definition apiKeyFromRow :: "ApiKeyRow \<Rightarrow> APIKey" where
  "apiKeyFromRow row = \<lparr>key_ID = k_ID row, key_UserID = k_UserID row, key_KeyHash = k_KeyHash row,
     key_KeyPrefix = k_KeyPrefix row, key_CreatedAt = k_CreatedAt row, key_ExpiresAt = k_ExpiresAt row,
     key_RevokedAt = k_RevokedAt row, key_Handle = None\<rparr>"

section \<open>Statements\<close>

text \<open>\<open>COLLATE NOCASE\<close> folds the ASCII letters.\<close>

definition nocase :: "string \<Rightarrow> string" where "nocase s = map ascii_lower s"

text \<open>A \<open>:one\<close> query: \<open>sql.ErrNoRows\<close> when nothing matches.\<close>

definition select_one :: "(db \<Rightarrow> 'a list) \<Rightarrow> ('a \<Rightarrow> bool) \<Rightarrow> (db, go_error, 'a) io" where
  "select_one table P = stmt (\<lambda>s. case find P (table s) of
     None \<Rightarrow> (Inl NoRows, s) | Some row \<Rightarrow> (Inr row, s))"

definition db_GetUserByID :: "string \<Rightarrow> (db, go_error, UserRow) io" where
  "db_GetUserByID i = select_one users (\<lambda>u. u_ID u = i)"

definition db_GetUserByHandle :: "string \<Rightarrow> (db, go_error, UserRow) io" where
  "db_GetUserByHandle h = select_one users (\<lambda>u. nocase (u_Handle u) = nocase h)"

definition db_GetUserBySSOSubject :: "string option \<Rightarrow> (db, go_error, UserRow) io" where
  "db_GetUserBySSOSubject sub = select_one users (\<lambda>u. sub \<noteq> None \<and> u_SsoSubject u = sub)"

text \<open>The primary key and the two unique indices.\<close>

definition user_conflict :: "UserRow \<Rightarrow> UserRow \<Rightarrow> bool" where
  "user_conflict a b \<longleftrightarrow> u_ID a = u_ID b \<or> nocase (u_Handle a) = nocase (u_Handle b)
     \<or> (u_SsoSubject a \<noteq> None \<and> u_SsoSubject a = u_SsoSubject b)"

definition db_CreateUser :: "UserRow \<Rightarrow> (db, go_error, UserRow) io" where
  "db_CreateUser row = stmt (\<lambda>s.
     if list_ex (user_conflict row) (users s) then (Inl UniqueErr, s)
     else (Inr row, s\<lparr>users := users s @ [row]\<rparr>))"

definition db_ListActiveUsers :: "(db, go_error, UserRow list) io" where
  "db_ListActiveUsers = select (\<lambda>s.
     sort_stable (\<lambda>a b. nocase (u_Handle a) < nocase (u_Handle b)) (filter u_Active (users s)))"

definition db_GetAPIKeyByHash :: "string \<Rightarrow> (db, go_error, ApiKeyRow) io" where
  "db_GetAPIKeyByHash h = select_one api_keys (\<lambda>k. k_KeyHash k = h)"

definition key_conflict :: "ApiKeyRow \<Rightarrow> ApiKeyRow \<Rightarrow> bool" where
  "key_conflict a b \<longleftrightarrow> k_ID a = k_ID b \<or> k_KeyHash a = k_KeyHash b"

definition db_CreateAPIKey :: "ApiKeyRow \<Rightarrow> (db, go_error, ApiKeyRow) io" where
  "db_CreateAPIKey row = stmt (\<lambda>s.
     if list_ex (key_conflict row) (api_keys s) then (Inl UniqueErr, s)
     else (Inr row, s\<lparr>api_keys := api_keys s @ [row]\<rparr>))"

definition newest_first :: "engine \<Rightarrow> ApiKeyRow list \<Rightarrow> ApiKeyRow list" where
  "newest_first g ks = sort_stable (\<lambda>a b. k_CreatedAt b < k_CreatedAt a) (e_keys g ks)"

definition db_ListAPIKeysByOwner :: "engine \<Rightarrow> string \<Rightarrow> (db, go_error, ApiKeyRow list) io" where
  "db_ListAPIKeysByOwner g userID = select (\<lambda>s.
     newest_first g (filter (\<lambda>k. k_UserID k = userID \<and> k_RevokedAt k = None) (api_keys s)))"

text \<open>\<open>UPDATE api_keys SET revoked_at = ? WHERE ... AND revoked_at IS NULL RETURNING *\<close>.\<close>

definition revoke_where :: "(ApiKeyRow \<Rightarrow> bool) \<Rightarrow> time \<Rightarrow> (db, go_error, ApiKeyRow) io" where
  "revoke_where P now = stmt (\<lambda>s.
     case find (\<lambda>k. P k \<and> k_RevokedAt k = None) (api_keys s) of
       None \<Rightarrow> (Inl NoRows, s)
     | Some k \<Rightarrow> (Inr (k\<lparr>k_RevokedAt := Some now\<rparr>), s\<lparr>api_keys := map (\<lambda>k.
         if P k \<and> k_RevokedAt k = None then k\<lparr>k_RevokedAt := Some now\<rparr> else k) (api_keys s)\<rparr>))"

definition db_RevokeAPIKey :: "time \<Rightarrow> string \<Rightarrow> string \<Rightarrow> (db, go_error, ApiKeyRow) io" where
  "db_RevokeAPIKey now i userID = revoke_where (\<lambda>k. k_ID k = i \<and> k_UserID k = userID) now"

definition db_RevokeAPIKeyByID :: "time \<Rightarrow> string \<Rightarrow> (db, go_error, ApiKeyRow) io" where
  "db_RevokeAPIKeyByID now i = revoke_where (\<lambda>k. k_ID k = i) now"

text \<open>The join: a row per key and user with that id, of role agent.\<close>

definition db_ListAllAgentAPIKeys :: "engine \<Rightarrow> (db, go_error, (ApiKeyRow \<times> string) list) io" where
  "db_ListAllAgentAPIKeys g = select (\<lambda>s. concat (map (\<lambda>k.
     map (\<lambda>u. (k, u_Handle u)) (filter (\<lambda>u. u_ID u = k_UserID k \<and> u_Role u = ''agent'') (users s)))
       (newest_first g (filter (\<lambda>k. k_RevokedAt k = None) (api_keys s)))))"

section \<open>The methods of Repo\<close>

text \<open>\<open>sql.ErrNoRows\<close> becomes the package's sentinel; any other error passes through.\<close>

definition not_found :: "('a \<Rightarrow> 'b) \<Rightarrow> (db, go_error, 'a) io \<Rightarrow> (db, go_error, 'b) io" where
  "not_found f m s = (case m s of
     (Inl e, t) \<Rightarrow> (Inl (if errors_Is e NoRows then ErrNotFound else e), t)
   | (Inr row, t) \<Rightarrow> (Inr (f row), t))"

definition Repo_GetUserByID :: "string \<Rightarrow> (db, go_error, User) io" where
  "Repo_GetUserByID i = not_found userFromRow (db_GetUserByID i)"

definition Repo_GetUserByHandle :: "string \<Rightarrow> (db, go_error, User) io" where
  "Repo_GetUserByHandle h = not_found userFromRow (db_GetUserByHandle h)"

definition Repo_GetUserBySSOSubject :: "string \<Rightarrow> (db, go_error, User) io" where
  "Repo_GetUserBySSOSubject sub = not_found userFromRow (db_GetUserBySSOSubject (Some sub))"

definition Repo_CreateUser :: "string \<Rightarrow> time \<Rightarrow> string \<Rightarrow> string \<Rightarrow> string option \<Rightarrow> (db, go_error, User) io" where
  "Repo_CreateUser uuid now handle role ssoSubject =
     bindR (db_CreateUser \<lparr>u_ID = uuid, u_Handle = handle, u_Role = role, u_Active = True,
       u_SsoSubject = ssoSubject, u_CreatedAt = now, u_UpdatedAt = now\<rparr>) (\<lambda>row. returnR (userFromRow row))"

definition Repo_ListActiveUsers :: "(db, go_error, User list) io" where
  "Repo_ListActiveUsers = bindR db_ListActiveUsers (\<lambda>rows. returnR (map userFromRow rows))"

definition Repo_GetAPIKeyByHash :: "string \<Rightarrow> (db, go_error, APIKey) io" where
  "Repo_GetAPIKeyByHash h = not_found apiKeyFromRow (db_GetAPIKeyByHash h)"

definition Repo_CreateAPIKey ::
    "string \<Rightarrow> time \<Rightarrow> string \<Rightarrow> string \<Rightarrow> string \<Rightarrow> time \<Rightarrow> (db, go_error, APIKey) io" where
  "Repo_CreateAPIKey uuid now userID keyHash keyPrefix expiresAt =
     bindR (db_CreateAPIKey \<lparr>k_ID = uuid, k_UserID = userID, k_KeyHash = keyHash, k_KeyPrefix = keyPrefix,
       k_CreatedAt = now, k_ExpiresAt = expiresAt, k_RevokedAt = None\<rparr>) (\<lambda>row. returnR (apiKeyFromRow row))"

definition Repo_ListAPIKeysByOwner :: "engine \<Rightarrow> string \<Rightarrow> (db, go_error, APIKey list) io" where
  "Repo_ListAPIKeysByOwner g userID =
     bindR (db_ListAPIKeysByOwner g userID) (\<lambda>rows. returnR (map apiKeyFromRow rows))"

definition Repo_RevokeAPIKey :: "time \<Rightarrow> string \<Rightarrow> string \<Rightarrow> (db, go_error, APIKey) io" where
  "Repo_RevokeAPIKey now i userID = not_found apiKeyFromRow (db_RevokeAPIKey now i userID)"

definition Repo_ListAllAgentAPIKeys :: "engine \<Rightarrow> (db, go_error, APIKey list) io" where
  "Repo_ListAllAgentAPIKeys g = bindR (db_ListAllAgentAPIKeys g) (\<lambda>rows. returnR (map (\<lambda>(row, handle).
     (apiKeyFromRow row)\<lparr>key_Handle := Some handle\<rparr>) rows))"

definition Repo_RevokeAPIKeyByID :: "time \<Rightarrow> string \<Rightarrow> (db, go_error, APIKey) io" where
  "Repo_RevokeAPIKeyByID now i = not_found apiKeyFromRow (db_RevokeAPIKeyByID now i)"

text \<open>The loop of \<open>DisableOtherAPIKeys\<close>. The source returns the count reached beside an error;
  its only caller discards that count, and so does the error branch here.\<close>

fun disable_loop :: "time \<Rightarrow> string \<Rightarrow> string \<Rightarrow> APIKey list \<Rightarrow> nat \<Rightarrow> (db, go_error, nat) io" where
  "disable_loop now userID keepID [] n s = (Inr n, s)"
| "disable_loop now userID keepID (key # live) n s =
     (if key_ID key = keepID then disable_loop now userID keepID live n s
      else case Repo_RevokeAPIKey now (key_ID key) userID s of
             (Inl e, t) \<Rightarrow> (Inl e, t)
           | (Inr _, t) \<Rightarrow> disable_loop now userID keepID live (n + 1) t)"

definition Repo_DisableOtherAPIKeys :: "engine \<Rightarrow> time \<Rightarrow> string \<Rightarrow> string \<Rightarrow> (db, go_error, nat) io" where
  "Repo_DisableOtherAPIKeys g now userID keepID =
     bindR (Repo_ListAPIKeysByOwner g userID) (\<lambda>live. disable_loop now userID keepID live 0)"

section \<open>The invariant of the tables\<close>

definition users_ok :: "UserRow list \<Rightarrow> bool" where
  "users_ok us \<longleftrightarrow> distinct (map u_ID us) \<and> distinct (map (\<lambda>u. nocase (u_Handle u)) us)
     \<and> distinct (filter (\<lambda>o'. o' \<noteq> None) (map u_SsoSubject us))"

definition keys_ok :: "ApiKeyRow list \<Rightarrow> bool" where
  "keys_ok ks \<longleftrightarrow> distinct (map k_ID ks) \<and> distinct (map k_KeyHash ks)"

definition identity_db_ok :: "db \<Rightarrow> bool" where
  "identity_db_ok s \<longleftrightarrow> users_ok (users s) \<and> keys_ok (api_keys s)"

lemma identity_db_ok_same: "same_tables s t \<Longrightarrow> identity_db_ok t \<longleftrightarrow> identity_db_ok s"
  by (simp add: identity_db_ok_def same_tables_eq)

lemma identity_db_ok_empty [simp]: "identity_db_ok (empty_db fs)"
  by (simp add: identity_db_ok_def users_ok_def keys_ok_def empty_db_def)

section \<open>Reads\<close>

lemma select_one_cases:
  assumes "select_one table P s = (r, t)" "\<And>u. same_tables s u \<Longrightarrow> table u = table s"
  obtains (err) "r = Inl DriverErr" "same_tables s t"
  | (none) "r = Inl NoRows" "find P (table s) = None" "same_tables s t"
  | (some) row where "r = Inr row" "find P (table s) = Some row" "same_tables s t"
  using assms(1) unfolding select_one_def
proof (cases rule: stmt_cases)
  case (fail bs)
  then show ?thesis by (intro that(1)) simp_all
next
  case (ok s')
  show ?thesis
  proof (cases "find P (table s')")
    case None
    with ok assms(2) [OF ok(1)] show ?thesis by (intro that(2)) auto
  next
    case (Some row)
    with ok assms(2) [OF ok(1)] show ?thesis by (intro that(3) [of row]) auto
  qed
qed

lemma not_found_cases:
  assumes "not_found f m s = (r, t)"
  obtains (err) e where "m s = (Inl e, t)" "r = Inl (if errors_Is e NoRows then ErrNotFound else e)"
  | (ok) x where "m s = (Inr x, t)" "r = Inr (f x)"
  using assms by (auto simp: not_found_def split: prod.splits sum.splits)

text \<open>A lookup that is \<open>not_found\<close> of \<open>select_one\<close>.\<close>

lemma lookup_cases:
  assumes "not_found f (select_one table P) s = (r, t)" "\<And>u. same_tables s u \<Longrightarrow> table u = table s"
  obtains (err) "r = Inl DriverErr" "same_tables s t"
  | (none) "r = Inl ErrNotFound" "find P (table s) = None" "same_tables s t"
  | (some) row where "r = Inr (f row)" "find P (table s) = Some row" "same_tables s t"
  using assms(1)
proof (cases rule: not_found_cases)
  case (err e)
  from err(1) assms(2) show ?thesis
    by (cases rule: select_one_cases) (use err that in auto)
next
  case (ok x)
  from ok(1) assms(2) show ?thesis
    by (cases rule: select_one_cases) (use ok that in auto)
qed

text \<open>What each of the four lookups finds.\<close>

definition find_user_id :: "db \<Rightarrow> string \<Rightarrow> UserRow option" where
  "find_user_id s i = find (\<lambda>u. u_ID u = i) (users s)"
definition find_user_handle :: "db \<Rightarrow> string \<Rightarrow> UserRow option" where
  "find_user_handle s h = find (\<lambda>u. nocase (u_Handle u) = nocase h) (users s)"
definition find_user_sub :: "db \<Rightarrow> string \<Rightarrow> UserRow option" where
  "find_user_sub s sub = find (\<lambda>u. u_SsoSubject u = Some sub) (users s)"
definition find_key_hash :: "db \<Rightarrow> string \<Rightarrow> ApiKeyRow option" where
  "find_key_hash s h = find (\<lambda>k. k_KeyHash k = h) (api_keys s)"

text \<open>The answer of a lookup whose result is known: the row, \<open>ErrNotFound\<close>, or a driver error.\<close>

definition lookup_result :: "('a \<Rightarrow> 'b) \<Rightarrow> 'a option \<Rightarrow> go_error + 'b \<Rightarrow> bool" where
  "lookup_result f o' r \<longleftrightarrow> r = Inl DriverErr
     \<or> r = (case o' of Some row \<Rightarrow> Inr (f row) | None \<Rightarrow> Inl ErrNotFound)"

lemma lookup_runs:
  assumes "not_found f (select_one table P) s = (r, t)" "\<And>u. same_tables s u \<Longrightarrow> table u = table s"
  shows "lookup_result f (find P (table s)) r \<and> same_tables s t"
  by (rule lookup_cases [OF assms]) (auto simp: lookup_result_def)

lemma GetUserByID_runs:
  "Repo_GetUserByID i s = (r, t) \<Longrightarrow> lookup_result userFromRow (find_user_id s i) r \<and> same_tables s t"
  unfolding Repo_GetUserByID_def db_GetUserByID_def find_user_id_def
  by (erule lookup_runs) (rule same_tables_eq)

lemma GetUserByHandle_runs:
  "Repo_GetUserByHandle h s = (r, t) \<Longrightarrow> lookup_result userFromRow (find_user_handle s h) r \<and> same_tables s t"
  unfolding Repo_GetUserByHandle_def db_GetUserByHandle_def find_user_handle_def
  by (erule lookup_runs) (rule same_tables_eq)

lemma GetUserBySSOSubject_runs:
  "Repo_GetUserBySSOSubject sub s = (r, t) \<Longrightarrow> lookup_result userFromRow (find_user_sub s sub) r \<and> same_tables s t"
  unfolding Repo_GetUserBySSOSubject_def db_GetUserBySSOSubject_def find_user_sub_def
  using lookup_runs [of userFromRow users "\<lambda>u. u_SsoSubject u = Some sub"] same_tables_eq(4) by simp

lemma GetAPIKeyByHash_runs:
  "Repo_GetAPIKeyByHash h s = (r, t) \<Longrightarrow> lookup_result apiKeyFromRow (find_key_hash s h) r \<and> same_tables s t"
  unfolding Repo_GetAPIKeyByHash_def db_GetAPIKeyByHash_def find_key_hash_def
  by (erule lookup_runs) (rule same_tables_eq)

text \<open>Without a failing statement a lookup gives its answer.\<close>

lemma lookups_no_faults:
  assumes "faults s = []"
  shows "Repo_GetUserByID i s = (case find_user_id s i of Some u \<Rightarrow> Inr (userFromRow u) | None \<Rightarrow> Inl ErrNotFound, s)"
    and "Repo_GetUserByHandle h s = (case find_user_handle s h of Some u \<Rightarrow> Inr (userFromRow u) | None \<Rightarrow> Inl ErrNotFound, s)"
    and "Repo_GetUserBySSOSubject sub s = (case find_user_sub s sub of Some u \<Rightarrow> Inr (userFromRow u) | None \<Rightarrow> Inl ErrNotFound, s)"
    and "Repo_GetAPIKeyByHash h s = (case find_key_hash s h of Some k \<Rightarrow> Inr (apiKeyFromRow k) | None \<Rightarrow> Inl ErrNotFound, s)"
  using assms
  by (simp_all add: Repo_GetUserByID_def Repo_GetUserByHandle_def Repo_GetUserBySSOSubject_def
      Repo_GetAPIKeyByHash_def db_GetUserByID_def db_GetUserByHandle_def db_GetUserBySSOSubject_def
      db_GetAPIKeyByHash_def select_one_def stmt_no_faults not_found_def find_user_id_def
      find_user_handle_def find_user_sub_def find_key_hash_def split: option.split)

section \<open>Writes\<close>

lemma CreateAPIKey_cases:
  assumes "Repo_CreateAPIKey uuid now userID h p ex s = (r, t)"
  obtains (err) e where "r = Inl e" "same_tables s t"
  | (ok) s' row where "row = \<lparr>k_ID = uuid, k_UserID = userID, k_KeyHash = h, k_KeyPrefix = p,
       k_CreatedAt = now, k_ExpiresAt = ex, k_RevokedAt = None\<rparr>" "r = Inr (apiKeyFromRow row)"
      "same_tables s s'" "t = s'\<lparr>api_keys := api_keys s @ [row]\<rparr>"
      "uuid \<notin> k_ID ` set (api_keys s)" "h \<notin> k_KeyHash ` set (api_keys s)"
proof -
  let ?row = "\<lparr>k_ID = uuid, k_UserID = userID, k_KeyHash = h, k_KeyPrefix = p,
       k_CreatedAt = now, k_ExpiresAt = ex, k_RevokedAt = None\<rparr>"
  obtain q u where d: "db_CreateAPIKey ?row s = (q, u)" by fastforce
  then have run: "stmt (\<lambda>s. if list_ex (key_conflict ?row) (api_keys s) then (Inl UniqueErr, s)
     else (Inr ?row, s\<lparr>api_keys := api_keys s @ [?row]\<rparr>)) s = (q, u)" by (simp add: db_CreateAPIKey_def)
  have r: "r = (case q of Inl e \<Rightarrow> Inl e | Inr row \<Rightarrow> Inr (apiKeyFromRow row))" "t = u"
    using assms d by (auto simp: Repo_CreateAPIKey_def bindR_def split: sum.splits)
  from run show thesis
  proof (cases rule: stmt_cases)
    case (fail bs)
    with r show thesis by (intro err) simp_all
  next
    case stmt_ok: (ok s')
    show thesis
    proof (cases "list_ex (key_conflict ?row) (api_keys s')")
      case True
      with stmt_ok r show thesis by (intro err [of UniqueErr]) auto
    next
      case False
      then have "uuid \<notin> k_ID ` set (api_keys s')" "h \<notin> k_KeyHash ` set (api_keys s')"
        by (auto simp: list_ex_iff key_conflict_def)
      with False stmt_ok r show thesis by (intro ok [of ?row s']) (auto simp: same_tables_eq)
    qed
  qed
qed

lemma CreateUser_cases:
  assumes "Repo_CreateUser uuid now handle role sub s = (r, t)"
  obtains (err) e where "r = Inl e" "same_tables s t"
  | (ok) s' row where "row = \<lparr>u_ID = uuid, u_Handle = handle, u_Role = role, u_Active = True,
       u_SsoSubject = sub, u_CreatedAt = now, u_UpdatedAt = now\<rparr>" "r = Inr (userFromRow row)"
      "same_tables s s'" "t = s'\<lparr>users := users s @ [row]\<rparr>"
      "\<not> list_ex (user_conflict row) (users s)"
proof -
  let ?row = "\<lparr>u_ID = uuid, u_Handle = handle, u_Role = role, u_Active = True,
       u_SsoSubject = sub, u_CreatedAt = now, u_UpdatedAt = now\<rparr>"
  obtain q u where d: "db_CreateUser ?row s = (q, u)" by fastforce
  then have run: "stmt (\<lambda>s. if list_ex (user_conflict ?row) (users s) then (Inl UniqueErr, s)
     else (Inr ?row, s\<lparr>users := users s @ [?row]\<rparr>)) s = (q, u)" by (simp add: db_CreateUser_def)
  have r: "r = (case q of Inl e \<Rightarrow> Inl e | Inr row \<Rightarrow> Inr (userFromRow row))" "t = u"
    using assms d by (auto simp: Repo_CreateUser_def bindR_def split: sum.splits)
  from run show thesis
  proof (cases rule: stmt_cases)
    case (fail bs)
    with r show thesis by (intro err) simp_all
  next
    case stmt_ok: (ok s')
    show thesis
    proof (cases "list_ex (user_conflict ?row) (users s')")
      case True
      with stmt_ok r show thesis by (intro err [of UniqueErr]) auto
    next
      case False
      with stmt_ok r show thesis by (intro ok [of ?row s']) (auto simp: same_tables_eq)
    qed
  qed
qed

text \<open>Revocation of the one live key with an id; with unique ids the update touches one row.\<close>

definition revoke_row :: "string \<Rightarrow> time \<Rightarrow> ApiKeyRow list \<Rightarrow> ApiKeyRow list" where
  "revoke_row i now ks = map (\<lambda>k. if k_ID k = i then k\<lparr>k_RevokedAt := Some now\<rparr> else k) ks"

lemma revoke_where_cases:
  assumes "not_found apiKeyFromRow (revoke_where (\<lambda>k. k_ID k = i \<and> Q k) now) s = (r, t)" "keys_ok (api_keys s)"
  obtains (err) "r = Inl DriverErr" "same_tables s t"
  | (none) "r = Inl ErrNotFound" "same_tables s t"
      "\<forall>k \<in> set (api_keys s). k_ID k = i \<longrightarrow> Q k \<longrightarrow> k_RevokedAt k \<noteq> None"
  | (ok) s' k where "r = Inr (apiKeyFromRow (k\<lparr>k_RevokedAt := Some now\<rparr>))" "same_tables s s'"
      "t = s'\<lparr>api_keys := revoke_row i now (api_keys s)\<rparr>"
      "k \<in> set (api_keys s)" "k_ID k = i" "Q k" "k_RevokedAt k = None"
  using assms(1)
proof (cases rule: not_found_cases)
  case nf: (err e)
  then show ?thesis
    unfolding revoke_where_def
    by (elim stmt_cases)
      (auto intro: err none simp: same_tables_eq find_None_iff split: option.splits)
next
  case nf: (ok x)
  then obtain s' where s': "same_tables s s'"
    and run: "(case find (\<lambda>k. (k_ID k = i \<and> Q k) \<and> k_RevokedAt k = None) (api_keys s') of
       None \<Rightarrow> (Inl NoRows, s')
     | Some k \<Rightarrow> (Inr (k\<lparr>k_RevokedAt := Some now\<rparr>), s'\<lparr>api_keys := map (\<lambda>k.
         if (k_ID k = i \<and> Q k) \<and> k_RevokedAt k = None then k\<lparr>k_RevokedAt := Some now\<rparr> else k) (api_keys s')\<rparr>)) = (Inr x, t)"
    unfolding revoke_where_def by (elim stmt_cases) auto
  then obtain k where k: "find (\<lambda>k. (k_ID k = i \<and> Q k) \<and> k_RevokedAt k = None) (api_keys s) = Some k"
    and x: "x = k\<lparr>k_RevokedAt := Some now\<rparr>"
    and t: "t = s'\<lparr>api_keys := map (\<lambda>k. if (k_ID k = i \<and> Q k) \<and> k_RevokedAt k = None
        then k\<lparr>k_RevokedAt := Some now\<rparr> else k) (api_keys s)\<rparr>"
    by (auto simp: same_tables_eq split: option.splits)
  have mem: "k \<in> set (api_keys s)" "k_ID k = i" "Q k" "k_RevokedAt k = None"
    using k by (auto simp: find_Some_iff)
  have "(if (k_ID l = i \<and> Q l) \<and> k_RevokedAt l = None then l\<lparr>k_RevokedAt := Some now\<rparr> else l)
      = (if k_ID l = i then l\<lparr>k_RevokedAt := Some now\<rparr> else l)" if "l \<in> set (api_keys s)" for l
    using that mem assms(2) distinct_map_eq [of k_ID "api_keys s" l k] by (auto simp: keys_ok_def)
  then have "t = s'\<lparr>api_keys := revoke_row i now (api_keys s)\<rparr>"
    unfolding t revoke_row_def by (simp cong: map_cong)
  then show ?thesis using nf x s' mem by (intro ok) simp_all
qed

lemma revoke_row_ids [simp]:
  "map k_ID (revoke_row i now ks) = map k_ID ks" "map k_KeyHash (revoke_row i now ks) = map k_KeyHash ks"
  by (simp_all add: revoke_row_def)

lemma keys_ok_revoke [simp]: "keys_ok (revoke_row i now ks) = keys_ok ks"
  by (simp add: keys_ok_def)

lemma keys_ok_snoc:
  "keys_ok ks \<Longrightarrow> k_ID k \<notin> k_ID ` set ks \<Longrightarrow> k_KeyHash k \<notin> k_KeyHash ` set ks \<Longrightarrow> keys_ok (ks @ [k])"
  by (simp add: keys_ok_def)

lemma users_ok_snoc: "users_ok us \<Longrightarrow> \<not> list_ex (user_conflict u) us \<Longrightarrow> users_ok (us @ [u])"
  by (auto simp: users_ok_def list_ex_iff user_conflict_def image_iff)

section \<open>Every operation keeps the keys of the tables unique\<close>

lemma CreateAPIKey_inv:
  "Repo_CreateAPIKey uuid now userID h p ex s = (r, t) \<Longrightarrow> identity_db_ok s \<Longrightarrow> identity_db_ok t"
  by (elim CreateAPIKey_cases)
    (auto simp: identity_db_ok_same identity_db_ok_def same_tables_eq keys_ok_snoc)

lemma CreateUser_inv:
  "Repo_CreateUser uuid now handle role sub s = (r, t) \<Longrightarrow> identity_db_ok s \<Longrightarrow> identity_db_ok t"
  by (elim CreateUser_cases)
    (auto simp: identity_db_ok_same identity_db_ok_def same_tables_eq users_ok_snoc)

lemma RevokeAPIKey_cases:
  assumes "Repo_RevokeAPIKey now i userID s = (r, t)" "keys_ok (api_keys s)"
  obtains (err) "r = Inl DriverErr" "same_tables s t"
  | (none) "r = Inl ErrNotFound" "same_tables s t"
      "\<forall>k \<in> set (api_keys s). k_ID k = i \<longrightarrow> k_UserID k = userID \<longrightarrow> k_RevokedAt k \<noteq> None"
  | (ok) s' k where "r = Inr (apiKeyFromRow (k\<lparr>k_RevokedAt := Some now\<rparr>))" "same_tables s s'"
      "t = s'\<lparr>api_keys := revoke_row i now (api_keys s)\<rparr>"
      "k \<in> set (api_keys s)" "k_ID k = i" "k_UserID k = userID" "k_RevokedAt k = None"
proof -
  from assms(1) have "not_found apiKeyFromRow (revoke_where (\<lambda>k. k_ID k = i \<and> k_UserID k = userID) now) s = (r, t)"
    by (simp add: Repo_RevokeAPIKey_def db_RevokeAPIKey_def)
  then show thesis using assms(2)
  proof (cases rule: revoke_where_cases)
    case err
    then show thesis by (rule that(1))
  next
    case none
    then show thesis by (intro that(2)) simp_all
  next
    case (ok s' k)
    then show thesis by (intro that(3) [of k s']) simp_all
  qed
qed

lemma RevokeAPIKeyByID_cases:
  assumes "Repo_RevokeAPIKeyByID now i s = (r, t)" "keys_ok (api_keys s)"
  obtains (err) "r = Inl DriverErr" "same_tables s t"
  | (none) "r = Inl ErrNotFound" "same_tables s t"
      "\<forall>k \<in> set (api_keys s). k_ID k = i \<longrightarrow> k_RevokedAt k \<noteq> None"
  | (ok) s' k where "r = Inr (apiKeyFromRow (k\<lparr>k_RevokedAt := Some now\<rparr>))" "same_tables s s'"
      "t = s'\<lparr>api_keys := revoke_row i now (api_keys s)\<rparr>"
      "k \<in> set (api_keys s)" "k_ID k = i" "k_RevokedAt k = None"
proof -
  from assms(1) have "not_found apiKeyFromRow (revoke_where (\<lambda>k. k_ID k = i \<and> True) now) s = (r, t)"
    by (simp add: Repo_RevokeAPIKeyByID_def db_RevokeAPIKeyByID_def)
  then show thesis using assms(2)
  proof (cases rule: revoke_where_cases)
    case err
    then show thesis by (rule that(1))
  next
    case none
    then show thesis by (intro that(2)) simp_all
  next
    case (ok s' k)
    then show thesis by (intro that(3) [of k s']) simp_all
  qed
qed

lemma RevokeAPIKey_inv:
  assumes "Repo_RevokeAPIKey now i userID s = (r, t)" "identity_db_ok s"
  shows "identity_db_ok t"
  using assms(1)
  by (rule RevokeAPIKey_cases)
    (use assms(2) in \<open>auto simp: identity_db_ok_same identity_db_ok_def same_tables_eq\<close>)

section \<open>Disabling the other keys\<close>

definition same_but_keys :: "db \<Rightarrow> db \<Rightarrow> bool" where
  "same_but_keys s t \<longleftrightarrow> same_tables s (t\<lparr>api_keys := api_keys s\<rparr>)"

lemma same_but_keysI [intro]: "same_tables s t \<Longrightarrow> same_but_keys s t"
  by (cases s; cases t) (auto simp: same_but_keys_def same_tables_def)

lemma same_but_keys_trans: "same_but_keys a b \<Longrightarrow> same_but_keys b c \<Longrightarrow> same_but_keys a c"
  by (cases a; cases b; cases c) (auto simp: same_but_keys_def same_tables_def)

lemma same_but_keys_upd: "same_tables s s' \<Longrightarrow> same_but_keys s (s'\<lparr>api_keys := ks\<rparr>)"
  by (cases s; cases s') (auto simp: same_but_keys_def same_tables_def)

lemma same_but_keys_eq [frame_simps]:
  assumes "same_but_keys s t"
  shows "usage_events t = usage_events s" "machines t = machines s" "scan_roots t = scan_roots s" "users t = users s"
  using same_tables_eq [OF assms [unfolded same_but_keys_def]] by simp_all

text \<open>Revoking a set of keys.\<close>

definition revoke_set :: "string set \<Rightarrow> time \<Rightarrow> ApiKeyRow list \<Rightarrow> ApiKeyRow list" where
  "revoke_set ids now ks = map (\<lambda>k. if k_ID k \<in> ids then k\<lparr>k_RevokedAt := Some now\<rparr> else k) ks"

lemma revoke_set_empty [simp]: "revoke_set {} now ks = ks"
  by (simp add: revoke_set_def)

lemma revoke_set_row: "revoke_set ids now (revoke_row i now ks) = revoke_set (insert i ids) now ks"
  by (auto simp: revoke_set_def revoke_row_def)

lemma revoke_set_ids [simp]:
  "map k_ID (revoke_set ids now ks) = map k_ID ks" "map k_KeyHash (revoke_set ids now ks) = map k_KeyHash ks"
  by (simp_all add: revoke_set_def)

lemma keys_ok_revoke_set [simp]: "keys_ok (revoke_set ids now ks) = keys_ok ks"
  by (simp add: keys_ok_def)

text \<open>The loop revokes the keys it is given, one by one, until one fails.\<close>

lemma disable_loop_run:
  assumes "disable_loop now userID keepID live n s = (r, t)" "keys_ok (api_keys s)"
  shows "\<exists>ids. ids \<subseteq> key_ID ` set live - {keepID} \<and> same_but_keys s t
    \<and> api_keys t = revoke_set ids now (api_keys s)
    \<and> (\<forall>m. r = Inr m \<longrightarrow> ids = key_ID ` set live - {keepID}
         \<and> m = n + length (filter (\<lambda>k. key_ID k \<noteq> keepID) live))"
  using assms
proof (induction live arbitrary: n s)
  case Nil
  then show ?case by auto
next
  case (Cons key live)
  show ?case
  proof (cases "key_ID key = keepID")
    case True
    with Cons.prems Cons.IH [of n s] show ?thesis by auto
  next
    case False
    obtain q u where rv: "Repo_RevokeAPIKey now (key_ID key) userID s = (q, u)" by fastforce
    from rv Cons.prems(2) show ?thesis
    proof (cases rule: RevokeAPIKey_cases)
      case err
      with Cons.prems rv False show ?thesis by (intro exI [of _ "{}"]) (auto simp: same_tables_eq)
    next
      case none
      with Cons.prems rv False show ?thesis by (intro exI [of _ "{}"]) (auto simp: same_tables_eq)
    next
      case (ok s' k)
      then have u: "api_keys u = revoke_row (key_ID key) now (api_keys s)" "same_but_keys s u"
        using same_but_keys_upd by simp_all
      have run: "disable_loop now userID keepID live (n + 1) u = (r, t)"
        using Cons.prems rv False ok by simp
      have "keys_ok (api_keys u)" using u(1) Cons.prems(2) by simp
      from Cons.IH [OF run this] obtain ids where ids: "ids \<subseteq> key_ID ` set live - {keepID}" "same_but_keys u t"
        "api_keys t = revoke_set ids now (api_keys u)"
        "\<forall>m. r = Inr m \<longrightarrow> ids = key_ID ` set live - {keepID}
         \<and> m = n + 1 + length (filter (\<lambda>k. key_ID k \<noteq> keepID) live)" by blast
      have "api_keys t = revoke_set (insert (key_ID key) ids) now (api_keys s)"
        by (simp add: ids(3) u(1) revoke_set_row)
      moreover have "same_but_keys s t" using u(2) ids(2) by (rule same_but_keys_trans)
      ultimately show ?thesis
        using ids(1,4) False by (intro exI [of _ "insert (key_ID key) ids"]) auto
    qed
  qed
qed

text \<open>The live keys of a user.\<close>

definition live_keys :: "db \<Rightarrow> string \<Rightarrow> ApiKeyRow list" where
  "live_keys s userID = filter (\<lambda>k. k_UserID k = userID \<and> k_RevokedAt k = None) (api_keys s)"

lemma newest_first_mset: "engine_ok g \<Longrightarrow> mset (newest_first g ks) = mset ks"
  by (simp add: newest_first_def engine_okD)

lemma ListAPIKeysByOwner_run:
  assumes "Repo_ListAPIKeysByOwner g userID s = (r, t)"
  shows "same_tables s t \<and> (r = Inl DriverErr \<or> r = Inr (map apiKeyFromRow (newest_first g (live_keys s userID))))"
proof -
  obtain q u where q: "db_ListAPIKeysByOwner g userID s = (q, u)" by fastforce
  then have "select (\<lambda>s. newest_first g (live_keys s userID)) s = (q, u)"
    by (simp add: db_ListAPIKeysByOwner_def live_keys_def)
  then show ?thesis
    by (cases rule: select_cases)
      (use q assms in \<open>auto simp: Repo_ListAPIKeysByOwner_def bindR_def live_keys_def same_tables_eq\<close>)
qed

lemma DisableOtherAPIKeys_run:
  assumes "Repo_DisableOtherAPIKeys g now userID keepID s = (r, t)" "keys_ok (api_keys s)" "engine_ok g"
  shows "\<exists>ids. ids \<subseteq> k_ID ` set (live_keys s userID) - {keepID} \<and> same_but_keys s t
    \<and> api_keys t = revoke_set ids now (api_keys s)
    \<and> (\<forall>m. r = Inr m \<longrightarrow> ids = k_ID ` set (live_keys s userID) - {keepID}
         \<and> m = length (filter (\<lambda>k. k_ID k \<noteq> keepID) (live_keys s userID)))"
proof -
  obtain q u where l: "Repo_ListAPIKeysByOwner g userID s = (q, u)" by fastforce
  note lr = ListAPIKeysByOwner_run [OF l]
  show ?thesis
  proof (cases q)
    case (Inl e)
    with assms(1) l lr show ?thesis
      by (intro exI [of _ "{}"]) (auto simp: Repo_DisableOtherAPIKeys_def bindR_def same_tables_eq)
  next
    case (Inr live)
    with lr have live: "live = map apiKeyFromRow (newest_first g (live_keys s userID))" "same_tables s u" by auto
    have run: "disable_loop now userID keepID live 0 u = (r, t)"
      using assms(1) l Inr by (simp add: Repo_DisableOtherAPIKeys_def bindR_def)
    have "keys_ok (api_keys u)" using assms(2) live(2) by (simp add: same_tables_eq)
    from disable_loop_run [OF run this] obtain ids where ids: "ids \<subseteq> key_ID ` set live - {keepID}"
      "same_but_keys u t" "api_keys t = revoke_set ids now (api_keys u)"
      "\<forall>m. r = Inr m \<longrightarrow> ids = key_ID ` set live - {keepID}
         \<and> m = 0 + length (filter (\<lambda>k. key_ID k \<noteq> keepID) live)" by blast
    have keyid: "key_ID (apiKeyFromRow k) = k_ID k" for k by (simp add: apiKeyFromRow_def)
    have m: "mset (newest_first g (live_keys s userID)) = mset (live_keys s userID)"
      by (rule newest_first_mset [OF assms(3)])
    then have "key_ID ` set live = k_ID ` set (live_keys s userID)"
      unfolding live(1) by (metis (no_types, lifting) image_cong image_image keyid set_map set_mset_mset)
    moreover have "length (filter (\<lambda>k. key_ID k \<noteq> keepID) live) = length (filter (\<lambda>k. k_ID k \<noteq> keepID) (live_keys s userID))"
      using m unfolding live(1) by (simp add: filter_map comp_def keyid) (metis mset_filter size_mset)
    moreover have "same_but_keys s t" using live(2) ids(2) by (blast intro: same_but_keys_trans)
    ultimately show ?thesis using ids live(2) by (auto simp: same_tables_eq)
  qed
qed

end
