(* ===== verification/Identity_Service.thy ===== *)
theory Identity_Service
  imports Identity_Repo GoCrypto
begin

text \<open>
  src/internal/identity/service.go: who a bearer credential is (\<open>ResolveActor\<close>), the listing and
  revocation of keys, and their issuance and rotation. The interfaces \<open>UserRepo\<close> and
  \<open>APIKeyRepo\<close> are records of functions; \<open>JWTVerifier\<close> is the outcome of verifying a token, absent
  when the seam is dormant. Logging is left out. The clock, the random bytes and the fresh ids are
  arguments.
\<close>

section \<open>The interfaces\<close>

record 's UserRepo =
  GetUserByID :: "string \<Rightarrow> ('s, go_error, User) io"
  GetUserByHandle :: "string \<Rightarrow> ('s, go_error, User) io"
  GetUserBySSOSubject :: "string \<Rightarrow> ('s, go_error, User) io"
  CreateUser :: "string \<Rightarrow> string \<Rightarrow> string option \<Rightarrow> ('s, go_error, User) io"
  ListActiveUsers :: "('s, go_error, User list) io"

record 's APIKeyRepo =
  GetAPIKeyByHash :: "string \<Rightarrow> ('s, go_error, APIKey) io"
  CreateAPIKey :: "string \<Rightarrow> string \<Rightarrow> string \<Rightarrow> time \<Rightarrow> ('s, go_error, APIKey) io"
  ListAPIKeysByOwner :: "string \<Rightarrow> ('s, go_error, APIKey list) io"
  RevokeAPIKey :: "string \<Rightarrow> string \<Rightarrow> ('s, go_error, APIKey) io"
  DisableOtherAPIKeys :: "string \<Rightarrow> string \<Rightarrow> ('s, go_error, nat) io"
  ListAllAgentAPIKeys :: "('s, go_error, APIKey list) io"
  RevokeAPIKeyByID :: "string \<Rightarrow> ('s, go_error, APIKey) io"

type_synonym JWTVerifier = "(string \<Rightarrow> go_error + string) option"

definition NewUserRepo :: "string \<Rightarrow> time \<Rightarrow> db UserRepo" where
  "NewUserRepo uuid now = \<lparr>GetUserByID = Repo_GetUserByID, GetUserByHandle = Repo_GetUserByHandle,
     GetUserBySSOSubject = Repo_GetUserBySSOSubject, CreateUser = Repo_CreateUser uuid now,
     ListActiveUsers = Repo_ListActiveUsers\<rparr>"

definition NewAPIKeyRepo :: "engine \<Rightarrow> string \<Rightarrow> time \<Rightarrow> db APIKeyRepo" where
  "NewAPIKeyRepo g uuid now = \<lparr>GetAPIKeyByHash = Repo_GetAPIKeyByHash,
     CreateAPIKey = Repo_CreateAPIKey uuid now, ListAPIKeysByOwner = Repo_ListAPIKeysByOwner g,
     RevokeAPIKey = Repo_RevokeAPIKey now, DisableOtherAPIKeys = Repo_DisableOtherAPIKeys g now,
     ListAllAgentAPIKeys = Repo_ListAllAgentAPIKeys g, RevokeAPIKeyByID = Repo_RevokeAPIKeyByID now\<rparr>"

section \<open>Actor resolution\<close>

definition HashAPIKey :: "string \<Rightarrow> string" where
  "HashAPIKey raw = hex_EncodeToString (sha256 raw)"

definition bearerToken :: "string \<Rightarrow> string option" where
  "bearerToken header =
     (if \<not> strings_HasPrefix header ''Bearer '' then None
      else let token = strings_TrimSpace (strings_TrimPrefix header ''Bearer '')
           in if token = [] then None else Some token)"

text \<open>The three outcomes: an error, no match (\<open>None\<close>), or the user.\<close>

definition tryAPIKey :: "'s UserRepo \<Rightarrow> 's APIKeyRepo \<Rightarrow> time \<Rightarrow> string \<Rightarrow> ('s, go_error, User option) io" where
  "tryAPIKey usrs keys now token s =
     (case GetAPIKeyByHash keys (HashAPIKey token) s of
        (Inl err, t) \<Rightarrow> (if errors_Is err ErrNotFound then Inr None else Inl ErrUnauthorized, t)
      | (Inr key, t) \<Rightarrow>
          if key_RevokedAt key \<noteq> None \<or> \<not> now < key_ExpiresAt key then (Inl ErrUnauthorized, t)
          else case GetUserByID usrs (key_UserID key) t of
                 (Inl err, u) \<Rightarrow> (Inl ErrUnauthorized, u)
               | (Inr user, u) \<Rightarrow> (Inr (Some user), u))"

definition tryJWT :: "'s UserRepo \<Rightarrow> JWTVerifier \<Rightarrow> string \<Rightarrow> ('s, go_error, User option) io" where
  "tryJWT usrs jwt token s =
     (case jwt of
        None \<Rightarrow> (Inr None, s)
      | Some verify \<Rightarrow>
          (case verify token of
             Inl err \<Rightarrow> (Inr None, s)
           | Inr sub \<Rightarrow>
               (case GetUserBySSOSubject usrs sub s of
                  (Inl err, t) \<Rightarrow> (Inr None, t)
                | (Inr user, t) \<Rightarrow> (Inr (Some user), t))))"

definition gate :: "User \<Rightarrow> go_error + User" where
  "gate user =
     (if usr_Role user = ''owner'' then Inl ErrUnauthorized
      else if \<not> usr_Active user then Inl ErrUnauthorized
      else Inr user)"

definition ResolveActor ::
    "'s UserRepo \<Rightarrow> 's APIKeyRepo \<Rightarrow> JWTVerifier \<Rightarrow> time \<Rightarrow> string \<Rightarrow> ('s, go_error, User) io" where
  "ResolveActor usrs keys jwt now authorizationHeader s =
     (case bearerToken authorizationHeader of
        None \<Rightarrow> (Inl ErrUnauthorized, s)
      | Some token \<Rightarrow>
          (case tryAPIKey usrs keys now token s of
             (Inl err, t) \<Rightarrow> (Inl err, t)
           | (Inr (Some user), t) \<Rightarrow> (gate user, t)
           | (Inr None, t) \<Rightarrow>
               (case tryJWT usrs jwt token t of
                  (Inr (Some user), u) \<Rightarrow> (gate user, u)
                | (_, u) \<Rightarrow> (Inl ErrUnauthorized, u))))"

section \<open>Key management\<close>

definition Service_ListAPIKeys :: "'s APIKeyRepo \<Rightarrow> string \<Rightarrow> ('s, go_error, APIKey list) io" where
  "Service_ListAPIKeys keys ownerID = ListAPIKeysByOwner keys ownerID"

definition Service_RevokeAPIKey :: "'s APIKeyRepo \<Rightarrow> string \<Rightarrow> string \<Rightarrow> ('s, go_error, APIKey) io" where
  "Service_RevokeAPIKey keys ownerID i = RevokeAPIKey keys i ownerID"

definition Service_ListAllAgentAPIKeys :: "'s APIKeyRepo \<Rightarrow> ('s, go_error, APIKey list) io" where
  "Service_ListAllAgentAPIKeys keys = ListAllAgentAPIKeys keys"

definition Service_ListActiveUsers :: "'s UserRepo \<Rightarrow> ('s, go_error, User list) io" where
  "Service_ListActiveUsers usrs = ListActiveUsers usrs"

definition RevokeAnyAgentAPIKey :: "'s APIKeyRepo \<Rightarrow> string \<Rightarrow> ('s, go_error, APIKey) io" where
  "RevokeAnyAgentAPIKey keys i = RevokeAPIKeyByID keys i"

section \<open>Issuance and rotation\<close>

definition apiKeyRawPrefix :: string where "apiKeyRawPrefix = ''tpl_''"
definition apiKeyPrefixLength :: nat where "apiKeyPrefixLength = 12"
definition apiKeyRandomBytes :: nat where "apiKeyRandomBytes = 32"
definition apiKeyTTL :: int where "apiKeyTTL = 90 * 24 * hour"

text \<open>\<open>rnd\<close> is the source of random bytes: it fails, or gives bytes to fill the buffer with.\<close>

definition generateRawAPIKey :: "go_error + string \<Rightarrow> go_error + string" where
  "generateRawAPIKey rnd = (case rand_Read apiKeyRandomBytes rnd of
     Inl e \<Rightarrow> Inl (Wrap ''reading random bytes'' e)
   | Inr buf \<Rightarrow> Inr (apiKeyRawPrefix @ hex_EncodeToString buf))"

record KeyIssuanceResult =
  iss_User :: User
  iss_APIKey :: APIKey
  iss_RawKey :: string

text \<open>Find the user or create an agent.\<close>

definition findOrCreateAgent :: "'s UserRepo \<Rightarrow> string \<Rightarrow> ('s, go_error, User) io" where
  "findOrCreateAgent usrs handle s =
     (case GetUserByHandle usrs handle s of
        (Inr user, t) \<Rightarrow> (Inr user, t)
      | (Inl err, t) \<Rightarrow>
          if \<not> errors_Is err ErrNotFound then (Inl (Wrap ''looking up user'' err), t)
          else case CreateUser usrs handle ''agent'' None t of
                 (Inl err, u) \<Rightarrow> (Inl (Wrap ''creating user'' err), u)
               | (Inr user, u) \<Rightarrow> (Inr user, u))"

definition IssueAPIKeyForHandle ::
    "'s UserRepo \<Rightarrow> 's APIKeyRepo \<Rightarrow> go_error + string \<Rightarrow> time \<Rightarrow> string \<Rightarrow> ('s, go_error, KeyIssuanceResult) io" where
  "IssueAPIKeyForHandle usrs keys rnd now handle = bindR (findOrCreateAgent usrs handle) (\<lambda>user s.
     case generateRawAPIKey rnd of
       Inl err \<Rightarrow> (Inl (Wrap ''generating key'' err), s)
     | Inr raw \<Rightarrow>
         (case CreateAPIKey keys (usr_ID user) (HashAPIKey raw) (take apiKeyPrefixLength raw) (now + apiKeyTTL) s of
            (Inl err, t) \<Rightarrow> (Inl (Wrap ''storing key'' err), t)
          | (Inr key, t) \<Rightarrow> (Inr \<lparr>iss_User = user, iss_APIKey = key, iss_RawKey = raw\<rparr>, t)))"

record RotateResult =
  rot_User :: User
  rot_APIKey :: APIKey
  rot_RawKey :: string
  rot_RevokedCount :: nat

definition Rotate ::
    "'s UserRepo \<Rightarrow> 's APIKeyRepo \<Rightarrow> go_error + string \<Rightarrow> time \<Rightarrow> string \<Rightarrow> ('s, go_error, RotateResult) io" where
  "Rotate usrs keys rnd now handle s =
     (case GetUserByHandle usrs handle s of
        (Inl err, t) \<Rightarrow>
          (Inl (if errors_Is err ErrNotFound then Wrap ''rotating key'' ErrNotFound
                else Wrap ''looking up user'' err), t)
      | (Inr user, t) \<Rightarrow>
          (case generateRawAPIKey rnd of
             Inl err \<Rightarrow> (Inl (Wrap ''generating key'' err), t)
           | Inr raw \<Rightarrow>
               (case CreateAPIKey keys (usr_ID user) (HashAPIKey raw) (take apiKeyPrefixLength raw)
                       (now + apiKeyTTL) t of
                  (Inl err, u) \<Rightarrow> (Inl (Wrap ''storing new key'' err), u)
                | (Inr newKey, u) \<Rightarrow>
                    (case DisableOtherAPIKeys keys (usr_ID user) (key_ID newKey) u of
                       (Inl err, v) \<Rightarrow> (Inl (Wrap ''disabling old key(s)'' err), v)
                     | (Inr revokedCount, v) \<Rightarrow>
                         (Inr \<lparr>rot_User = user, rot_APIKey = newKey, rot_RawKey = raw,
                              rot_RevokedCount = revokedCount\<rparr>, v)))))"

section \<open>The contracts of the interfaces\<close>

text \<open>The answer of a lookup: some error other than the sentinel, or what the store holds.\<close>

definition answers :: "'a option \<Rightarrow> go_error + 'a \<Rightarrow> bool" where
  "answers o' r \<longleftrightarrow> (\<exists>e. r = Inl e \<and> \<not> errors_Is e ErrNotFound)
     \<or> r = (case o' of Some x \<Rightarrow> Inr x | None \<Rightarrow> Inl ErrNotFound)"

lemma answers_Inr: "answers o' (Inr x) \<longleftrightarrow> o' = Some x"
  by (auto simp: answers_def split: option.splits)

lemma answers_NotFound: "answers o' (Inl e) \<Longrightarrow> errors_Is e ErrNotFound \<Longrightarrow> o' = None"
  by (auto simp: answers_def split: option.splits)

locale user_directory =
  fixes usrs :: "'s UserRepo" and same :: "'s \<Rightarrow> 's \<Rightarrow> bool"
    and by_id :: "'s \<Rightarrow> string \<Rightarrow> User option" and by_sub :: "'s \<Rightarrow> string \<Rightarrow> User option"
  assumes same_refl: "same s s" and same_trans: "same s t \<Longrightarrow> same t u \<Longrightarrow> same s u"
    and same_users: "same s t \<Longrightarrow> by_id t = by_id s \<and> by_sub t = by_sub s"
    and id_run: "GetUserByID usrs i s = (r, t) \<Longrightarrow> same s t \<and> answers (by_id s i) r"
    and sub_run: "GetUserBySSOSubject usrs i s = (r, t) \<Longrightarrow> same s t \<and> answers (by_sub s i) r"

locale resolver = user_directory usrs same by_id by_sub
  for usrs :: "'s UserRepo" and same by_id by_sub +
  fixes keys :: "'s APIKeyRepo" and by_hash :: "'s \<Rightarrow> string \<Rightarrow> APIKey option"
  assumes same_keys: "same s t \<Longrightarrow> by_hash t = by_hash s"
    and hash_run: "GetAPIKeyByHash keys h s = (q, t) \<Longrightarrow> same s t \<and> answers (by_hash s h) q"
begin

text \<open>Whom a token stands for.\<close>

definition holder :: "JWTVerifier \<Rightarrow> time \<Rightarrow> string \<Rightarrow> 's \<Rightarrow> User option" where
  "holder jwt now token s = (case by_hash s (HashAPIKey token) of
     Some k \<Rightarrow> if key_RevokedAt k = None \<and> now < key_ExpiresAt k then by_id s (key_UserID k) else None
   | None \<Rightarrow> (case jwt of None \<Rightarrow> None | Some verify \<Rightarrow>
       (case verify token of Inl _ \<Rightarrow> None | Inr sub \<Rightarrow> by_sub s sub)))"

lemma tryAPIKey_run:
  assumes "tryAPIKey usrs keys now token s = (r, t)"
  shows "same s t \<and> (case r of Inl e \<Rightarrow> e = ErrUnauthorized
    | Inr None \<Rightarrow> by_hash s (HashAPIKey token) = None
    | Inr (Some u) \<Rightarrow> \<exists>k. by_hash s (HashAPIKey token) = Some k \<and> key_RevokedAt k = None
        \<and> now < key_ExpiresAt k \<and> by_id s (key_UserID k) = Some u)"
proof -
  obtain q u where g: "GetAPIKeyByHash keys (HashAPIKey token) s = (q, u)" by fastforce
  note h = hash_run [OF g]
  show ?thesis
  proof (cases q)
    case (Inl e)
    with assms g h show ?thesis
      by (auto simp: tryAPIKey_def answers_NotFound split: if_splits)
  next
    case (Inr k)
    with h have k: "by_hash s (HashAPIKey token) = Some k" "same s u" by (simp_all add: answers_Inr)
    obtain q' v where i: "GetUserByID usrs (key_UserID k) u = (q', v)" by fastforce
    have "same s v" using id_run [OF i] k(2) same_trans by blast
    moreover have "by_id u = by_id s" using same_users k(2) by blast
    ultimately show ?thesis
      using assms g Inr k i id_run [OF i]
      by (auto simp: tryAPIKey_def answers_Inr split: if_splits sum.splits)
  qed
qed

lemma tryJWT_run:
  assumes "tryJWT usrs jwt token s = (r, t)"
  shows "same s t \<and> (\<forall>u. r = Inr (Some u) \<longrightarrow>
    (\<exists>verify sub. jwt = Some verify \<and> verify token = Inr sub \<and> by_sub s sub = Some u))"
  using assms
  by (auto simp: tryJWT_def same_refl split: option.splits sum.splits prod.splits
      dest!: sub_run simp: answers_Inr)

lemma resolve_run:
  assumes "ResolveActor usrs keys jwt now header s = (r, t)"
  shows "same s t \<and> (case r of
      Inl e \<Rightarrow> e = ErrUnauthorized
    | Inr u \<Rightarrow> usr_Role u \<noteq> ''owner'' \<and> usr_Active u
        \<and> (\<exists>token. bearerToken header = Some token \<and> holder jwt now token s = Some u))"
proof (cases "bearerToken header")
  case None
  with assms show ?thesis by (auto simp: ResolveActor_def same_refl)
next
  case (Some token)
  obtain q u where k: "tryAPIKey usrs keys now token s = (q, u)" by fastforce
  note kr = tryAPIKey_run [OF k]
  have gate: "(case gate x of Inl e \<Rightarrow> e = ErrUnauthorized | Inr y \<Rightarrow> y = x \<and> usr_Role x \<noteq> ''owner'' \<and> usr_Active x)"
    for x by (simp add: gate_def)
  show ?thesis
  proof (cases q)
    case (Inl e)
    with assms Some k kr show ?thesis by (auto simp: ResolveActor_def)
  next
    case (Inr m)
    show ?thesis
    proof (cases m)
      case m: (Some x)
      with Inr kr have "holder jwt now token s = Some x" by (auto simp: holder_def)
      with assms Some k kr Inr m gate [of x] show ?thesis
        by (auto simp: ResolveActor_def split: sum.splits)
    next
      case m: None
      with Inr kr have none: "by_hash s (HashAPIKey token) = None" "same s u" by simp_all
      obtain q' v where j: "tryJWT usrs jwt token u = (q', v)" by fastforce
      note jr = tryJWT_run [OF j]
      have su: "same s v" by (rule same_trans [OF none(2) conjunct1 [OF jr]])
      show ?thesis
      proof (cases "\<exists>x. q' = Inr (Some x)")
        case True
        then obtain x where x: "q' = Inr (Some x)" by blast
        with jr same_users none have "holder jwt now token s = Some x" by (auto simp: holder_def)
        with assms Some k Inr m j x su gate [of x] show ?thesis
          by (auto simp: ResolveActor_def split: sum.splits)
      next
        case False
        with assms Some k Inr m j su show ?thesis
          by (auto simp: ResolveActor_def split: sum.splits option.splits)
      qed
    qed
  qed
qed

end

section \<open>The database meets the contracts\<close>

definition users_by_id :: "db \<Rightarrow> string \<Rightarrow> User option" where
  "users_by_id s i = map_option userFromRow (find_user_id s i)"
definition users_by_sub :: "db \<Rightarrow> string \<Rightarrow> User option" where
  "users_by_sub s sub = map_option userFromRow (find_user_sub s sub)"
definition keys_by_hash :: "db \<Rightarrow> string \<Rightarrow> APIKey option" where
  "keys_by_hash s h = map_option apiKeyFromRow (find_key_hash s h)"

lemma lookup_answers: "lookup_result f o' r \<Longrightarrow> answers (map_option f o') r"
  by (auto simp: lookup_result_def answers_def split: option.splits)

lemma directory_db: "user_directory (NewUserRepo uuid now) same_tables users_by_id users_by_sub"
proof (unfold_locales, goal_cases)
  case (2 s t u)
  then show ?case by (rule same_tables_trans)
next
  case (3 s t)
  then show ?case
    by (simp add: users_by_id_def [abs_def] users_by_sub_def [abs_def] find_user_id_def find_user_sub_def same_tables_eq)
next
  case (4 i s r t)
  then show ?case
    using GetUserByID_runs [of i s r t] by (simp add: NewUserRepo_def users_by_id_def lookup_answers)
next
  case (5 i s r t)
  then show ?case
    using GetUserBySSOSubject_runs [of i s r t] by (simp add: NewUserRepo_def users_by_sub_def lookup_answers)
qed simp

interpretation directory: user_directory "NewUserRepo uuid now" same_tables users_by_id users_by_sub for uuid now
  by (rule directory_db)

interpretation actors: resolver "NewUserRepo uuid now" same_tables users_by_id users_by_sub
    "NewAPIKeyRepo g uuid' now'" keys_by_hash for uuid now g uuid' now'
proof (unfold_locales, goal_cases)
  case (1 s t)
  then show ?case by (simp add: keys_by_hash_def [abs_def] find_key_hash_def same_tables_eq)
next
  case (2 h s q t)
  then show ?case
    using GetAPIKeyByHash_runs [of h s q t] by (simp add: NewAPIKeyRepo_def keys_by_hash_def lookup_answers)
qed

section \<open>Properties: actor resolution\<close>

text \<open>
  C1. Whatever fails and whoever asks, a bearer credential never resolves to an owner or an inactive
  user; a resolved user is the holder of a key that is neither revoked nor expired or, only when no
  key has the token's hash, the user of the subject of a verified JWT; every refusal is the same
  error, and resolving changes no table.
\<close>

theorem resolve_actor_sound:
  assumes "ResolveActor (NewUserRepo uuid now0) (NewAPIKeyRepo g uuid' now') jwt now header s = (r, t)"
  shows "same_tables s t \<and> (case r of
      Inl e \<Rightarrow> e = ErrUnauthorized
    | Inr u \<Rightarrow> usr_Role u \<noteq> ''owner'' \<and> usr_Active u
        \<and> (\<exists>token. bearerToken header = Some token
            \<and> (case find_key_hash s (HashAPIKey token) of
                 Some k \<Rightarrow> k_RevokedAt k = None \<and> now < k_ExpiresAt k
                   \<and> map_option userFromRow (find_user_id s (k_UserID k)) = Some u
               | None \<Rightarrow> \<exists>verify sub. jwt = Some verify \<and> verify token = Inr sub
                   \<and> map_option userFromRow (find_user_sub s sub) = Some u)))"
proof -
  have run: "same_tables s t \<and> (case r of Inl e \<Rightarrow> e = ErrUnauthorized
    | Inr u \<Rightarrow> usr_Role u \<noteq> ''owner'' \<and> usr_Active u
        \<and> (\<exists>token. bearerToken header = Some token \<and> actors.holder jwt now token s = Some u))"
    by (rule actors.resolve_run [OF assms])
  have held: "case find_key_hash s (HashAPIKey token) of
                 Some k \<Rightarrow> k_RevokedAt k = None \<and> now < k_ExpiresAt k
                   \<and> map_option userFromRow (find_user_id s (k_UserID k)) = Some u
               | None \<Rightarrow> \<exists>verify sub. jwt = Some verify \<and> verify token = Inr sub
                   \<and> map_option userFromRow (find_user_sub s sub) = Some u"
    if "actors.holder jwt now token s = Some u" for token u
    using that
    by (cases "find_key_hash s (HashAPIKey token)")
      (auto simp: actors.holder_def keys_by_hash_def users_by_id_def users_by_sub_def apiKeyFromRow_def
        split: option.splits sum.splits if_splits)
  show ?thesis
  proof (cases r)
    case (Inl e)
    with run show ?thesis by simp
  next
    case (Inr u)
    with run obtain token where "bearerToken header = Some token" "actors.holder jwt now token s = Some u" by auto
    with run Inr held show ?thesis unfolding Inr sum.case by blast
  qed
qed

text \<open>A key that is revoked or expired is refused, whatever fails and whatever a verifier says.\<close>

lemma dead_key_refused:
  assumes "find_key_hash s (HashAPIKey token) = Some k" "k_RevokedAt k \<noteq> None \<or> k_ExpiresAt k \<le> now"
    and "bearerToken header = Some token"
  shows "fst (ResolveActor (NewUserRepo uuid now0) (NewAPIKeyRepo g uuid' now') jwt now header s) = Inl ErrUnauthorized"
proof -
  obtain r t where r: "ResolveActor (NewUserRepo uuid now0) (NewAPIKeyRepo g uuid' now') jwt now header s = (r, t)"
    by fastforce
  have "actors.holder jwt now token s = None"
    using assms(1,2) by (auto simp: actors.holder_def keys_by_hash_def apiKeyFromRow_def)
  with actors.resolve_run [OF r] assms(3) show ?thesis by (cases r) (auto simp: r)
qed

lemma live_key_resolves:
  assumes "faults s = []" "bearerToken header = Some token" "find_key_hash s (HashAPIKey token) = Some k"
    and "k_RevokedAt k = None" "now < k_ExpiresAt k" "find_user_id s (k_UserID k) = Some row"
    and "u_Role row \<noteq> ''owner''" "u_Active row"
  shows "ResolveActor (NewUserRepo uuid now0) (NewAPIKeyRepo g uuid' now') jwt now header s
    = (Inr (userFromRow row), s)"
  using assms
  by (simp add: ResolveActor_def tryAPIKey_def NewAPIKeyRepo_def NewUserRepo_def lookups_no_faults
      apiKeyFromRow_def userFromRow_def gate_def)

text \<open>
  With no failing statement the decision is exact: the token of a live key whose user is an
  active non-owner resolves to that user, and a token that matches an expired or revoked key is
  refused without ever being tried as a JWT.
\<close>

lemma resolve_actor_exact:
  assumes "faults s = []" "bearerToken header = Some token" "find_key_hash s (HashAPIKey token) = Some k"
  shows "ResolveActor (NewUserRepo uuid now0) (NewAPIKeyRepo g uuid' now') jwt now header s
    = (if k_RevokedAt k \<noteq> None \<or> k_ExpiresAt k \<le> now then Inl ErrUnauthorized
       else case find_user_id s (k_UserID k) of
              None \<Rightarrow> Inl ErrUnauthorized
            | Some row \<Rightarrow> if u_Role row \<noteq> ''owner'' \<and> u_Active row then Inr (userFromRow row)
                          else Inl ErrUnauthorized, s)"
  using assms
  by (auto simp: ResolveActor_def tryAPIKey_def NewAPIKeyRepo_def NewUserRepo_def lookups_no_faults
      apiKeyFromRow_def userFromRow_def gate_def split: option.splits)

section \<open>Properties: keys\<close>

text \<open>A raw key is its own bearer token.\<close>

lemma raw_key_token:
  assumes "generateRawAPIKey rnd = Inr raw"
  shows "bearerToken (''Bearer '' @ raw) = Some raw"
proof -
  obtain buf where raw: "raw = ''tpl_'' @ hex_EncodeToString buf"
    using assms by (auto simp: generateRawAPIKey_def apiKeyRawPrefix_def split: sum.splits)
  have "set hex_digits \<inter> set (map last space_seqs) = {}"
    by (simp add: hex_digits_def space_seqs_def)
  then have disjoint: "c \<notin> set (map last space_seqs)" if "c \<in> set hex_digits" for c using that by blast
  have "last raw \<notin> set (map last space_seqs)"
  proof (cases "hex_EncodeToString buf = []")
    case True
    then show ?thesis by (simp add: raw space_seqs_def)
  next
    case False
    then have "last (hex_EncodeToString buf) \<in> set hex_digits"
      using hex_EncodeToString_digits last_in_set by blast
    with False show ?thesis using disjoint by (simp add: raw del: set_map)
  qed
  moreover have "hd raw \<notin> set (map hd space_seqs)" by (simp add: raw space_seqs_def)
  ultimately have "strings_TrimSpace raw = raw" by (intro TrimSpace_id) (simp_all add: raw)
  moreover have "strings_HasPrefix (''Bearer '' @ raw) ''Bearer ''" by (rule HasPrefix_append)
  moreover have "strings_TrimPrefix (''Bearer '' @ raw) ''Bearer '' = raw" by (rule TrimPrefix_append)
  moreover have "raw \<noteq> []" by (simp add: raw)
  ultimately show ?thesis by (simp only: bearerToken_def Let_def) simp
qed

text \<open>It has 68 characters and is no digest.\<close>

lemma raw_key_form:
  assumes "generateRawAPIKey rnd = Inr raw"
  shows "length raw = 68" and "HashAPIKey raw \<noteq> raw"
proof -
  obtain buf where raw: "raw = CHR ''t'' # ''pl_'' @ hex_EncodeToString buf" "length buf = 32"
    using assms rand_Read_length
    by (fastforce simp: generateRawAPIKey_def apiKeyRawPrefix_def apiKeyRandomBytes_def split: sum.splits)
  then show "length raw = 68" by simp
  have "CHR ''t'' \<notin> set hex_digits" by (simp add: hex_digits_def)
  then have "CHR ''t'' \<notin> set (HashAPIKey raw)" unfolding HashAPIKey_def using hex_EncodeToString_digits by blast
  then show "HashAPIKey raw \<noteq> raw" by (metis list.set_intros(1) raw(1))
qed

lemma findOrCreateAgent_ok:
  assumes "findOrCreateAgent (NewUserRepo uuid now) handle s = (Inr user, t)" "identity_db_ok s"
  obtains row where "userFromRow row = user" "find_user_id t (usr_ID user) = Some row"
    "api_keys t = api_keys s" "identity_db_ok t"
proof -
  obtain q u where h: "Repo_GetUserByHandle handle s = (q, u)" by fastforce
  note hr = GetUserByHandle_runs [OF h]
  have id: "usr_ID (userFromRow row) = u_ID row" for row by (simp add: userFromRow_def)
  show thesis
  proof (cases q)
    case (Inr x)
    with assms(1) h have x: "x = user" "t = u" by (simp_all add: findOrCreateAgent_def NewUserRepo_def)
    with hr Inr obtain row where row: "find_user_handle s handle = Some row" "userFromRow row = user" "same_tables s t"
      by (auto simp: lookup_result_def split: option.splits)
    then have "row \<in> set (users t)" by (auto simp: find_user_handle_def find_Some_iff same_tables_eq)
    moreover have ok: "identity_db_ok t" using assms(2) row(3) by (simp add: identity_db_ok_same)
    ultimately have "find_user_id t (usr_ID user) = Some row"
      unfolding find_user_id_def row(2) [symmetric] id
      by (intro find_unique) (simp_all add: identity_db_ok_def users_ok_def)
    with row ok show thesis by (intro that) (simp_all add: same_tables_eq)
  next
    case (Inl e)
    with assms(1) h have c: "Repo_CreateUser uuid now handle ''agent'' None u = (Inr user, t)"
      by (auto simp: findOrCreateAgent_def NewUserRepo_def split: if_splits prod.splits sum.splits)
    have oku: "identity_db_ok u" using assms(2) identity_db_ok_same [OF conjunct2 [OF hr]] by simp
    have okt: "identity_db_ok t" by (rule CreateUser_inv [OF c oku])
    from c show thesis
    proof (cases rule: CreateUser_cases)
      case (ok s' row)
      then have "row \<in> set (users t)" by simp
      then have "find_user_id t (usr_ID user) = Some row"
        using ok okt unfolding find_user_id_def
        by (intro find_unique) (simp_all add: identity_db_ok_def users_ok_def id)
      with ok okt hr show thesis by (intro that [of row]) (simp_all add: same_tables_eq)
    qed simp
  qed
qed

lemma issued_key_run:
  assumes "IssueAPIKeyForHandle (NewUserRepo uuid now) (NewAPIKeyRepo g uuid' now) rnd now handle s = (Inr res, t)"
    and "identity_db_ok s" "faults t = []" "later < now + 90 * 24 * hour"
    and "usr_Role (iss_User res) \<noteq> ''owner''" "usr_Active (iss_User res)"
  shows "ResolveActor (NewUserRepo v n) (NewAPIKeyRepo g v' n') jwt later (''Bearer '' @ iss_RawKey res) t
      = (Inr (iss_User res), t)
    \<and> api_keys t = api_keys s @ [\<lparr>k_ID = uuid', k_UserID = usr_ID (iss_User res), k_KeyHash = HashAPIKey (iss_RawKey res),
        k_KeyPrefix = take 12 (iss_RawKey res), k_CreatedAt = now, k_ExpiresAt = now + 90 * 24 * hour, k_RevokedAt = None\<rparr>]
    \<and> length (iss_RawKey res) = 68 \<and> HashAPIKey (iss_RawKey res) \<noteq> iss_RawKey res"
proof -
  from assms(1) obtain user u raw key where f: "findOrCreateAgent (NewUserRepo uuid now) handle s = (Inr user, u)"
    and raw: "generateRawAPIKey rnd = Inr raw"
    and c: "Repo_CreateAPIKey uuid' now (usr_ID user) (HashAPIKey raw) (take 12 raw) (now + apiKeyTTL) u = (Inr key, t)"
    and res: "res = \<lparr>iss_User = user, iss_APIKey = key, iss_RawKey = raw\<rparr>"
    by (auto simp: IssueAPIKeyForHandle_def NewAPIKeyRepo_def apiKeyPrefixLength_def elim!: bindR_okE
        split: sum.splits prod.splits)
  from f assms(2) obtain row where row: "userFromRow row = user" "find_user_id u (usr_ID user) = Some row"
    "api_keys u = api_keys s" "identity_db_ok u" by (rule findOrCreateAgent_ok)
  from c show ?thesis
  proof (cases rule: CreateAPIKey_cases)
    case (ok s' k)
    have keys: "api_keys t = api_keys s @ [k]" using ok row(3) by simp
    have user: "find_user_id t (usr_ID user) = Some row"
      using row(2) ok by (simp add: find_user_id_def same_tables_eq)
    have "find_key_hash t (HashAPIKey raw) = Some k"
      unfolding find_key_hash_def
      by (rule find_unique) (use ok CreateAPIKey_inv [OF c row(4)] in
          \<open>simp_all add: identity_db_ok_def keys_ok_def\<close>)
    from live_key_resolves [OF assms(3) raw_key_token [OF raw] this]
    have "ResolveActor (NewUserRepo v n) (NewAPIKeyRepo g v' n') jwt later (''Bearer '' @ raw) t = (Inr user, t)"
      using assms(4-6) ok row(1) user by (auto simp: res apiKeyTTL_def userFromRow_def)
    then show ?thesis using keys ok raw_key_form [OF raw] by (simp add: res apiKeyTTL_def)
  qed simp
qed

text \<open>
  C21. Round trip: a raw key just issued, presented as a bearer token before it expires and while
  no statement fails, resolves to the user it was issued for, when that user is active and no owner. The key has 68 characters, and the
  row stored for it holds its SHA-256 digest and its first 12 characters, and nothing else of it.
\<close>

theorem issued_key_resolves:
  assumes "IssueAPIKeyForHandle (NewUserRepo uuid now) (NewAPIKeyRepo g uuid' now) rnd now handle s = (Inr res, t)"
    and "identity_db_ok s" "faults t = []" "later < now + 90 * 24 * hour"
    and "usr_Role (iss_User res) \<noteq> ''owner''" "usr_Active (iss_User res)"
  shows "ResolveActor (NewUserRepo v n) (NewAPIKeyRepo g v' n') jwt later (''Bearer '' @ iss_RawKey res) t
      = (Inr (iss_User res), t)
    \<and> api_keys t = api_keys s @ [\<lparr>k_ID = uuid', k_UserID = usr_ID (iss_User res), k_KeyHash = HashAPIKey (iss_RawKey res),
        k_KeyPrefix = take 12 (iss_RawKey res), k_CreatedAt = now, k_ExpiresAt = now + 90 * 24 * hour, k_RevokedAt = None\<rparr>]
    \<and> length (iss_RawKey res) = 68 \<and> HashAPIKey (iss_RawKey res) \<noteq> iss_RawKey res"
  using assms by (rule issued_key_run)

lemma rotate_run:
  assumes "Rotate (NewUserRepo uuid n) (NewAPIKeyRepo g uuid' now) rnd now handle s = (r, t)"
    and "identity_db_ok s" "engine_ok g"
  shows "same_tables s t \<and> (\<exists>e. r = Inl e)
    \<or> (\<exists>u k ids. find_user_handle s handle = Some u
        \<and> k_UserID k = u_ID u \<and> k_RevokedAt k = None \<and> k_ExpiresAt k = now + 90 * 24 * hour
        \<and> same_but_keys s t \<and> api_keys t = revoke_set ids now (api_keys s) @ [k]
        \<and> ids \<subseteq> k_ID ` set (live_keys s (u_ID u))
        \<and> (\<forall>res. r = Inr res \<longrightarrow> live_keys t (u_ID u) = [k]
             \<and> k_KeyHash k = HashAPIKey (rot_RawKey res)
             \<and> rot_RevokedCount res = length (live_keys s (u_ID u))))"
proof -
  obtain q a where h: "Repo_GetUserByHandle handle s = (q, a)" by fastforce
  note hr = GetUserByHandle_runs [OF h]
  show ?thesis
  proof (cases q)
    case (Inl e)
    with assms(1) h hr show ?thesis by (auto simp: Rotate_def NewUserRepo_def)
  next
    case q: (Inr user)
    with hr obtain row where row: "find_user_handle s handle = Some row" "user = userFromRow row" "same_tables s a"
      by (auto simp: lookup_result_def split: option.splits)
    then have uid: "usr_ID user = u_ID row" by (simp add: userFromRow_def)
    show ?thesis
    proof (cases "generateRawAPIKey rnd")
      case (Inl e)
      with assms(1) h q row(3) show ?thesis by (auto simp: Rotate_def NewUserRepo_def)
    next
      case raw: (Inr raw)
      obtain p b where c: "Repo_CreateAPIKey uuid' now (u_ID row) (HashAPIKey raw) (take apiKeyPrefixLength raw)
          (now + apiKeyTTL) a = (p, b)" by fastforce
      from c show ?thesis
      proof (cases rule: CreateAPIKey_cases)
        case (err e)
        with assms(1) h q raw c uid row(3) have "same_tables s t \<and> (\<exists>e. r = Inl e)"
          by (auto simp: Rotate_def NewUserRepo_def NewAPIKeyRepo_def intro: same_tables_trans)
        then show ?thesis ..
      next
        case (ok s' k)
        obtain d w where dis: "Repo_DisableOtherAPIKeys g now (u_ID row) (k_ID k) b = (d, w)" by fastforce
        have keyid: "key_ID (apiKeyFromRow k) = k_ID k" by (simp add: apiKeyFromRow_def)
        have wt: "w = t" and dr: "\<And>m. d = Inr m \<Longrightarrow> r = Inr \<lparr>rot_User = user, rot_APIKey = apiKeyFromRow k,
            rot_RawKey = raw, rot_RevokedCount = m\<rparr>" "\<And>e. d = Inl e \<Longrightarrow> \<exists>e. r = Inl e"
          using assms(1) h q raw c uid ok(2) dis
          by (auto simp: Rotate_def NewUserRepo_def NewAPIKeyRepo_def keyid split: sum.splits)
        have okb: "keys_ok (api_keys b)"
          using CreateAPIKey_inv [OF c] assms(2) row(3) by (simp add: identity_db_ok_def same_tables_eq)
        obtain ids where ids: "ids \<subseteq> k_ID ` set (live_keys b (u_ID row)) - {k_ID k}" "same_but_keys b w"
          "api_keys w = revoke_set ids now (api_keys b)"
          "\<forall>m. d = Inr m \<longrightarrow> ids = k_ID ` set (live_keys b (u_ID row)) - {k_ID k}
            \<and> m = length (filter (\<lambda>l. k_ID l \<noteq> k_ID k) (live_keys b (u_ID row)))"
          using DisableOtherAPIKeys_run [OF dis okb assms(3)] by blast
        have ak: "api_keys b = api_keys s @ [k]" using ok row(3) by (simp add: same_tables_eq)
        have fresh: "k_ID k \<notin> k_ID ` set (api_keys s)" using ok row(3) by (simp add: same_tables_eq)
        have lv: "live_keys b (u_ID row) = live_keys s (u_ID row) @ [k]"
          using ok(1) same_tables_eq(5) [OF row(3)] unfolding live_keys_def ak by simp
        have ids': "ids \<subseteq> k_ID ` set (live_keys s (u_ID row))" using ids(1) by (auto simp: lv)
        then have "k_ID k \<notin> ids" using fresh by (auto simp: live_keys_def)
        then have tk: "api_keys t = revoke_set ids now (api_keys s) @ [k]"
          using ids(3) wt by (simp add: ak revoke_set_def)
        have "same_but_keys s t"
          using row(3) ok ids(2) wt same_but_keys_upd by (blast intro: same_but_keys_trans)
        moreover have "live_keys t (u_ID row) = [k] \<and> k_KeyHash k = HashAPIKey (rot_RawKey res)
            \<and> rot_RevokedCount res = length (live_keys s (u_ID row))" if "r = Inr res" for res
        proof -
          from that dr obtain m where m: "d = Inr m" by (cases d) auto
          have live_fresh: "k_ID l \<noteq> k_ID k" if "l \<in> set (live_keys s (u_ID row))" for l
          proof -
            have "l \<in> set (api_keys s)" using that by (simp add: live_keys_def)
            then have "k_ID l \<in> k_ID ` set (api_keys s)" by (rule imageI)
            then show ?thesis using fresh by metis
          qed
          then have "m = length (live_keys s (u_ID row))"
            using ids(4) m by (simp add: lv filter_id_conv)
          moreover have "ids = k_ID ` set (live_keys s (u_ID row))"
            using ids(4) m live_fresh by (auto simp: lv)
          then have "live_keys t (u_ID row) = [k]"
            using ok by (auto simp: live_keys_def tk revoke_set_def filter_empty_conv)
          ultimately show ?thesis using that dr(1) [OF m] ok by auto
        qed
        ultimately show ?thesis
          using row(1) ok tk ids' by (intro disjI2 exI [of _ row] exI [of _ k] exI [of _ ids]) (auto simp: apiKeyTTL_def)
      qed
    qed
  qed
qed

text \<open>
  C22. Rotation (I13): either nothing has changed and an error is returned, or the new key is stored
  and live. Old keys of the handle, and only those, are revoked after it; a successful rotation
  leaves the new key as the one live key and counts the keys it disabled. So the handle never is
  without a live key on the way.
\<close>

theorem rotate_new_key_first:
  assumes "Rotate (NewUserRepo uuid n) (NewAPIKeyRepo g uuid' now) rnd now handle s = (r, t)"
    and "identity_db_ok s" "engine_ok g"
  shows "same_tables s t \<and> (\<exists>e. r = Inl e)
    \<or> (\<exists>u k ids. find_user_handle s handle = Some u
        \<and> k_UserID k = u_ID u \<and> k_RevokedAt k = None \<and> k_ExpiresAt k = now + 90 * 24 * hour
        \<and> same_but_keys s t \<and> api_keys t = revoke_set ids now (api_keys s) @ [k]
        \<and> ids \<subseteq> k_ID ` set (live_keys s (u_ID u))
        \<and> (\<forall>res. r = Inr res \<longrightarrow> live_keys t (u_ID u) = [k]
             \<and> k_KeyHash k = HashAPIKey (rot_RawKey res)
             \<and> rot_RevokedCount res = length (live_keys s (u_ID u))))"
  using assms by (rule rotate_run)

text \<open>
  C37. A caller can revoke only its own live key: a success changes that one row, after which the
  key's token is refused whatever a JWT verifier would say of it; anything else is an error and
  changes nothing.
\<close>

theorem revoke_own_key_only:
  assumes "Service_RevokeAPIKey (NewAPIKeyRepo g uuid now) ownerID i s = (r, t)" "identity_db_ok s"
  shows "case r of
      Inl e \<Rightarrow> same_tables s t
    | Inr key \<Rightarrow> (\<exists>k \<in> set (api_keys s). k_ID k = i \<and> k_UserID k = ownerID \<and> k_RevokedAt k = None
          \<and> api_keys t = revoke_set {i} now (api_keys s) \<and> same_but_keys s t
          \<and> (\<forall>raw header later jwt v n v' n'. HashAPIKey raw = k_KeyHash k \<longrightarrow> bearerToken header = Some raw \<longrightarrow>
               fst (ResolveActor (NewUserRepo v n) (NewAPIKeyRepo g v' n') jwt later header t) = Inl ErrUnauthorized))"
proof -
  have "Repo_RevokeAPIKey now i ownerID s = (r, t)"
    using assms(1) by (simp add: Service_RevokeAPIKey_def NewAPIKeyRepo_def)
  moreover have ks: "keys_ok (api_keys s)" using assms(2) by (simp add: identity_db_ok_def)
  ultimately show ?thesis
  proof (cases rule: RevokeAPIKey_cases)
    case (ok s' k)
    have t: "api_keys t = revoke_set {i} now (api_keys s)"
      using ok by (simp add: revoke_row_def revoke_set_def)
    have "k\<lparr>k_RevokedAt := Some now\<rparr> \<in> set (api_keys t)"
      using ok(4,5) by (force simp: t revoke_set_def)
    then have found: "find_key_hash t (k_KeyHash k) = Some (k\<lparr>k_RevokedAt := Some now\<rparr>)"
      unfolding find_key_hash_def by (intro find_unique) (use ks in \<open>simp_all add: t keys_ok_def\<close>)
    have refuse: "fst (ResolveActor (NewUserRepo v n) (NewAPIKeyRepo g v' n') jwt later header t) = Inl ErrUnauthorized"
      if "HashAPIKey raw = k_KeyHash k" "bearerToken header = Some raw" for raw header later jwt v n v' n'
      by (rule dead_key_refused [where k = "k\<lparr>k_RevokedAt := Some now\<rparr>"]) (use that found in simp_all)
    have "same_but_keys s t" using ok same_but_keys_upd by simp
    with ok t refuse show ?thesis by auto
  qed simp_all
qed

section \<open>Concrete runs\<close>

definition sample_user :: UserRow where
  "sample_user = \<lparr>u_ID = ''u1'', u_Handle = ''Bot'', u_Role = ''agent'', u_Active = True, u_SsoSubject = None,
     u_CreatedAt = 0, u_UpdatedAt = 0\<rparr>"

text \<open>The stored digest is a parameter; one that is not a digest at all is x.\<close>

definition sample_key :: "string \<Rightarrow> ApiKeyRow" where
  "sample_key h = \<lparr>k_ID = ''k1'', k_UserID = ''u1'', k_KeyHash = h, k_KeyPrefix = ''tpl_x'',
     k_CreatedAt = 0, k_ExpiresAt = 100, k_RevokedAt = None\<rparr>"

definition sample_idb_with :: "string \<Rightarrow> db" where
  "sample_idb_with h = (empty_db [])\<lparr>users := [sample_user], api_keys := [sample_key h]\<rparr>"

abbreviation sample_idb :: db where "sample_idb \<equiv> sample_idb_with (HashAPIKey ''tpl_x'')"
abbreviation sample_idb_x :: db where "sample_idb_x \<equiv> sample_idb_with ''x''"

lemma sample_token: "bearerToken ''Bearer tpl_x'' = Some ''tpl_x''"
  by code_simp

lemma sample_idb_facts:
  "faults (sample_idb_with h) = []" "identity_db_ok (sample_idb_with h)"
  "find_key_hash (sample_idb_with h) h = Some (sample_key h)"
  "find_user_id (sample_idb_with h) ''u1'' = Some sample_user"
  by (simp_all add: sample_idb_with_def empty_db_def identity_db_ok_def users_ok_def keys_ok_def find_key_hash_def
      find_user_id_def sample_key_def sample_user_def)

lemma sample_idb_tables: "api_keys (sample_idb_with h) = [sample_key h]" "users (sample_idb_with h) = [sample_user]"
  by (simp_all add: sample_idb_with_def)

lemma digest_not_x: "HashAPIKey raw \<noteq> ''x''"
proof
  assume "HashAPIKey raw = ''x''"
  then have "length (HashAPIKey raw) = 1" by simp
  then show False by (simp add: HashAPIKey_def)
qed

lemma sample_handles:
  "find_user_handle (sample_idb_with h) ''BOT'' = Some sample_user" "find_user_handle (sample_idb_with h) ''bot'' = Some sample_user"
proof -
  have "nocase ''Bot'' = nocase ''BOT''" "nocase ''Bot'' = nocase ''bot''" by code_simp+
  then show "find_user_handle (sample_idb_with h) ''BOT'' = Some sample_user" "find_user_handle (sample_idb_with h) ''bot'' = Some sample_user"
    by (simp_all add: find_user_handle_def sample_idb_with_def sample_user_def)
qed

abbreviation sample_users :: "db UserRepo" where "sample_users \<equiv> NewUserRepo ''new-u'' 10"
abbreviation sample_keys :: "db APIKeyRepo" where "sample_keys \<equiv> NewAPIKeyRepo plain_engine ''new-k'' 10"

lemma resolve_actor_exact_witness:
  "ResolveActor sample_users sample_keys None 99 ''Bearer tpl_x'' sample_idb = (Inr (userFromRow sample_user), sample_idb)
   \<and> ResolveActor sample_users sample_keys (Some (\<lambda>_. Inr ''sub'')) 100 ''Bearer tpl_x'' sample_idb
     = (Inl ErrUnauthorized, sample_idb)"
  using resolve_actor_exact [OF sample_idb_facts(1) sample_token sample_idb_facts(3)] sample_idb_facts(4)
  by (simp add: sample_key_def sample_user_def)

theorem resolve_actor_sound_witness:
  "\<exists>r t. ResolveActor sample_users sample_keys None 0 ''Basic tpl_x'' sample_idb = (r, t) \<and> same_tables sample_idb t
     \<and> r = Inl ErrUnauthorized"
proof -
  have run: "ResolveActor sample_users sample_keys None 0 ''Basic tpl_x'' sample_idb = (Inl ErrUnauthorized, sample_idb)"
    by (simp add: ResolveActor_def bearerToken_def strings_HasPrefix_def)
  from resolve_actor_sound [OF run] run show ?thesis by simp
qed

lemma sample_issue:
  "\<exists>res t. IssueAPIKeyForHandle sample_users sample_keys (Inr ''abc'') 10 ''BOT'' sample_idb_x = (Inr res, t)
     \<and> iss_User res = userFromRow sample_user \<and> faults t = []"
proof -
  have h: "find_user_handle sample_idb_x ''BOT'' = Some sample_user" by (rule sample_handles)
  obtain raw where gen: "generateRawAPIKey (Inr ''abc'') = Inr raw"
    by (simp add: generateRawAPIKey_def rand_Read_def)
  show ?thesis
    using sample_idb_facts(1) digest_not_x
    by (simp add: IssueAPIKeyForHandle_def bindR_def findOrCreateAgent_def NewUserRepo_def NewAPIKeyRepo_def
        lookups_no_faults h gen Repo_CreateAPIKey_def
        db_CreateAPIKey_def stmt_no_faults key_conflict_def sample_idb_tables sample_user_def userFromRow_def
        apiKeyPrefixLength_def sample_key_def)
qed

theorem issued_key_resolves_witness:
  "\<exists>res t. IssueAPIKeyForHandle sample_users sample_keys (Inr ''abc'') 10 ''BOT'' sample_idb_x = (Inr res, t)
     \<and> fst (ResolveActor sample_users sample_keys None 11 (''Bearer '' @ iss_RawKey res) t) = Inr (iss_User res)"
proof -
  obtain res t where run: "IssueAPIKeyForHandle sample_users sample_keys (Inr ''abc'') 10 ''BOT'' sample_idb_x = (Inr res, t)"
    and u: "iss_User res = userFromRow sample_user" and ft: "faults t = []"
    using sample_issue by blast
  have "ResolveActor sample_users sample_keys None 11 (''Bearer '' @ iss_RawKey res) t = (Inr (iss_User res), t)"
    using issued_key_resolves [OF run sample_idb_facts(2) ft,
        where later = 11 and v = "''new-u''" and n = 10 and v' = "''new-k''" and n' = 10 and jwt = None]
    by (simp add: u userFromRow_def sample_user_def)
  with run show ?thesis by auto
qed

lemma sample_rotate:
  "\<exists>res t. Rotate sample_users sample_keys (Inr ''abc'') 10 ''bot'' sample_idb_x = (Inr res, t) \<and> rot_User res = userFromRow sample_user"
proof -
  have h: "find_user_handle sample_idb_x ''bot'' = Some sample_user" by (rule sample_handles)
  obtain raw where gen: "generateRawAPIKey (Inr ''abc'') = Inr raw"
    by (simp add: generateRawAPIKey_def rand_Read_def)
  show ?thesis
    using sample_idb_facts(1) digest_not_x
    by (simp add: Rotate_def bindR_def NewUserRepo_def NewAPIKeyRepo_def select_def
        lookups_no_faults h gen Repo_CreateAPIKey_def
        db_CreateAPIKey_def stmt_no_faults key_conflict_def sample_idb_tables sample_user_def userFromRow_def
        Repo_DisableOtherAPIKeys_def Repo_ListAPIKeysByOwner_def db_ListAPIKeysByOwner_def newest_first_def
        plain_engine_def sample_key_def apiKeyFromRow_def Repo_RevokeAPIKey_def db_RevokeAPIKey_def
        revoke_where_def not_found_def)
qed

theorem rotate_new_key_first_witness:
  "\<exists>res t k. Rotate sample_users sample_keys (Inr ''abc'') 10 ''bot'' sample_idb_x = (Inr res, t)
     \<and> live_keys t ''u1'' = [k] \<and> k_KeyHash k = HashAPIKey (rot_RawKey res)"
proof -
  obtain res t where run: "Rotate sample_users sample_keys (Inr ''abc'') 10 ''bot'' sample_idb_x = (Inr res, t)"
    using sample_rotate by blast
  have h: "find_user_handle sample_idb_x ''bot'' = Some sample_user" by (rule sample_handles)
  from rotate_new_key_first [OF run sample_idb_facts(2) plain_engine_ok]
  show ?thesis using run h by (auto simp: sample_user_def)
qed

theorem revoke_own_key_only_witness:
  "\<exists>key t. Service_RevokeAPIKey sample_keys ''u1'' ''k1'' sample_idb = (Inr key, t)
     \<and> fst (ResolveActor sample_users sample_keys None 0 ''Bearer tpl_x'' t) = Inl ErrUnauthorized"
proof -
  obtain key t where run: "Service_RevokeAPIKey sample_keys ''u1'' ''k1'' sample_idb = (Inr key, t)"
    using sample_idb_facts(1)
    by (simp add: Service_RevokeAPIKey_def NewAPIKeyRepo_def Repo_RevokeAPIKey_def db_RevokeAPIKey_def
        revoke_where_def stmt_no_faults not_found_def sample_idb_with_def sample_key_def)
  have "k \<in> set (api_keys sample_idb) \<Longrightarrow> k_KeyHash k = HashAPIKey ''tpl_x''" for k
    by (simp add: sample_idb_with_def sample_key_def)
  with revoke_own_key_only [OF run sample_idb_facts(2)] sample_token
  have "fst (ResolveActor sample_users sample_keys None 0 ''Bearer tpl_x'' t) = Inl ErrUnauthorized" by auto
  with run show ?thesis by blast
qed

end
