(* ===== verification/Identity_JWT.thy ===== *)
theory Identity_JWT
  imports Identity_Service
begin

text \<open>
  src/internal/identity/jwt.go: the JWT verifier. The packages jwk, jws and jwt are not part of the
  repository: a key set, the JWKS cache and \<open>jwt.Parse\<close> are arguments, with what the code relies on
  of \<open>jwt.Parse\<close> in \<open>parse_ok\<close>. The state \<open>'s\<close> is the cache's and the network's.
\<close>

section \<open>Arguments: key sets, the cache, the parser\<close>

record 'k jwk_Set =
  LookupKeyID :: "string \<Rightarrow> 'k option"
  set_Len :: nat
  set_Key :: "nat \<Rightarrow> 'k"

record ('s, 'k) jwk_Cache =
  cache_Lookup :: "string \<Rightarrow> ('s, go_error, 'k jwk_Set) io"
  cache_Refresh :: "string \<Rightarrow> ('s, go_error, 'k jwk_Set) io"

datatype jwa = RS256 | HS256 | ES256 | OtherAlg string

text \<open>A key provider gets the \<open>kid\<close> of the protected header, if any, and feeds the sink.\<close>

type_synonym ('s, 'k) key_provider = "string option \<Rightarrow> ('s, go_error, (jwa \<times> 'k) list) io"

text \<open>\<open>jwt.Parse(token, WithKeyProvider, WithValidate, WithIssuer, WithAudience)\<close>; the result is the
  subject claim of the parsed token.\<close>

type_synonym ('s, 'k) jwt_parser =
  "('s, 'k) key_provider \<Rightarrow> string \<Rightarrow> string \<Rightarrow> string \<Rightarrow> ('s, go_error, string option) io"

text \<open>What the package documents of a compact token: at most one call of the provider, for the
  \<open>kid\<close> of the header; success only if one of the offered pairs of algorithm and key verifies the
  signature, and the claims are valid for that issuer and audience.\<close>

record 'k jws_facts =
  jf_kid :: "string \<Rightarrow> string option option"
  jf_signed :: "jwa \<Rightarrow> 'k \<Rightarrow> string \<Rightarrow> bool"
  jf_valid :: "string \<Rightarrow> string \<Rightarrow> string \<Rightarrow> bool"
  jf_subject :: "string \<Rightarrow> string option"

definition parse_ok :: "'k jws_facts \<Rightarrow> ('s, 'k) jwt_parser \<Rightarrow> bool" where
  "parse_ok f parse \<longleftrightarrow> (\<forall>fetch iss aud token s. case jf_kid f token of
     None \<Rightarrow> (\<exists>e. parse fetch iss aud token s = (Inl e, s))
   | Some kid \<Rightarrow> (case fetch kid s of
       (Inl _, t) \<Rightarrow> (\<exists>e. parse fetch iss aud token s = (Inl e, t))
     | (Inr ks, t) \<Rightarrow>
         if list_ex (\<lambda>(a, k). jf_signed f a k token) ks \<and> jf_valid f iss aud token
         then parse fetch iss aud token s = (Inr (jf_subject f token), t)
         else (\<exists>e. parse fetch iss aud token s = (Inl e, t))))"

text \<open>The parser that does just this.\<close>

definition plain_parser :: "'k jws_facts \<Rightarrow> ('s, 'k) jwt_parser" where
  "plain_parser f fetch iss aud token s = (case jf_kid f token of
     None \<Rightarrow> (Inl (JwtErr ''parse''), s)
   | Some kid \<Rightarrow> (case fetch kid s of
       (Inl e, t) \<Rightarrow> (Inl e, t)
     | (Inr ks, t) \<Rightarrow>
         if list_ex (\<lambda>(a, k). jf_signed f a k token) ks \<and> jf_valid f iss aud token
         then (Inr (jf_subject f token), t) else (Inl (JwtErr ''verify''), t)))"

lemma plain_parser_ok: "parse_ok f (plain_parser f)"
  by (auto simp: parse_ok_def plain_parser_def split: option.splits prod.splits sum.splits)

section \<open>The verifier\<close>

record ('s, 'k) jwxVerifier =
  jv_cache :: "('s, 'k) jwk_Cache"
  jv_jwksURL :: string
  jv_issuer :: string
  jv_audience :: string

text \<open>\<open>jwk.NewCache\<close> and \<open>cache.Register\<close> are arguments.\<close>

definition NewJWTVerifier ::
    "('s, go_error, ('s, 'k) jwk_Cache) io \<Rightarrow> (('s, 'k) jwk_Cache \<Rightarrow> string \<Rightarrow> ('s, go_error, unit) io)
     \<Rightarrow> string \<Rightarrow> string \<Rightarrow> ('s, go_error, ('s, 'k) jwxVerifier) io" where
  "NewJWTVerifier newCache register issuer audience s =
     (if issuer = [] \<or> audience = [] then
        (Inl (JwtErr ''identity: issuer and audience must both be set to build a JWT verifier''), s)
      else let jwksURL = strings_TrimRight issuer ''/'' @ ''/.well-known/jwks.json'' in
        case newCache s of
          (Inl err, t) \<Rightarrow> (Inl (Wrap ''starting JWKS cache'' err), t)
        | (Inr cache, t) \<Rightarrow>
            (case register cache jwksURL t of
               (Inl err, u) \<Rightarrow> (Inl (Wrap (''registering JWKS endpoint '' @ jwksURL) err), u)
             | (Inr _, u) \<Rightarrow> (Inr \<lparr>jv_cache = cache, jv_jwksURL = jwksURL, jv_issuer = issuer,
                                 jv_audience = audience\<rparr>, u)))"

text \<open>\<open>kid\<close> is \<open>None\<close> when the header has none.\<close>

definition lookupRS256Key :: "'k jwk_Set \<Rightarrow> string option \<Rightarrow> go_error + 'k" where
  "lookupRS256Key ks kid =
     (if kid \<noteq> None \<and> kid \<noteq> Some [] then
        (case LookupKeyID ks (the kid) of
           None \<Rightarrow> Inl (JwtErr (''no JWKS key found for kid='' @ the kid))
         | Some k \<Rightarrow> Inr k)
      else if set_Len ks = 1 then Inr (set_Key ks 0)
      else Inl (JwtErr ''token has no kid and JWKS does not have exactly one key''))"

definition FetchKeys :: "('s, 'k) jwk_Cache \<Rightarrow> string \<Rightarrow> ('s, 'k) key_provider" where
  "FetchKeys cache jwksURL kid s =
     (case cache_Lookup cache jwksURL s of
        (Inl err, t) \<Rightarrow> (Inl (Wrap ''looking up cached JWKS'' err), t)
      | (Inr ks, t) \<Rightarrow>
          (case lookupRS256Key ks kid of
             Inr key \<Rightarrow> (Inr [(RS256, key)], t)
           | Inl lookupErr \<Rightarrow>
               (case cache_Refresh cache jwksURL t of
                  (Inl refreshErr, u) \<Rightarrow> (Inl (Wrap ''forced JWKS refresh also failed'' lookupErr), u)
                | (Inr refreshed, u) \<Rightarrow>
                    (case lookupRS256Key refreshed kid of
                       Inl err \<Rightarrow> (Inl err, u)
                     | Inr key \<Rightarrow> (Inr [(RS256, key)], u)))))"

definition Verify :: "('s, 'k) jwt_parser \<Rightarrow> ('s, 'k) jwxVerifier \<Rightarrow> string \<Rightarrow> ('s, go_error, string) io" where
  "Verify parse v token s =
     (case parse (FetchKeys (jv_cache v) (jv_jwksURL v)) (jv_issuer v) (jv_audience v) token s of
        (Inl err, t) \<Rightarrow> (Inl err, t)
      | (Inr None, t) \<Rightarrow> (Inl (JwtErr ''token has no subject claim''), t)
      | (Inr (Some sub), t) \<Rightarrow>
          (if sub = [] then Inl (JwtErr ''token has no subject claim'') else Inr sub, t))"

section \<open>Lemmas\<close>

text \<open>The provider offers at most one key, always with RS256, and it is the answer of a lookup in
  the cached or in the refreshed set.\<close>

lemma FetchKeys_offer:
  assumes "FetchKeys cache url kid s = (Inr ks, t)"
  obtains key got u where "ks = [(RS256, key)]" "lookupRS256Key got kid = Inr key"
    "cache_Lookup cache url s = (Inr got, t)
     \<or> (\<exists>old. cache_Lookup cache url s = (Inr old, u) \<and> lookupRS256Key old kid \<noteq> Inr key
          \<and> cache_Refresh cache url u = (Inr got, t))"
  using assms unfolding FetchKeys_def
  by (auto split: prod.splits sum.splits)

lemma FetchKeys_counter:
  fixes n :: "'s \<Rightarrow> nat"
  assumes "\<And>s. n (snd (cache_Lookup cache url s)) = n s"
    and "\<And>s. n (snd (cache_Refresh cache url s)) = Suc (n s)"
  shows "n (snd (FetchKeys cache url kid s)) \<le> Suc (n s)"
proof -
  obtain r t where l: "cache_Lookup cache url s = (r, t)" by fastforce
  have nt: "n t = n s" using assms(1) [of s] l by simp
  obtain q u where f: "cache_Refresh cache url t = (q, u)" by fastforce
  have nu: "n u = Suc (n s)" using assms(2) [of t] f nt by simp
  show ?thesis
    using nt nu by (auto simp: FetchKeys_def l f split: sum.splits)
qed

lemma parse_okD:
  assumes "parse_ok f parse"
  shows "case jf_kid f token of
     None \<Rightarrow> (\<exists>e. parse fetch iss aud token s = (Inl e, s))
   | Some kid \<Rightarrow> (case fetch kid s of
       (Inl _, t) \<Rightarrow> (\<exists>e. parse fetch iss aud token s = (Inl e, t))
     | (Inr ks, t) \<Rightarrow>
         if list_ex (\<lambda>(a, k). jf_signed f a k token) ks \<and> jf_valid f iss aud token
         then parse fetch iss aud token s = (Inr (jf_subject f token), t)
         else (\<exists>e. parse fetch iss aud token s = (Inl e, t)))"
  using assms unfolding parse_ok_def by blast

lemma parse_state:
  assumes "parse_ok f parse"
  shows "snd (parse fetch iss aud token s) = s
    \<or> (\<exists>kid. jf_kid f token = Some kid \<and> snd (parse fetch iss aud token s) = snd (fetch kid s))"
proof (cases "jf_kid f token")
  case None
  then show ?thesis using parse_okD [OF assms, where token = token and fetch = fetch and iss = iss and aud = aud and s = s] by auto
next
  case (Some kid)
  then show ?thesis using parse_okD [OF assms, where token = token and fetch = fetch and iss = iss and aud = aud and s = s]
    by (auto split: prod.splits sum.splits if_splits)
qed

lemma Verify_state:
  "snd (Verify parse v token s)
   = snd (parse (FetchKeys (jv_cache v) (jv_jwksURL v)) (jv_issuer v) (jv_audience v) token s)"
  by (auto simp: Verify_def split: prod.splits sum.splits option.splits)

section \<open>Properties\<close>

text \<open>
  A token costs the issuer at most one extra fetch: whatever the token's \<open>kid\<close>, verifying it
  forces at most one refresh of the key set (counted by any counter that lookups leave alone and
  refreshes increment), and none when the cached set has the key.
\<close>

lemma jwt_one_refresh:
  fixes n :: "'s \<Rightarrow> nat"
  assumes "parse_ok f parse"
    and "\<And>s. n (snd (cache_Lookup (jv_cache v) (jv_jwksURL v) s)) = n s"
    and "\<And>s. n (snd (cache_Refresh (jv_cache v) (jv_jwksURL v) s)) = Suc (n s)"
  shows "n (snd (Verify parse v token s)) \<le> n s + 1
    \<and> (\<forall>kid ks t key. jf_kid f token = Some kid
         \<and> cache_Lookup (jv_cache v) (jv_jwksURL v) s = (Inr ks, t) \<and> lookupRS256Key ks kid = Inr key
         \<longrightarrow> n (snd (Verify parse v token s)) = n s)"
proof (intro conjI allI impI)
  show "n (snd (Verify parse v token s)) \<le> n s + 1"
    using parse_state [OF assms(1), where fetch = "FetchKeys (jv_cache v) (jv_jwksURL v)"
        and iss = "jv_issuer v" and aud = "jv_audience v" and token = token and s = s]
      FetchKeys_counter [of n, OF assms(2,3)]
    by (auto simp: Verify_state)
next
  fix kid ks t key
  assume a: "jf_kid f token = Some kid \<and> cache_Lookup (jv_cache v) (jv_jwksURL v) s = (Inr ks, t)
    \<and> lookupRS256Key ks kid = Inr key"
  then have "snd (FetchKeys (jv_cache v) (jv_jwksURL v) kid s) = t" by (simp add: FetchKeys_def)
  moreover have "n t = n s" using assms(2) [of s] a by simp
  ultimately show "n (snd (Verify parse v token s)) = n s"
    using parse_state [OF assms(1), where fetch = "FetchKeys (jv_cache v) (jv_jwksURL v)"
        and iss = "jv_issuer v" and aud = "jv_audience v" and token = token and s = s] a
    by (auto simp: Verify_state)
qed

text \<open>
  C9. A subject is accepted only from a token whose signature an RS256 key verifies (whatever
  algorithm its header names), a key the issuer's set holds under the token's \<open>kid\<close> (or its only key
  when there is none), with claims valid for the configured issuer and audience; the subject is the
  token's and not empty.
\<close>

theorem jwt_rs256_only:
  assumes "Verify parse v token s = (Inr sub, t)" "parse_ok f parse"
  shows "sub \<noteq> [] \<and> jf_subject f token = Some sub \<and> jf_valid f (jv_issuer v) (jv_audience v) token
    \<and> (\<exists>kid got key. jf_kid f token = Some kid \<and> jf_signed f RS256 key token
         \<and> lookupRS256Key got kid = Inr key
         \<and> (cache_Lookup (jv_cache v) (jv_jwksURL v) s = (Inr got, t)
            \<or> (\<exists>u. cache_Refresh (jv_cache v) (jv_jwksURL v) u = (Inr got, t))))"
proof -
  let ?fetch = "FetchKeys (jv_cache v) (jv_jwksURL v)"
  have p: "parse ?fetch (jv_issuer v) (jv_audience v) token s = (Inr (Some sub), t)" "sub \<noteq> []"
    using assms(1) by (auto simp: Verify_def split: prod.splits sum.splits option.splits if_splits)
  note ok = parse_okD [OF assms(2), where token = token and fetch = ?fetch and iss = "jv_issuer v"
    and aud = "jv_audience v" and s = s]
  obtain kid where kid: "jf_kid f token = Some kid" using ok p by (cases "jf_kid f token") auto
  obtain ks u where ks: "?fetch kid s = (Inr ks, u)"
    using ok p kid by (cases "?fetch kid s") (auto split: sum.splits)
  then have *: "list_ex (\<lambda>(a, k). jf_signed f a k token) ks" "jf_valid f (jv_issuer v) (jv_audience v) token"
    "jf_subject f token = Some sub" "u = t"
    using ok p kid by (auto split: if_splits)
  from ks obtain key got w where "ks = [(RS256, key)]" "lookupRS256Key got kid = Inr key"
    "cache_Lookup (jv_cache v) (jv_jwksURL v) s = (Inr got, u)
     \<or> (\<exists>old. cache_Lookup (jv_cache v) (jv_jwksURL v) s = (Inr old, w) \<and> lookupRS256Key old kid \<noteq> Inr key
          \<and> cache_Refresh (jv_cache v) (jv_jwksURL v) w = (Inr got, u))"
    by (rule FetchKeys_offer)
  with * p kid show ?thesis by auto
qed

section \<open>Witnesses\<close>

text \<open>An issuer that has rotated from key 1 to key 2: the cache holds the old set until refreshed.
  The state is the cached set (old or new) and the number of refreshes.\<close>

definition sample_set :: "nat \<Rightarrow> nat jwk_Set" where
  "sample_set k = \<lparr>LookupKeyID = (\<lambda>i. if i = ''k2'' \<and> k = 2 then Some 2 else None), set_Len = 1,
     set_Key = (\<lambda>_. k)\<rparr>"

definition sample_verifier :: "(nat \<times> nat, nat) jwxVerifier" where
  "sample_verifier = \<lparr>jv_cache = \<lparr>cache_Lookup = (\<lambda>_ s. (Inr (sample_set (fst s)), s)),
       cache_Refresh = (\<lambda>_ s. (Inr (sample_set 2), (2, Suc (snd s))))\<rparr>,
     jv_jwksURL = ''https://issuer/.well-known/jwks.json'', jv_issuer = ''https://issuer'', jv_audience = ''aud''\<rparr>"

definition sample_facts :: "nat jws_facts" where
  "sample_facts = \<lparr>jf_kid = (\<lambda>_. Some (Some ''k2'')), jf_signed = (\<lambda>a k _. a = RS256 \<and> k = 2),
     jf_valid = (\<lambda>iss aud _. iss = ''https://issuer'' \<and> aud = ''aud''), jf_subject = (\<lambda>_. Some ''sub-1'')\<rparr>"

lemma sample_verify:
  "Verify (plain_parser sample_facts) sample_verifier ''token'' (1, 0) = (Inr ''sub-1'', (2, 1))"
  by code_simp

lemma jwt_one_refresh_witness:
  "snd (snd (Verify (plain_parser sample_facts) sample_verifier ''token'' (1, 0))) \<le> snd (1 :: nat, 0) + 1"
  by (rule jwt_one_refresh [where n = snd, THEN conjunct1, OF plain_parser_ok])
     (simp_all add: sample_verifier_def)

theorem jwt_rs256_only_witness:
  "jf_valid sample_facts ''https://issuer'' ''aud'' ''token''"
  using jwt_rs256_only [OF sample_verify plain_parser_ok] by (simp add: sample_verifier_def)

end
