(* ===== verification/Http.thy ===== *)
theory Http
  imports GoRFC3339 Identity_Service Usage_Service
begin

text \<open>
  What the two transport packages share: requests, responses, middlewares, and from
  src/internal/transport/publicapi/middleware.go the error envelope and the guard against requests
  that declare an actor. Package gin is not part of the repository: a handler chain is modelled as
  functions that call the next one or answer themselves, a request as what the handlers ask gin for,
  a response as its status and its body before serialisation.
\<close>

section \<open>Requests and responses\<close>

record Request =
  rq_Method :: string
  rq_Path :: string
  rq_Query :: "(string \<times> string) list"
  rq_Header :: "string \<Rightarrow> string"
  rq_Cookie :: "string \<Rightarrow> string option"
  rq_Body :: "string option"

record WireKey =
  wk_Id :: string
  wk_Prefix :: string
  wk_Handle :: "string option"
  wk_CreatedAt :: time
  wk_ExpiresAt :: time

record WireUser =
  wu_Id :: string
  wu_Handle :: string
  wu_Role :: string
  wu_Active :: bool

record WireBreakdownRow =
  wb_Key :: string
  wb_RawKey :: "string option"
  wb_Tokens :: i64
  wb_Cost :: float64
  wb_Turns :: i64

datatype body =
    NoBody
  | ErrorBody string string string
  | MeBody string string bool
  | KeysBody "WireKey list"
  | UsersBody "WireUser list"
  | IngestBody i64 i64
  | SummaryBody Totals "WireBreakdownRow list" i64
  | WindowsBody "WindowTotals list"
  | ScanRootsBody "ScanRootWithHostname list"
  | MachinesBody "MachineSummary list"
  | StatusBody string
  | TextBody string
  | MsgBody string
  | HtmlBody string
  | FileBody string
  | ListingBody "string list"
  | Panic

record SetCookie =
  ck_Name :: string
  ck_Value :: string
  ck_MaxAge :: int
  ck_Path :: string
  ck_Secure :: bool
  ck_HttpOnly :: bool
  ck_SameSiteLax :: bool

record Response =
  rs_Status :: nat
  rs_Body :: body
  rs_SetCookie :: "SetCookie list"
  rs_Location :: "string option"

text \<open>\<open>Panic\<close> stands for a panic that unwinds the chain; \<open>Recovery\<close> answers it.\<close>

definition respond :: "nat \<Rightarrow> body \<Rightarrow> Response" where
  "respond st b = \<lparr>rs_Status = st, rs_Body = b, rs_SetCookie = [], rs_Location = None\<rparr>"

text \<open>A handler gets the request and the actor the middlewares put on the context; a middleware turns
  the rest of the chain into a chain.\<close>

type_synonym 's handler = "Request \<Rightarrow> User option \<Rightarrow> 's \<Rightarrow> Response \<times> 's"
type_synonym 's middleware = "'s handler \<Rightarrow> 's handler"

section \<open>The error envelope\<close>

definition NewErrorEnvelope :: "string \<Rightarrow> string \<Rightarrow> string \<Rightarrow> body" where
  "NewErrorEnvelope c message hint = ErrorBody c message hint"

definition unauthorizedBody :: body where
  "unauthorizedBody = NewErrorEnvelope ''unauthorized'' ''authentication required'' []"

section \<open>Declared actors\<close>

definition forbiddenFieldNames :: "string list" where
  "forbiddenFieldNames = [''actor'', ''actorid'', ''ownerid'']"

definition forbiddenActorHeader :: string where "forbiddenActorHeader = ''X-Actor''"

definition forbidden_name :: "(string \<Rightarrow> string) \<Rightarrow> string \<Rightarrow> bool" where
  "forbidden_name uni key \<longleftrightarrow> strings_ToLower uni key \<in> set forbiddenFieldNames"

text \<open>Only an object has keys to look at. The body is put back, so the handlers read the same bytes.\<close>

definition hasForbiddenBodyField :: "(string \<Rightarrow> string) \<Rightarrow> Request \<Rightarrow> bool" where
  "hasForbiddenBodyField uni rq = (case rq_Body rq of
     None \<Rightarrow> False
   | Some b \<Rightarrow>
       if strings_TrimSpace b = [] then False
       else (case json_parse b of
           Some (JObj ps) \<Rightarrow> list_ex (\<lambda>(key, _). forbidden_name uni key) ps
         | _ \<Rightarrow> False))"

definition em_dash :: string where "em_dash = [CHR 0xE2, CHR 0x80, CHR 0x94]"

definition abortActorFieldPresent :: Response where
  "abortActorFieldPresent = respond 400 (NewErrorEnvelope ''actor_field_present''
     (''request may not declare an actor '' @ em_dash @ '' identity comes only from the resolved credential'') [])"

definition RejectActorFields :: "(string \<Rightarrow> string) \<Rightarrow> 's middleware" where
  "RejectActorFields uni nxt rq actor s =
     (if rq_Header rq forbiddenActorHeader \<noteq> [] then (abortActorFieldPresent, s)
      else if list_ex (\<lambda>(key, _). forbidden_name uni key) (rq_Query rq) then (abortActorFieldPresent, s)
      else if hasForbiddenBodyField uni rq then (abortActorFieldPresent, s)
      else nxt rq actor s)"

section \<open>The OpenAPI request validator\<close>

text \<open>The validator of the generated specification is a third-party middleware: \<open>None\<close> passes the
  request on, otherwise it reports a message and a status, which \<open>writeValidationError\<close> renders.\<close>

type_synonym validator = "Request \<Rightarrow> (string \<times> nat) option"

text \<open>The first group of \<open>^parameter "([^"]+)" in\<close>.\<close>

definition paramName :: "string \<Rightarrow> string option" where
  "paramName message =
     (let p = ''parameter '' @ [CHR 0x22] in
      if \<not> strings_HasPrefix message p then None
      else let r = strings_TrimPrefix message p; name = takeWhile (\<lambda>c. c \<noteq> CHR 0x22) r in
        if name \<noteq> [] \<and> strings_HasPrefix (drop (length name) r) ([CHR 0x22] @ '' in'') then Some name else None)"

definition writeValidationError :: "string \<Rightarrow> nat \<Rightarrow> Response" where
  "writeValidationError message statusCode =
     respond statusCode (ErrorBody (if statusCode = 404 then ''not_found'' else ''validation_error'') message
       (case paramName message of Some name \<Rightarrow> name | None \<Rightarrow> []))"

definition RequestValidator :: "validator \<Rightarrow> 's middleware" where
  "RequestValidator valid nxt rq actor s = (case valid rq of
     Some (message, statusCode) \<Rightarrow> (writeValidationError message statusCode, s)
   | None \<Rightarrow> nxt rq actor s)"

section \<open>Lemmas\<close>

lemma respond_fields [simp]:
  "rs_Status (respond st b) = st" "rs_Body (respond st b) = b" "rs_SetCookie (respond st b) = []"
  "rs_Location (respond st b) = None"
  by (simp_all add: respond_def)

lemma respond_inject [simp]: "respond st b = respond st' b' \<longleftrightarrow> st = st' \<and> b = b'"
  by (auto simp: respond_def)

lemma RejectActorFields_cases:
  assumes "RejectActorFields uni nxt rq actor s = (rs, t)"
  obtains (reject) "rs = abortActorFieldPresent" "t = s" | (pass) "nxt rq actor s = (rs, t)"
proof -
  have "(rs, t) = (abortActorFieldPresent, s) \<or> nxt rq actor s = (rs, t)"
    using assms unfolding RejectActorFields_def by presburger
  then show ?thesis using reject pass by blast
qed

lemma RequestValidator_cases:
  assumes "RequestValidator valid nxt rq actor s = (rs, t)"
  obtains (reject) message st where "valid rq = Some (message, st)" "rs = writeValidationError message st" "t = s"
  | (pass) "nxt rq actor s = (rs, t)"
  using assms by (auto simp: RequestValidator_def split: option.splits)

text \<open>A marshalled object of string members is read back by the guard with all its keys.\<close>

lemma scans_strings:
  assumes "list_all (\<lambda>(k, v). utf8_valid k \<and> utf8_valid v) fs"
  shows "json_parse (json_object (map (\<lambda>(k, v). (k, json_quote v)) fs))
    = Some (JObj (map (\<lambda>(k, v). (k, JStr (quote_body v))) fs))"
proof -
  have "list_all2 (\<lambda>(k, doc) (k', v). k' = k \<and> utf8_valid k \<and> scans 0 doc v)
      (map (\<lambda>(k, v). (k, json_quote v)) fs) (map (\<lambda>(k, v). (k, JStr (quote_body v))) fs)"
    using assms by (induction fs) (auto intro: scans_quote)
  then have "scans (Suc 0) (json_object (map (\<lambda>(k, v). (k, json_quote v)) fs))
      (JObj (map (\<lambda>(k, v). (k, JStr (quote_body v))) fs))"
    by (rule scans_object)
  then show ?thesis by (rule scans_parse) (simp add: max_depth_def)
qed

lemma TrimSpace_object: "strings_TrimSpace (json_object fs) \<noteq> []"
proof -
  have h: "hd (json_object fs) = CHR ''{''" "last (json_object fs) = CHR ''}''" "json_object fs \<noteq> []"
    by (simp_all add: json_object_def)
  then have "strings_TrimSpace (json_object fs) = json_object fs"
    by (intro TrimSpace_id) (simp_all add: space_seqs_def)
  then show ?thesis using h by simp
qed

text \<open>An object with a member named like an actor field in any case is caught.\<close>

lemma hasForbiddenBodyField_object:
  assumes "rq_Body rq = Some (json_object (map (\<lambda>(k, v). (k, json_quote v)) fs))"
    and "list_all (\<lambda>(k, v). utf8_valid k \<and> utf8_valid v) fs"
  shows "hasForbiddenBodyField uni rq \<longleftrightarrow> (\<exists>(k, v) \<in> set fs. forbidden_name uni k)"
proof -
  have "hasForbiddenBodyField uni rq
      \<longleftrightarrow> list_ex (\<lambda>(key, _). forbidden_name uni key) (map (\<lambda>(k, v). (k, JStr (quote_body v))) fs)"
    unfolding hasForbiddenBodyField_def assms(1) by (simp add: scans_strings [OF assms(2)] TrimSpace_object)
  then show ?thesis by (simp add: list_ex_iff split_def)
qed

end
