(* ===== verification/GoMarshal.thy ===== *)
theory GoMarshal
  imports GoJson
begin

text \<open>
  \<open>json.Marshal\<close> and \<open>json.MarshalIndent(v, "", "  ")\<close> of the documents the collector writes:
  integers, strings, arrays and objects, in one renderer, and the proof that the scanner of
  GoJson reads every rendered document back as its value.
\<close>

section \<open>Documents\<close>

datatype jdoc =
    DNull
  | DInt int
  | DStr string
  | DArr "jdoc list"
  | DObj "(string \<times> jdoc) list"

fun dec_nat :: "nat \<Rightarrow> string" where
  "dec_nat n = (if n < 10 then [char_of (48 + n)] else dec_nat (n div 10) @ [char_of (48 + n mod 10)])"

declare dec_nat.simps [simp del]

definition int_text :: "int \<Rightarrow> string" where
  "int_text i = (if i < 0 then ''-'' @ dec_nat (nat (- i)) else dec_nat (nat i))"

text \<open>A line break and the indentation of level \<open>n\<close>; nothing in the compact form.\<close>

definition newline :: "bool \<Rightarrow> nat \<Rightarrow> string" where
  "newline pretty n = (if pretty then CHR 0x0A # replicate (2 * n) (CHR '' '') else [])"

definition colon :: "bool \<Rightarrow> string" where
  "colon pretty = (if pretty then '': '' else '':'')"

fun render :: "bool \<Rightarrow> nat \<Rightarrow> jdoc \<Rightarrow> string"
  and render_items :: "bool \<Rightarrow> nat \<Rightarrow> jdoc list \<Rightarrow> string"
  and render_members :: "bool \<Rightarrow> nat \<Rightarrow> (string \<times> jdoc) list \<Rightarrow> string"
where
  "render pretty n DNull = ''null''"
| "render pretty n (DInt i) = int_text i"
| "render pretty n (DStr s) = json_quote s"
| "render pretty n (DArr ds) = (if ds = [] then ''[]''
     else ''['' @ newline pretty (Suc n) @ render_items pretty (Suc n) ds @ newline pretty n @ '']'')"
| "render pretty n (DObj ms) = (if ms = [] then ''{}''
     else ''{'' @ newline pretty (Suc n) @ render_members pretty (Suc n) ms @ newline pretty n @ ''}'')"
| "render_items pretty n [] = []"
| "render_items pretty n (d # ds) = render pretty n d
     @ (if ds = [] then [] else '','' @ newline pretty n @ render_items pretty n ds)"
| "render_members pretty n [] = []"
| "render_members pretty n ((k, d) # ms) = json_quote k @ colon pretty @ render pretty n d
     @ (if ms = [] then [] else '','' @ newline pretty n @ render_members pretty n ms)"

definition json_Marshal :: "jdoc \<Rightarrow> string" where
  "json_Marshal d = render False 0 d"

definition json_MarshalIndent :: "jdoc \<Rightarrow> string" where
  "json_MarshalIndent d = render True 0 d"

text \<open>The value a document stands for; whether its nesting is at most \<open>n\<close> and its keys are UTF-8.\<close>

fun doc_value :: "jdoc \<Rightarrow> json" where
  "doc_value DNull = JNull"
| "doc_value (DInt i) = JNum (int_text i)"
| "doc_value (DStr s) = JStr (quote_body s)"
| "doc_value (DArr ds) = JArr (map doc_value ds)"
| "doc_value (DObj ms) = JObj (map (\<lambda>(k, d). (k, doc_value d)) ms)"

fun doc_ok :: "nat \<Rightarrow> jdoc \<Rightarrow> bool" where
  "doc_ok n DNull \<longleftrightarrow> True"
| "doc_ok n (DInt i) \<longleftrightarrow> True"
| "doc_ok n (DStr s) \<longleftrightarrow> True"
| "doc_ok n (DArr ds) \<longleftrightarrow> 0 < n \<and> (\<forall>d \<in> set ds. doc_ok (n - 1) d)"
| "doc_ok n (DObj ms) \<longleftrightarrow> 0 < n \<and> (\<forall>(k, d) \<in> set ms. utf8_valid k \<and> doc_ok (n - 1) d)"

section \<open>Integers\<close>

lemma dec_nat_digits: "list_all is_digit (dec_nat n) \<and> dec_nat n \<noteq> [] \<and> (n \<noteq> 0 \<longrightarrow> hd (dec_nat n) \<noteq> CHR ''0'')"
proof (induction n rule: dec_nat.induct)
  case (1 n)
  have z: "char_of (48 + n) \<noteq> CHR ''0''" if "n < 10" "n \<noteq> 0"
  proof
    assume "char_of (48 + n) = CHR ''0''"
    then have "code (char_of (48 + n)) = code (CHR ''0'')" by simp
    with that show False by simp
  qed
  have d: "is_digit (char_of (48 + k))" if "k < 10" for k :: nat
    using that by (simp add: is_digit_def)
  show ?case
  proof (cases "n < 10")
    case True
    with z d show ?thesis by (subst (1 2 3) dec_nat.simps) simp
  next
    case False
    with 1 d [of "n mod 10"] show ?thesis by (subst (1 2 3) dec_nat.simps) (auto simp: hd_append)
  qed
qed

lemma digits_value_dec [simp]: "digits_value (dec_nat n) = int n"
proof (induction n rule: dec_nat.induct)
  case (1 n)
  show ?case
  proof (cases "n < 10")
    case True
    then show ?thesis by (subst dec_nat.simps) (simp add: digits_value_def)
  next
    case False
    have "10 * (int n div 10) + int n mod 10 = int n" by presburger
    with 1 False show ?thesis by (subst dec_nat.simps) (simp add: digits_value_def zdiv_int zmod_int)
  qed
qed

lemma number_ok_dec: "number_ok (dec_nat n)"
proof (cases "n = 0")
  case True
  have "char_of (48 :: nat) = CHR ''0''" by code_simp
  with True show ?thesis
    by (simp add: dec_nat.simps number_ok_def fraction_ok_def strings_TrimPrefix_def strings_HasPrefix_def)
next
  case False
  obtain c r where cr: "dec_nat n = c # r" using dec_nat_digits [of n] by (cases "dec_nat n") auto
  with False dec_nat_digits [of n] have "is_digit c" "list_all is_digit r" "c \<noteq> CHR ''0''" by auto
  moreover from this(1) have "c \<noteq> CHR ''-''" by (auto simp: is_digit_def)
  moreover from \<open>list_all is_digit r\<close> have "dropWhile is_digit r = []"
    by (simp add: dropWhile_eq_Nil_conv list_all_iff)
  then have "fraction_ok (dropWhile is_digit r)" by (simp only: fraction_ok_def list.case)
  ultimately show ?thesis
    by (simp add: cr number_ok_def strings_TrimPrefix_def strings_HasPrefix_def)
qed

lemma no_minus_dec: "\<not> strings_HasPrefix (dec_nat n) ''-''"
proof -
  obtain c r where "dec_nat n = c # r" using dec_nat_digits [of n] by (cases "dec_nat n") auto
  with dec_nat_digits [of n] show ?thesis by (auto simp: strings_HasPrefix_def is_digit_def)
qed

lemma number_ok_int: "number_ok (int_text i)"
proof (cases "i < 0")
  case True
  then show ?thesis using number_ok_dec [of "nat (- i)"] no_minus_dec [of "nat (- i)"]
    by (simp add: int_text_def number_ok_def strings_TrimPrefix_def strings_HasPrefix_def)
next
  case False
  then show ?thesis by (simp add: int_text_def number_ok_dec)
qed

lemma parse_int64_text [simp]: "parse_int64 (int_text (sint (w :: i64))) = Some w"
proof -
  have b: "- (2 ^ 63) \<le> sint w" "sint w < 2 ^ 63"
    using sint_ge [of w] sint_less [of w] by simp_all
  note d = dec_nat_digits [of "nat (- sint w)"] dec_nat_digits [of "nat (sint w)"]
    no_minus_dec [of "nat (sint w)"]
  show ?thesis
  proof (cases "sint w < 0")
    case True
    then have "int_text (sint w) = CHR ''-'' # dec_nat (nat (- sint w))" by (simp add: int_text_def)
    with True b d show ?thesis
      by (simp add: parse_int64_def strings_HasPrefix_def strings_TrimPrefix_def Let_def)
  next
    case False
    with b d show ?thesis by (simp add: parse_int64_def int_text_def strings_TrimPrefix_def Let_def)
  qed
qed

lemma int_text_shape: "\<exists>c r. int_text i = c # r \<and> (c = CHR ''-'' \<or> is_digit c) \<and> list_all number_char r"
proof -
  obtain c r where cr: "dec_nat (nat \<bar>i\<bar>) = c # r"
    using dec_nat_digits [of "nat \<bar>i\<bar>"] by (cases "dec_nat (nat \<bar>i\<bar>)") auto
  then have "list_all is_digit (c # r)" using dec_nat_digits [of "nat \<bar>i\<bar>"] by simp
  then have "is_digit c" "list_all number_char (c # r)" by (auto simp: number_char_def list_all_iff)
  then show ?thesis using cr by (cases "i < 0") (auto simp: int_text_def)
qed

lemma scan_number:
  "list_all number_char r \<Longrightarrow> scan_run (PNum acc, stk) (r @ rest) = scan_run (PNum (rev r @ acc), stk) rest"
  by (induction r arbitrary: acc) (auto simp: scan_step_def)

lemma scans_int: "scans d (int_text i) (JNum (int_text i))"
  unfolding scans_def
proof (intro allI impI)
  fix stk :: "frame list" and rest assume rest: "delimited rest"
  obtain c r where cr: "int_text i = c # r" "c = CHR ''-'' \<or> is_digit c" "list_all number_char r"
    using int_text_shape by blast
  have beg: "scan_step (PValue, stk) c = Some (PNum [c], stk)"
  proof (cases "is_digit c")
    case True
    then have "c \<noteq> x" if "\<not> is_digit x" for x using that by auto
    from this [of "CHR 0x20"] this [of "CHR 0x09"] this [of "CHR 0x0A"] this [of "CHR 0x0D"]
      this [of "CHR 0x22"] this [of "CHR ''[''"] this [of "CHR ''{''"] this [of "CHR ''t''"]
      this [of "CHR ''f''"] this [of "CHR ''n''"]
    show ?thesis using True by (simp add: scan_step_def is_ws_def begin_value_def) (simp add: is_digit_def)
  next
    case False
    with cr(2) show ?thesis by (simp add: scan_step_def is_ws_def begin_value_def)
  qed
  have ok: "number_ok (rev (rev r @ [c]))" using number_ok_int [of i] cr(1) by simp
  have "scan_run (PNum (rev r @ [c]), stk) rest = scan_run (PAfter (JNum (int_text i)), stk) rest"
  proof (cases rest)
    case Nil
    then show ?thesis using ok cr(1) by (cases stk) (simp_all add: scan_end_def)
  next
    case (Cons x xs)
    then have "\<not> number_char x" using rest by (auto simp: delimited_def is_ws_def number_char_def is_digit_def)
    then show ?thesis using Cons ok cr(1) by (simp add: scan_step_def)
  qed
  moreover have "scan_run (PValue, stk) (int_text i @ rest) = scan_run (PNum (rev r @ [c]), stk) rest"
    unfolding cr(1) by (simp only: append_Cons scan_run.simps beg option.case scan_number [OF cr(3)])
  ultimately show "scan_run (PValue, stk) (int_text i @ rest) = scan_run (PAfter (JNum (int_text i)), stk) rest"
    by simp
qed

section \<open>Strings that need not be UTF-8\<close>

text \<open>What a marshalled string is read back as: bytes that are no UTF-8 have become U+FFFD.\<close>

fun to_utf8 :: "string \<Rightarrow> string" where
  "to_utf8 [] = []"
| "to_utf8 (c # s) = (let n = utf8_len (c # s) in
     if n = 0 then utf8_encode rune_error @ to_utf8 s else c # take (n - 1) s @ to_utf8 (drop (n - 1) s))"

lemma to_utf8_id: "utf8_valid s \<Longrightarrow> to_utf8 s = s"
  by (induction s rule: utf8_valid.induct) (auto simp: Let_def)

lemma rune_error_text: "hex4 (CHR ''f'') (CHR ''f'') (CHR ''f'') (CHR ''d'') = Some rune_error"
  by (simp add: hex4_def hex_val_def)

lemma unquote_quote_any: "unquote (quote_body s) = Some (to_utf8 s)"
proof (induction s rule: quote_body.induct)
  case (2 c s)
  define n where "n = utf8_len (c # s)"
  show ?case
  proof (cases "code c < 128")
    case True
    then have "n = 1" using utf8_len_1_iff by (simp add: n_def)
    with True 2(1) show ?thesis by (simp add: unquote_ascii n_def [symmetric] del: unquote.simps)
  next
    case False
    define A where "A \<longleftrightarrow> n = 3 \<and> c = CHR 0xE2 \<and> take 2 s = [CHR 0x80, CHR 0xA8]"
    define B where "B \<longleftrightarrow> n = 3 \<and> c = CHR 0xE2 \<and> take 2 s = [CHR 0x80, CHR 0xA9]"
    consider "n = 0" | "n \<noteq> 0" A | "n \<noteq> 0" "\<not> A" B | "n \<noteq> 0" "\<not> A" "\<not> B" by blast
    then show ?thesis
    proof cases
      case 1
      have "quote_body (c # s) = CHR 0x5C # CHR ''u'' # CHR ''f'' # CHR ''f'' # CHR ''f'' # CHR ''d'' # quote_body s"
        using 1 False by (simp add: n_def [symmetric])
      moreover have "unquote (quote_body s) = Some (to_utf8 s)" using 2(2) [OF False n_def 1] .
      ultimately show ?thesis using 1 rune_error_text
        by (simp add: n_def [symmetric] unquote_u del: unquote.simps)
    next
      case second: 2
      then obtain r where r: "s = CHR 0x80 # CHR 0xA8 # r" using take_2_eq [of s] by (auto simp: A_def)
      have "quote_body (c # s) = CHR 0x5C # CHR ''u'' # CHR ''2'' # CHR ''0'' # CHR ''2'' # CHR ''8'' # quote_body r"
        using second r False n_def by (auto simp: Let_def A_def)
      moreover have "unquote (quote_body r) = Some (to_utf8 r)"
        using 2(3) [OF False n_def second(1) second(2) [unfolded A_def]] r by simp
      moreover have "to_utf8 (c # s) = c # take 2 s @ to_utf8 (drop 2 s)" "c = CHR 0xE2"
        using second unfolding to_utf8.simps(2) n_def [symmetric] Let_def A_def by simp_all
      then have "to_utf8 (c # s) = [CHR 0xE2, CHR 0x80, CHR 0xA8] @ to_utf8 r" using r by simp
      ultimately show ?thesis using line_separators by (simp only: unquote_u) simp
    next
      case third: 3
      then obtain r where r: "s = CHR 0x80 # CHR 0xA9 # r" using take_2_eq [of s] by (auto simp: B_def)
      have "quote_body (c # s) = CHR 0x5C # CHR ''u'' # CHR ''2'' # CHR ''0'' # CHR ''2'' # CHR ''9'' # quote_body r"
        using third r False n_def by (auto simp: Let_def B_def)
      moreover have "unquote (quote_body r) = Some (to_utf8 r)"
        using 2(4) [OF False n_def third(1) third(2) [unfolded A_def] third(3) [unfolded B_def]] r by simp
      moreover have "to_utf8 (c # s) = c # take 2 s @ to_utf8 (drop 2 s)" "c = CHR 0xE2"
        using third unfolding to_utf8.simps(2) n_def [symmetric] Let_def B_def by simp_all
      then have "to_utf8 (c # s) = [CHR 0xE2, CHR 0x80, CHR 0xA9] @ to_utf8 r" using r by simp
      ultimately show ?thesis using line_separators by (simp only: unquote_u) simp
    next
      case 4
      have n1: "1 < n" using 4(1) False utf8_len_1_iff [of c s] by (simp add: n_def nat_neq_iff)
      have q: "quote_body (c # s) = c # take (n - 1) s @ quote_body (drop (n - 1) s)"
        using 4 False by (simp add: n_def [symmetric] Let_def A_def B_def)
      have "unquote (quote_body (drop (n - 1) s)) = Some (to_utf8 (drop (n - 1) s))"
        using 2(5) [OF False n_def 4(1) 4(2) [unfolded A_def] 4(3) [unfolded B_def]] .
      then show ?thesis
        unfolding q unquote_multi [OF n_def [symmetric] n1] using 4(1) by (simp add: n_def [symmetric])
    qed
  qed
qed simp

lemma scans_quote_any: "scans d (json_quote s) (JStr (quote_body s))"
  by (auto simp: scans_def json_quote_def scan_step_def begin_value_def is_ws_def scan_quote_body
      unquote_quote_any)

section \<open>Rendered documents are read back\<close>

lemma scan_skip:
  assumes "\<And>c. is_ws c \<Longrightarrow> scan_step (ph, stk) c = Some (ph, stk)" "list_all is_ws w"
  shows "scan_run (ph, stk) (w @ r) = scan_run (ph, stk) r"
  using assms(2) by (induction w) (simp_all add: assms(1))

lemma newline_ws: "list_all is_ws (newline p n)"
  by (auto simp: newline_def is_ws_def list_all_iff)

lemma scan_newline [simp]:
  "scan_run (PValue, stk) (newline p n @ r) = scan_run (PValue, stk) r"
  "scan_run (PValueOrEnd, stk) (newline p n @ r) = scan_run (PValueOrEnd, stk) r"
  "scan_run (PKey ps, stk) (newline p n @ r) = scan_run (PKey ps, stk) r"
  "scan_run (PKeyOrEnd ps, stk) (newline p n @ r) = scan_run (PKeyOrEnd ps, stk) r"
  "scan_run (PAfter v, stk) (newline p n @ r) = scan_run (PAfter v, stk) r"
  by (rule scan_skip [OF _ newline_ws]; simp add: scan_step_def after_value_def)+

lemma scan_colon [simp]:
  "scan_run (PColon ps k, stk) (colon p @ r) = scan_run (PValue, FObj ps k # stk) r"
  by (simp add: colon_def scan_step_def is_ws_def)

lemma scan_key:
  "utf8_valid k \<Longrightarrow> scan_run (PKey ps, stk) (json_quote k @ r) = scan_run (PColon ps k, stk) r"
  by (simp add: json_quote_def scan_step_def is_ws_def scan_quote_body unquote_quote_body)

lemma delimited_newline: "delimited (newline p n @ CHR '']'' # r)" "delimited (newline p n @ CHR ''}'' # r)"
  by (simp_all add: delimited_def newline_def is_ws_def)

lemma scansD:
  "scans d doc v \<Longrightarrow> length stk + d \<le> max_depth \<Longrightarrow> delimited rest
   \<Longrightarrow> scan_run (PValue, stk) (doc @ rest) = scan_run (PAfter v, stk) rest"
  by (simp add: scans_def)

lemma render_head:
  "\<exists>c r. render p n d = c # r \<and> \<not> is_ws c \<and> c \<noteq> CHR '']''"
proof (cases d)
  case (DInt i)
  then show ?thesis using int_text_shape [of i] by (auto simp: is_ws_def is_digit_def)
qed (auto simp: json_quote_def is_ws_def)

lemma scan_first_item:
  "scan_run (PValueOrEnd, stk) (render p n d @ r) = scan_run (PValue, stk) (render p n d @ r)"
proof -
  obtain c q where "render p n d = c # q" "\<not> is_ws c" "c \<noteq> CHR '']''" using render_head by blast
  then show ?thesis by (simp add: scan_step_def)
qed

lemma scans_null: "scans d ''null'' JNull"
  by (simp add: scans_def scan_step_def is_ws_def begin_value_def is_digit_def)

lemma render_scans:
  "doc_ok k d \<Longrightarrow> scans k (render p n d) (doc_value d)"
  "ds \<noteq> [] \<Longrightarrow> \<forall>d \<in> set ds. doc_ok k d \<Longrightarrow> length stk + Suc k \<le> max_depth
   \<Longrightarrow> scan_run (PValue, FArr xs # stk) (render_items p n ds @ newline p m @ CHR '']'' # rest)
     = scan_run (PAfter (JArr (rev xs @ map doc_value ds)), stk) rest"
  "ms \<noteq> [] \<Longrightarrow> \<forall>(key, d) \<in> set ms. utf8_valid key \<and> doc_ok k d \<Longrightarrow> length stk + Suc k \<le> max_depth
   \<Longrightarrow> scan_run (PKey ps, stk) (render_members p n ms @ newline p m @ CHR ''}'' # rest)
     = scan_run (PAfter (JObj (rev ps @ map (\<lambda>(key, d). (key, doc_value d)) ms)), stk) rest"
proof (induction p n d and p n ds and p n ms arbitrary: k and k stk xs m rest and k stk ps m rest
    rule: render_render_items_render_members.induct)
  case (1 p n)
  then show ?case by (simp add: scans_null)
next
  case (2 p n i)
  then show ?case by (simp add: scans_int)
next
  case (3 p n s)
  then show ?case by (simp add: scans_quote_any)
next
  case (4 p n ds)
  show ?case unfolding scans_def
  proof (intro allI impI)
    fix stk :: "frame list" and rest
    assume depth: "length stk + k \<le> max_depth" and rest: "delimited rest"
    have k: "0 < k" using 4(2) by simp
    then have stk: "length stk < max_depth" using depth by simp
    show "scan_run (PValue, stk) (render p n (DArr ds) @ rest) = scan_run (PAfter (doc_value (DArr ds)), stk) rest"
    proof (cases ds)
      case Nil
      then show ?thesis using stk by (simp add: scan_step_def is_ws_def begin_value_def)
    next
      case (Cons d ds')
      have "scan_run (PValue, stk) (render p n (DArr ds) @ rest)
          = scan_run (PValueOrEnd, FArr [] # stk) (render_items p (Suc n) ds @ newline p n @ CHR '']'' # rest)"
        using stk Cons by (simp add: scan_step_def is_ws_def begin_value_def)
      also have "\<dots> = scan_run (PValue, FArr [] # stk) (render_items p (Suc n) ds @ newline p n @ CHR '']'' # rest)"
        unfolding Cons by (simp add: scan_first_item)
      also have "\<dots> = scan_run (PAfter (doc_value (DArr ds)), stk) rest"
        using 4(1) [of "k - 1" stk "[]" n rest] 4(2) k depth Cons by simp
      finally show ?thesis .
    qed
  qed
next
  case (5 p n ms)
  show ?case unfolding scans_def
  proof (intro allI impI)
    fix stk :: "frame list" and rest
    assume depth: "length stk + k \<le> max_depth" and rest: "delimited rest"
    have k: "0 < k" using 5(2) by simp
    then have stk: "length stk < max_depth" using depth by simp
    show "scan_run (PValue, stk) (render p n (DObj ms) @ rest) = scan_run (PAfter (doc_value (DObj ms)), stk) rest"
    proof (cases ms)
      case Nil
      then show ?thesis using stk by (simp add: scan_step_def is_ws_def begin_value_def)
    next
      case (Cons md ms')
      have "scan_run (PValue, stk) (render p n (DObj ms) @ rest)
          = scan_run (PKeyOrEnd [], stk) (render_members p (Suc n) ms @ newline p n @ CHR ''}'' # rest)"
        using stk Cons by (simp add: scan_step_def is_ws_def begin_value_def)
      also have "\<dots> = scan_run (PKey [], stk) (render_members p (Suc n) ms @ newline p n @ CHR ''}'' # rest)"
        unfolding Cons by (cases md) (simp add: json_quote_def scan_step_def is_ws_def)
      also have "\<dots> = scan_run (PAfter (doc_value (DObj ms)), stk) rest"
        using 5(1) [of "k - 1" stk "[]" n rest] 5(2) k depth Cons by simp
      finally show ?thesis .
    qed
  qed
next
  case (7 p n d ds)
  note sc = 7(1) [of k, unfolded scans_def, rule_format, of "FArr xs # stk"]
  have d: "doc_ok k d" "length (FArr xs # stk) + k \<le> max_depth" using 7(4,5) by simp_all
  show ?case
  proof (cases ds)
    case Nil
    then show ?thesis using sc [OF d delimited_newline(1)]
      by (simp add: scan_step_def after_value_def is_ws_def)
  next
    case (Cons e es)
    have "delimited (CHR '','' # r)" for r by (simp add: delimited_def)
    note sc = sc [OF d this]
    show ?thesis using sc 7(2) [of k stk "doc_value d # xs" m rest] 7(4,5) Cons
      by (simp add: scan_step_def after_value_def is_ws_def)
  qed
next
  case (9 p n key d ms)
  note sc = 9(1) [of k, unfolded scans_def, rule_format, of "FObj ps key # stk"]
  have d: "doc_ok k d" "length (FObj ps key # stk) + k \<le> max_depth" "utf8_valid key" using 9(4,5) by simp_all
  show ?case
  proof (cases ms)
    case Nil
    then show ?thesis using sc [OF d(1,2) delimited_newline(2)] d(3)
      by (simp add: scan_step_def after_value_def is_ws_def scan_key)
  next
    case (Cons e es)
    have "delimited (CHR '','' # r)" for r by (simp add: delimited_def)
    note sc = sc [OF d(1,2) this]
    show ?thesis using sc 9(2) [of k stk "(key, doc_value d) # ps" m rest] 9(4,5) Cons d(3)
      by (simp add: scan_step_def after_value_def is_ws_def scan_key)
  qed
qed simp_all

lemma parse_Marshal: "doc_ok max_depth d \<Longrightarrow> json_parse (json_Marshal d) = Some (doc_value d)"
  unfolding json_Marshal_def by (rule scans_parse [OF render_scans(1) order_refl])

lemma doc_ok_mono: "doc_ok m d \<Longrightarrow> m \<le> n \<Longrightarrow> doc_ok n d"
  by (induction m d arbitrary: n rule: doc_ok.induct) (fastforce intro: diff_le_mono)+

lemma parse_MarshalIndent:
  assumes "doc_ok max_depth d" "list_all is_ws w"
  shows "json_parse (json_MarshalIndent d @ w) = Some (doc_value d)"
proof -
  have del: "delimited w" using assms(2) by (cases w) (simp_all add: delimited_def)
  have "scan_run (PValue, []) (json_MarshalIndent d @ w) = scan_run (PAfter (doc_value d), []) (w @ [])"
    using scansD [OF render_scans(1) [OF assms(1), of True 0], of "[]" w] del
    by (simp add: json_MarshalIndent_def)
  also have "\<dots> = scan_run (PAfter (doc_value d), []) []"
    by (rule scan_skip [OF _ assms(2)]) (simp add: scan_step_def after_value_def)
  finally show ?thesis by (simp add: json_parse_def scan_end_def)
qed

section \<open>Decoded strings are UTF-8\<close>

lemma utf8_valid_append: "utf8_valid a \<Longrightarrow> utf8_valid b \<Longrightarrow> utf8_valid (a @ b)"
proof (induction a rule: utf8_valid.induct)
  case (2 c s)
  define n where "n = utf8_len (c # s)"
  have n: "0 < n" "utf8_valid (drop (n - 1) s)" using 2(2) by (simp_all add: n_def)
  note shape = utf8_len_shape [OF n_def [symmetric] n(1)]
  have "s @ b = take (n - 1) s @ (drop (n - 1) s @ b)" by simp
  then have "utf8_len (c # s @ b) = n" using shape(3) by metis
  then show ?case using 2 n shape(1) by (simp add: n_def [symmetric])
qed simp

lemma code_char_of [simp]: "n < 256 \<Longrightarrow> code (char_of n) = n"
  by simp

lemma valid_seq:
  assumes "utf8_first (code a) = (n, lo, hi)" "1 < n" "length bs = n - 1" "lo \<le> code (hd bs)" "code (hd bs) \<le> hi"
    "list_all cont_byte (tl bs)"
  shows "utf8_valid (a # bs)"
proof -
  have "list_all cont_byte (take (n - 2) (tl bs))" using assms(6) by (auto simp: list_all_iff dest: in_set_takeD)
  then have "utf8_len (a # bs) = n" using assms by (simp add: utf8_len_def)
  then show ?thesis using assms(2,3) by (simp del: utf8_valid.simps add: utf8_valid.simps)
qed

lemma encode_valid:
  assumes "r \<le> 0x10FFFF"
  shows "utf8_valid (utf8_encode r)"
proof -
  have m: "x mod 64 < 64" for x :: nat by simp
  have k: "(128 + x mod 64) mod 256 = 128 + x mod 64" "x mod 64 \<le> 63" for x :: nat using m [of x] by simp_all
  consider "r < 0x80" | "0x80 \<le> r" "r < 0x800" | "0xD800 \<le> r" "r \<le> 0xDFFF"
    | "0x800 \<le> r" "r < 0x10000" "\<not> (0xD800 \<le> r \<and> r \<le> 0xDFFF)" | "0x10000 \<le> r" by linarith
  then show ?thesis
  proof cases
    case 1
    then show ?thesis by (simp add: utf8_encode_def ascii_utf8_valid is_ascii_def del: utf8_valid.simps)
  next
    case 2
    then have b: "194 \<le> 192 + r div 64" "192 + r div 64 \<le> 223" by simp_all
    then have "utf8_first (192 + r div 64) = (2, 128, 191)" by (simp add: utf8_first_def)
    then show ?thesis using 2 b m [of r]
      by (auto simp: utf8_encode_def k simp del: utf8_valid.simps intro!: valid_seq)
  next
    case 3
    have "utf8_first 0xEF = (3, 128, 191)" by (simp add: utf8_first_def)
    then show ?thesis using 3
      by (auto simp: utf8_encode_def cont_byte_def simp del: utf8_valid.simps intro!: valid_seq)
  next
    case 4
    let ?a = "r div 4096" and ?b = "r div 64 mod 64"
    have ab: "r div 64 = 64 * ?a + ?b" "?a < 16" "?b < 64"
      using 4(2) div_mult2_eq [of r 64 64] by simp_all
    define lo hi where "lo = (if ?a = 0 then 160 else 128 :: nat)" and "hi = (if ?a = 13 then 159 else 191 :: nat)"
    have f: "utf8_first (224 + ?a) = (3, lo, hi)" using ab(2) by (auto simp: utf8_first_def lo_def hi_def)
    have "32 \<le> r div 64" using 4(1) by simp
    then have "lo \<le> 128 + ?b" using ab(1) by (auto simp: lo_def)
    moreover have "128 + ?b \<le> hi"
    proof (cases "?a = 13")
      case True
      then have "r div 64 < 0x360 \<or> 0x380 \<le> r div 64" using 4(3) by linarith
      then show ?thesis using True ab(1,3) by (auto simp: hi_def)
    qed (use ab(3) in \<open>simp add: hi_def\<close>)
    ultimately show ?thesis using 4 f ab
      by (auto simp: utf8_encode_def cont_byte_def k simp del: utf8_valid.simps intro!: valid_seq)
  next
    case 5
    let ?a = "r div 262144" and ?b = "r div 4096 mod 64"
    have ab: "r div 4096 = 64 * ?a + ?b" "?a \<le> 4" "?b < 64"
      using assms div_mult2_eq [of r 4096 64] by simp_all
    define lo hi where "lo = (if ?a = 0 then 144 else 128 :: nat)" and "hi = (if ?a = 4 then 143 else 191 :: nat)"
    have f: "utf8_first (240 + ?a) = (4, lo, hi)" using ab(2) by (auto simp: utf8_first_def lo_def hi_def)
    have "16 \<le> r div 4096" "r div 4096 \<le> 0x10F" using 5 assms by simp_all
    then have "lo \<le> 128 + ?b" "128 + ?b \<le> hi" using ab by (auto simp: lo_def hi_def)
    then show ?thesis using 5 assms f ab m [of r] m [of "r div 64"]
      by (auto simp: utf8_encode_def cont_byte_def k simp del: utf8_valid.simps intro!: valid_seq)
  qed
qed

lemma hex4_le: "hex4 a b c d = Some n \<Longrightarrow> n \<le> 0xFFFF"
proof -
  have h: "x < 16" if "hex_val c = Some x" for c x
    using that by (auto simp: hex_val_def Let_def split: if_splits)
  assume "hex4 a b c d = Some n"
  then obtain w x y z where "hex_val a = Some w" "hex_val b = Some x" "hex_val c = Some y" "hex_val d = Some z"
    "n = ((w * 16 + x) * 16 + y) * 16 + z" by (auto simp: hex4_def split: option.splits)
  with h [of a w] h [of b x] h [of c y] h [of d z] show ?thesis by simp
qed

lemma short_escape_ascii: "short_escape c = Some b \<Longrightarrow> is_ascii b"
  by (auto simp: short_escape_def is_ascii_def split: if_splits)

lemma unquote_valid: "unquote raw = Some s \<Longrightarrow> utf8_valid s"
proof (induction "length raw" arbitrary: raw s rule: less_induct)
  case less
  have enc: "utf8_valid (utf8_encode n @ t)" if "unquote q = Some t" "length q < length raw" "n \<le> 0x10FFFF" for n t q
    using less(1) [OF that(2,1)] encode_valid [OF that(3)] utf8_valid_append by blast
  have byte: "utf8_valid (b # t)" if "unquote q = Some t" "length q < length raw" "is_ascii b" for b t q
    using less(1) [OF that(2,1)] that(3) utf8_valid_append [of "[b]" t] ascii_utf8_valid [of "[b]"] by simp
  show ?case
  proof (cases raw)
    case Nil
    with less(2) show ?thesis by simp
  next
    case (Cons c r)
    show ?thesis
    proof (cases "c = CHR 0x5C")
      case True
      then obtain e q where r: "r = e # q" using less(2) Cons by (cases r) auto
      show ?thesis
      proof (cases "e = CHR ''u''")
        case False
        then obtain b t where "short_escape e = Some b" "unquote q = Some t" "s = b # t"
          using less(2) Cons True r by (auto split: option.splits)
        then show ?thesis using byte [of q t b] short_escape_ascii Cons r by simp
      next
        case True
        with less(2) Cons r \<open>c = CHR 0x5C\<close> obtain w x y z q' where q: "q = w # x # y # z # q'"
          by (auto split: list.splits)
        then obtain n where n: "hex4 w x y z = Some n" using less(2) Cons r True \<open>c = CHR 0x5C\<close>
          by (auto split: option.splits)
        have "n \<le> 0x10FFFF" using hex4_le [OF n] by simp
        then have plain: "utf8_valid (utf8_encode n @ t)" if "unquote q' = Some t" for t
          using enc [OF that] Cons r q by simp
        have err: "utf8_valid (utf8_encode rune_error @ t)" if "unquote q' = Some t" for t
          using enc [OF that, of rune_error] Cons r q by simp
        have two: "utf8_valid (utf8_encode (0x10000 + (n - 0xD800) * 1024 + (m - 0xDC00)) @ t)"
          if "unquote (drop 6 q') = Some t" "low_surrogate q' = Some m" "n \<le> 0xDBFF" for m t
        proof (rule enc [OF that(1)])
          have "m \<le> 0xDFFF" using that(2) by (auto simp: low_surrogate_def split: list.splits if_splits option.splits)
          with that(3) show "0x10000 + (n - 0xD800) * 1024 + (m - 0xDC00) \<le> 0x10FFFF" by simp
        qed (use Cons r q in simp)
        show ?thesis
          using less(2) Cons r q n True \<open>c = CHR 0x5C\<close> plain err two by (auto split: if_splits option.splits)
      qed
    next
      case False
      define n where "n = utf8_len (c # r)"
      have c: "\<not> (code c < 32 \<or> c = CHR 0x22)" using less(2) Cons False by (auto split: if_splits)
      show ?thesis
      proof (cases "n = 0")
        case True
        then obtain t where "unquote r = Some t" "s = utf8_encode rune_error @ t"
          using less(2) Cons False c by (auto simp: n_def Let_def split: if_splits)
        then show ?thesis using enc [of r t rune_error] Cons by simp
      next
        case n: False
        then obtain t where t: "unquote (drop (n - 1) r) = Some t" "s = c # take (n - 1) r @ t"
          using less(2) Cons False c by (auto simp: n_def Let_def split: if_splits)
        have "length (drop (n - 1) r) < length raw" using Cons by simp
        then have "utf8_valid t" using less(1) t(1) by blast
        moreover have "utf8_len (c # take (n - 1) r @ t) = n" "n - 1 \<le> length r"
          using utf8_len_shape(1,3) [OF n_def [symmetric]] n by simp_all
        ultimately show ?thesis using n t(2) by simp
      qed
    qed
  qed
qed

end
