(* ===== verification/Public_API.thy ===== *)
theory Public_API
  imports Http GoMarshal
begin

text \<open>
  src/internal/transport/publicapi (middleware.go, me_handler.go, keys_handler.go, usage_handler.go)
  with the routes and request types of src/internal/api/openapi.gen.go: the key-authenticated
  surface under /api/v1, from a request to the response and the database it leaves. What gin answers
  where no route matches is an argument.
\<close>

section \<open>The actor\<close>

definition RequireActor ::
    "'s UserRepo \<Rightarrow> 's APIKeyRepo \<Rightarrow> JWTVerifier \<Rightarrow> time \<Rightarrow> 's middleware" where
  "RequireActor usrs keys jwt now nxt rq actor s =
     (case ResolveActor usrs keys jwt now (rq_Header rq ''Authorization'') s of
        (Inl err, t) \<Rightarrow> (respond 401 unauthorizedBody, t)
      | (Inr user, t) \<Rightarrow> nxt rq (Some user) t)"

text \<open>\<open>actorID\<close> and its copies: the actor of the context, or the 401.\<close>

definition with_actor :: "(User \<Rightarrow> 's \<Rightarrow> Response \<times> 's) \<Rightarrow> User option \<Rightarrow> 's \<Rightarrow> Response \<times> 's" where
  "with_actor f actor s = (case actor of
     None \<Rightarrow> (respond 401 unauthorizedBody, s) | Some user \<Rightarrow> f user s)"

section \<open>GET /me\<close>

definition handleMe :: "'s handler" where
  "handleMe rq = with_actor (\<lambda>user s.
     (respond 200 (MeBody (usr_Handle user) (usr_Role user) (usr_Active user)), s))"

section \<open>GET /keys and DELETE /keys/{id}\<close>

definition notFoundBody :: body where
  "notFoundBody = NewErrorEnvelope ''not_found'' ''no such key'' []"

definition toAPIKey :: "APIKey \<Rightarrow> WireKey" where
  "toAPIKey k = \<lparr>wk_Id = key_ID k, wk_Prefix = key_KeyPrefix k, wk_Handle = None,
     wk_CreatedAt = key_CreatedAt k, wk_ExpiresAt = key_ExpiresAt k\<rparr>"

definition api_ListKeys :: "'s APIKeyRepo \<Rightarrow> 's handler" where
  "api_ListKeys keys rq = with_actor (\<lambda>user s.
     case Service_ListAPIKeys keys (usr_ID user) s of
       (Inl err, t) \<Rightarrow> (respond 500 NoBody, t)
     | (Inr ks, t) \<Rightarrow> (respond 200 (KeysBody (map toAPIKey ks)), t))"

definition api_RevokeKey :: "'s APIKeyRepo \<Rightarrow> string \<Rightarrow> 's handler" where
  "api_RevokeKey keys i rq = with_actor (\<lambda>user s.
     case Service_RevokeAPIKey keys (usr_ID user) i s of
       (Inl err, t) \<Rightarrow>
         (if errors_Is err ErrNotFound then respond 404 notFoundBody else respond 500 NoBody, t)
     | (Inr _, t) \<Rightarrow> (respond 204 NoBody, t))"

section \<open>POST /usage-events/batch\<close>

record UsageEventInput =
  ue_Actor :: string
  ue_CacheCreationInputTokens :: i64
  ue_CacheReadInputTokens :: i64
  ue_Id :: string
  ue_InputTokens :: i64
  ue_Machine :: string
  ue_Model :: string
  ue_OutputTokens :: i64
  ue_Path :: string
  ue_ScanRoot :: string
  ue_SessionId :: string
  ue_Timestamp :: wtime

record IngestUsageEventsBatchRequest =
  br_Events :: "UsageEventInput list"
  br_Hostname :: string
  br_InstallId :: string
  br_ScanRoots :: "UpsertScanRootInput list"

definition zero_event :: UsageEventInput where
  "zero_event = \<lparr>ue_Actor = [], ue_CacheCreationInputTokens = 0, ue_CacheReadInputTokens = 0, ue_Id = [],
     ue_InputTokens = 0, ue_Machine = [], ue_Model = [], ue_OutputTokens = 0, ue_Path = [], ue_ScanRoot = [],
     ue_SessionId = [], ue_Timestamp = zero_time\<rparr>"

definition UsageEventInput_fields :: "UsageEventInput field list" where
  "UsageEventInput_fields =
     [(''actor'', str_field (\<lambda>v r. r\<lparr>ue_Actor := v\<rparr>)),
      (''cache_creation_input_tokens'', int_field (\<lambda>v r. r\<lparr>ue_CacheCreationInputTokens := v\<rparr>)),
      (''cache_read_input_tokens'', int_field (\<lambda>v r. r\<lparr>ue_CacheReadInputTokens := v\<rparr>)),
      (''id'', str_field (\<lambda>v r. r\<lparr>ue_Id := v\<rparr>)),
      (''input_tokens'', int_field (\<lambda>v r. r\<lparr>ue_InputTokens := v\<rparr>)),
      (''machine'', str_field (\<lambda>v r. r\<lparr>ue_Machine := v\<rparr>)),
      (''model'', str_field (\<lambda>v r. r\<lparr>ue_Model := v\<rparr>)),
      (''output_tokens'', int_field (\<lambda>v r. r\<lparr>ue_OutputTokens := v\<rparr>)),
      (''path'', str_field (\<lambda>v r. r\<lparr>ue_Path := v\<rparr>)),
      (''scan_root'', str_field (\<lambda>v r. r\<lparr>ue_ScanRoot := v\<rparr>)),
      (''session_id'', str_field (\<lambda>v r. r\<lparr>ue_SessionId := v\<rparr>)),
      (''timestamp'', time_field (\<lambda>v r. r\<lparr>ue_Timestamp := v\<rparr>))]"

definition ScanRootInput_fields :: "UpsertScanRootInput field list" where
  "ScanRootInput_fields =
     [(''name'', str_field (\<lambda>v r. r\<lparr>usr_Name := v\<rparr>)),
      (''path'', str_field (\<lambda>v r. r\<lparr>usr_Path := v\<rparr>)),
      (''source_type'', str_field (\<lambda>v r. r\<lparr>usr_SourceType := v\<rparr>))]"

definition BatchRequest_fields :: "IngestUsageEventsBatchRequest field list" where
  "BatchRequest_fields =
     [(''events'', slice_field (\<lambda>v. decode_struct UsageEventInput_fields v zero_event) (\<lambda>v r. r\<lparr>br_Events := v\<rparr>)),
      (''hostname'', str_field (\<lambda>v r. r\<lparr>br_Hostname := v\<rparr>)),
      (''install_id'', str_field (\<lambda>v r. r\<lparr>br_InstallId := v\<rparr>)),
      (''scan_roots'', slice_field (\<lambda>v. decode_struct ScanRootInput_fields v
          \<lparr>usr_Path = [], usr_Name = [], usr_SourceType = []\<rparr>) (\<lambda>v r. r\<lparr>br_ScanRoots := v\<rparr>))]"

text \<open>\<open>c.ShouldBindJSON(&req)\<close>; \<open>None\<close> is an error.\<close>

definition ShouldBindJSON :: "Request \<Rightarrow> IngestUsageEventsBatchRequest option" where
  "ShouldBindJSON rq = (case rq_Body rq of
     None \<Rightarrow> None
   | Some b \<Rightarrow> Option.bind (json_first b) (\<lambda>v. decode_struct BatchRequest_fields v
       \<lparr>br_Events = [], br_Hostname = [], br_InstallId = [], br_ScanRoots = []\<rparr>))"

definition toIngestEvent :: "UsageEventInput \<Rightarrow> IngestEvent" where
  "toIngestEvent e = \<lparr>in_ID = ue_Id e, in_SessionID = ue_SessionId e, in_Actor = ue_Actor e,
     in_Path = ue_Path e, in_Machine = ue_Machine e, in_Model = ue_Model e, in_ScanRoot = ue_ScanRoot e,
     in_InputTokens = ue_InputTokens e, in_OutputTokens = ue_OutputTokens e,
     in_CacheReadInputTokens = ue_CacheReadInputTokens e,
     in_CacheCreationInputTokens = ue_CacheCreationInputTokens e, in_Timestamp = ue_Timestamp e\<rparr>"

text \<open>The two readings of the clock are arguments.\<close>

definition IngestUsageEventsBatch ::
    "'s Repository \<Rightarrow> (string \<Rightarrow> string) \<Rightarrow> wtime \<Rightarrow> wtime \<Rightarrow> 's handler" where
  "IngestUsageEventsBatch repo uni now1 now2 rq = with_actor (\<lambda>user s.
     case ShouldBindJSON rq of
       None \<Rightarrow> (respond 400 NoBody, s)
     | Some req \<Rightarrow>
         (case Service_UpsertMachine repo (br_InstallId req) (br_Hostname req) now1 s of
            (Inl err, t) \<Rightarrow> (respond 500 NoBody, t)
          | (Inr _, t) \<Rightarrow>
              (case UpsertScanRoots repo (br_InstallId req) (br_ScanRoots req) now2 t of
                 (Inl err, u) \<Rightarrow> (respond 500 NoBody, u)
               | (Inr _, u) \<Rightarrow>
                   (case IngestBatch repo uni (map toIngestEvent (br_Events req)) u of
                      (Inl err, v) \<Rightarrow> (respond 500 NoBody, v)
                    | (Inr (received, inserted), v) \<Rightarrow>
                        (respond 201 (IngestBody (of_nat received) inserted), v)))))"

section \<open>Routes\<close>

datatype api_op = OpGetMe | OpIngest | OpListKeys | OpRevokeKey string

text \<open>A parameter of a route is one path segment.\<close>

definition path_param :: "string \<Rightarrow> string \<Rightarrow> string option" where
  "path_param prefix path =
     (if strings_HasPrefix path prefix then
        let p = strings_TrimPrefix path prefix in if p \<noteq> [] \<and> CHR ''/'' \<notin> set p then Some p else None
      else None)"

definition api_route :: "Request \<Rightarrow> api_op option" where
  "api_route rq =
     (if rq_Method rq = ''GET'' \<and> rq_Path rq = ''/api/v1/me'' then Some OpGetMe
      else if rq_Method rq = ''POST'' \<and> rq_Path rq = ''/api/v1/usage-events/batch'' then Some OpIngest
      else if rq_Method rq = ''GET'' \<and> rq_Path rq = ''/api/v1/keys'' then Some OpListKeys
      else if rq_Method rq = ''DELETE'' then map_option OpRevokeKey (path_param ''/api/v1/keys/'' (rq_Path rq))
      else None)"

text \<open>What the handlers of a process depend on.\<close>

record Env =
  en_uni :: "string \<Rightarrow> string"
  en_jwt :: JWTVerifier
  en_valid :: validator
  en_auth_now :: time
  en_now1 :: wtime
  en_now2 :: wtime
  en_unmatched :: "Request \<Rightarrow> Response"

definition api_handler :: "Env \<Rightarrow> 's APIKeyRepo \<Rightarrow> 's Repository \<Rightarrow> api_op \<Rightarrow> 's handler" where
  "api_handler e keys repo op = (case op of
     OpGetMe \<Rightarrow> handleMe
   | OpIngest \<Rightarrow> IngestUsageEventsBatch repo (en_uni e) (en_now1 e) (en_now2 e)
   | OpListKeys \<Rightarrow> api_ListKeys keys
   | OpRevokeKey i \<Rightarrow> api_RevokeKey keys i)"

text \<open>The group /api/v1 as \<open>wireIdentity\<close> and \<open>wirePublicAPI\<close> build it.\<close>

definition api_v1 :: "Env \<Rightarrow> 's UserRepo \<Rightarrow> 's APIKeyRepo \<Rightarrow> 's Repository \<Rightarrow> Request \<Rightarrow> 's \<Rightarrow> Response \<times> 's" where
  "api_v1 e usrs keys repo rq s = (case api_route rq of
     None \<Rightarrow> (en_unmatched e rq, s)
   | Some op \<Rightarrow> RejectActorFields (en_uni e)
       (RequireActor usrs keys (en_jwt e) (en_auth_now e)
         (RequestValidator (en_valid e) (api_handler e keys repo op))) rq None s)"

section \<open>Effects of the steps\<close>

text \<open>The identity tables are as before.\<close>

definition same_identity :: "db \<Rightarrow> db \<Rightarrow> bool" where
  "same_identity s t \<longleftrightarrow> users t = users s \<and> api_keys t = api_keys s"

lemma same_identityI [intro]: "same_tables s t \<Longrightarrow> same_identity s t" "same_but_events s t \<Longrightarrow> same_identity s t"
  by (auto simp: same_identity_def same_tables_eq frame_simps)

lemma same_identity_trans: "same_identity a b \<Longrightarrow> same_identity b c \<Longrightarrow> same_identity a c"
  by (simp add: same_identity_def)

definition upsert_root :: "string \<Rightarrow> wtime \<Rightarrow> ScanRootRow list \<Rightarrow> UpsertScanRootInput \<Rightarrow> ScanRootRow list" where
  "upsert_root i now rs sr = filter (\<lambda>x. (sr_InstallID x, sr_ScanRootPath x) \<noteq> (i, usr_Path sr)) rs
     @ [\<lparr>sr_InstallID = i, sr_ScanRootPath = usr_Path sr, sr_Name = usr_Name sr,
          sr_SourceType = usr_SourceType sr, sr_LastSeenAt = now\<rparr>]"

lemma UpsertScanRoots_run:
  assumes "UpsertScanRoots (NewRepo g conv) i srs now s = (r, t)"
  shows "users t = users s \<and> api_keys t = api_keys s \<and> usage_events t = usage_events s \<and> machines t = machines s
    \<and> (r = Inr () \<longrightarrow> scan_roots t = foldl (upsert_root i now) (scan_roots s) srs)
    \<and> (usage_db_ok s \<longrightarrow> usage_db_ok t)"
  using assms unfolding UpsertScanRoots_def
proof (induction srs arbitrary: s)
  case Nil
  then show ?case by auto
next
  case (Cons sr srs)
  obtain q u where q: "Repo_UpsertScanRoot i (usr_Path sr) (usr_Name sr) (usr_SourceType sr) now s = (q, u)" by fastforce
  have inv: "usage_db_ok s \<longrightarrow> usage_db_ok u" using Repo_UpsertScanRoot_inv [OF q] by blast
  from q show ?case
  proof (cases rule: Repo_UpsertScanRoot_cases)
    case err
    with Cons.prems q inv show ?thesis by (auto simp: NewRepo_def same_tables_eq)
  next
    case (ok s')
    then have u: "users u = users s \<and> api_keys u = api_keys s \<and> usage_events u = usage_events s \<and> machines u = machines s
      \<and> scan_roots u = upsert_root i now (scan_roots s) sr"
      by (simp add: same_tables_eq upsert_root_def)
    have "forR (\<lambda>sr. UpsertScanRoot (NewRepo g conv) i (usr_Path sr) (usr_Name sr) (usr_SourceType sr) now) srs u = (r, t)"
      using Cons.prems q ok by (simp add: NewRepo_def)
    from Cons.IH [OF this] u inv show ?thesis by simp
  qed
qed

lemma UpsertMachine_run:
  assumes "Service_UpsertMachine (NewRepo g conv) i h now s = (r, t)"
  shows "users t = users s \<and> api_keys t = api_keys s \<and> usage_events t = usage_events s \<and> scan_roots t = scan_roots s
    \<and> (r = Inr () \<longrightarrow> machine_hosts t = (machine_hosts s)(i \<mapsto> h)) \<and> (usage_db_ok s \<longrightarrow> usage_db_ok t)"
proof -
  have q: "Repo_UpsertMachine i h now s = (r, t)"
    using assms by (simp add: Service_UpsertMachine_def NewRepo_def)
  from q show ?thesis
    by (cases rule: Repo_UpsertMachine_cases)
      (use Repo_UpsertMachine_inv [OF q] in \<open>auto simp: same_tables_eq machine_hosts_upsert\<close>)
qed

lemma IngestBatch_run:
  assumes "IngestBatch (NewRepo g conv) uni es s = (r, t)"
  shows "same_but_events s t \<and> (\<forall>e. r = Inl e \<longrightarrow> same_tables s t)
    \<and> (\<forall>v. r = Inr v \<longrightarrow> v = (length es, of_nat (length (usage_events t) - length (usage_events s)))
         \<and> usage_events t = usage_events s @ ingest_new (event_ids (usage_events s)) (map (toEvent uni) es))
    \<and> (usage_db_ok s \<longrightarrow> usage_db_ok t)"
proof (cases "es = []")
  case True
  with assms show ?thesis by (auto simp: IngestBatch_def Let_def)
next
  case False
  obtain q where q: "Repo_InsertBatch (map (toEvent uni) es) s = (q, t)"
    using assms False by (auto simp: IngestBatch_def Let_def NewRepo_def bindR_def split: prod.splits sum.splits)
  have r: "r = (case q of Inl e \<Rightarrow> Inl e | Inr n \<Rightarrow> Inr (length es, n))"
    using assms False q by (auto simp: IngestBatch_def Let_def NewRepo_def bindR_def split: sum.splits)
  from q show ?thesis
    by (cases rule: Repo_InsertBatch_cases)
      (use r Repo_InsertBatch_inv [OF q] in \<open>auto split: sum.splits\<close>)
qed

lemma with_actor_Some [simp]: "with_actor f (Some u) s = f u s"
  by (simp add: with_actor_def)

lemma api_ListKeys_run:
  assumes "api_ListKeys (NewAPIKeyRepo g uuid now) rq (Some u) s = (rs, t)"
  shows "same_tables s t"
proof -
  obtain q v where q: "Repo_ListAPIKeysByOwner g (usr_ID u) s = (q, v)" by fastforce
  with assms have "v = t"
    by (auto simp: api_ListKeys_def Service_ListAPIKeys_def NewAPIKeyRepo_def split: sum.splits)
  with ListAPIKeysByOwner_run [OF q] show ?thesis by simp
qed

lemma api_RevokeKey_run:
  assumes "api_RevokeKey (NewAPIKeyRepo g uuid now) i rq (Some u) s = (rs, t)" "identity_db_ok s"
  shows "same_tables s t \<or> (rs = respond 204 NoBody \<and> same_but_keys s t
    \<and> (\<exists>k \<in> set (api_keys s). k_ID k = i \<and> k_UserID k = usr_ID u \<and> k_RevokedAt k = None)
    \<and> api_keys t = revoke_row i now (api_keys s))"
proof -
  obtain q v where q: "Repo_RevokeAPIKey now i (usr_ID u) s = (q, v)" by fastforce
  have v: "v = t" and r: "\<And>x. q = Inr x \<Longrightarrow> rs = respond 204 NoBody"
    using assms(1) q
    by (auto simp: api_RevokeKey_def Service_RevokeAPIKey_def NewAPIKeyRepo_def split: sum.splits)
  have "keys_ok (api_keys s)" using assms(2) by (simp add: identity_db_ok_def)
  from q this show ?thesis
  proof (cases rule: RevokeAPIKey_cases)
    case (ok s' k)
    then show ?thesis using v r by (auto intro: same_but_keys_upd)
  qed (simp_all add: v)
qed

lemma Ingest_run:
  assumes "IngestUsageEventsBatch (NewRepo g conv) uni now1 now2 rq (Some u) s = (rs, t)"
  shows "same_identity s t
    \<and> (rs_Status rs = 201 \<longrightarrow> (\<exists>req. ShouldBindJSON rq = Some req
        \<and> usage_events t = usage_events s @ ingest_new (event_ids (usage_events s)) (map (toEvent uni \<circ> toIngestEvent) (br_Events req))
        \<and> machine_hosts t = (machine_hosts s)(br_InstallId req \<mapsto> br_Hostname req)
        \<and> scan_roots t = foldl (upsert_root (br_InstallId req) now2) (scan_roots s) (br_ScanRoots req)
        \<and> rs_Body rs = IngestBody (of_nat (length (br_Events req)))
             (of_nat (length (usage_events t) - length (usage_events s)))))
    \<and> (rs_Status rs \<noteq> 201 \<longrightarrow> usage_events t = usage_events s)
    \<and> (usage_db_ok s \<longrightarrow> usage_db_ok t)"
proof (cases "ShouldBindJSON rq")
  case None
  with assms show ?thesis by (auto simp: IngestUsageEventsBatch_def same_identity_def)
next
  case (Some req)
  obtain q1 s1 where q1: "Service_UpsertMachine (NewRepo g conv) (br_InstallId req) (br_Hostname req) now1 s = (q1, s1)"
    by fastforce
  note m = UpsertMachine_run [OF q1]
  show ?thesis
  proof (cases q1)
    case (Inl e)
    with assms Some q1 m show ?thesis by (auto simp: IngestUsageEventsBatch_def same_identity_def)
  next
    case 1: (Inr x)
    obtain q2 s2 where q2: "UpsertScanRoots (NewRepo g conv) (br_InstallId req) (br_ScanRoots req) now2 s1 = (q2, s2)"
      by fastforce
    note r = UpsertScanRoots_run [OF q2]
    have h: "machine_hosts s2 = machine_hosts s1" using r by (simp add: machine_hosts_def)
    show ?thesis
    proof (cases q2)
      case (Inl e)
      with assms Some q1 q2 1 m r show ?thesis by (auto simp: IngestUsageEventsBatch_def same_identity_def)
    next
      case 2: (Inr y)
      obtain q3 s3 where q3: "IngestBatch (NewRepo g conv) uni (map toIngestEvent (br_Events req)) s2 = (q3, s3)"
        by fastforce
      note b = IngestBatch_run [OF q3]
      have f: "users s3 = users s2" "api_keys s3 = api_keys s2" "machines s3 = machines s2" "scan_roots s3 = scan_roots s2"
        using b by (simp_all add: frame_simps)
      have h3: "machine_hosts s3 = machine_hosts s2" using f by (simp add: machine_hosts_def)
      have run: "(rs, t) = (case q3 of Inl err \<Rightarrow> (respond 500 NoBody, s3)
          | Inr (received, inserted) \<Rightarrow> (respond 201 (IngestBody (of_nat received) inserted), s3))"
        using assms Some q1 q2 q3 1 2 by (auto simp: IngestUsageEventsBatch_def split: sum.splits)
      show ?thesis
      proof (cases q3)
        case (Inl e)
        with run have "rs = respond 500 NoBody" "t = s3" by simp_all
        with Inl b f m r 1 2 show ?thesis by (auto simp: same_identity_def same_tables_eq)
      next
        case (Inr z)
        obtain n k where z: "z = (n, k)" by fastforce
        with run Inr have "rs = respond 201 (IngestBody (of_nat n) k)" "t = s3" by simp_all
        with Inr z b f m r h h3 1 2 Some show ?thesis
          by (auto simp: same_identity_def)
      qed
    qed
  qed
qed

lemma api_handler_run:
  assumes "api_handler e (NewAPIKeyRepo g uuid now) (NewRepo g conv) op rq (Some u) s = (rs, t)" "identity_db_ok s"
  shows "same_tables s t \<or> (op = OpIngest \<and> same_identity s t)
    \<or> (\<exists>i. op = OpRevokeKey i \<and> rs = respond 204 NoBody \<and> same_but_keys s t
        \<and> (\<exists>k \<in> set (api_keys s). k_ID k = i \<and> k_UserID k = usr_ID u \<and> k_RevokedAt k = None)
        \<and> api_keys t = revoke_row i now (api_keys s))"
proof (cases op)
  case OpGetMe
  with assms show ?thesis by (auto simp: api_handler_def handleMe_def)
next
  case OpIngest
  with assms(1) have "IngestUsageEventsBatch (NewRepo g conv) (en_uni e) (en_now1 e) (en_now2 e) rq (Some u) s = (rs, t)"
    by (simp add: api_handler_def)
  from Ingest_run [OF this] OpIngest show ?thesis by blast
next
  case OpListKeys
  with assms(1) have "api_ListKeys (NewAPIKeyRepo g uuid now) rq (Some u) s = (rs, t)"
    by (simp add: api_handler_def)
  from api_ListKeys_run [OF this] show ?thesis by blast
next
  case (OpRevokeKey i)
  with assms(1) have "api_RevokeKey (NewAPIKeyRepo g uuid now) i rq (Some u) s = (rs, t)"
    by (simp add: api_handler_def)
  from api_RevokeKey_run [OF this assms(2)] OpRevokeKey show ?thesis by blast
qed

text \<open>The chain before the handler: an answer of its own with every table as it was, or the handler
  with the actor the credential resolves to.\<close>

lemma api_v1_chain:
  assumes "api_v1 e (NewUserRepo uuid n) (NewAPIKeyRepo g uuid' now) repo rq s = (rs, t)"
  obtains (none) "api_route rq = None" "rs = en_unmatched e rq" "t = s"
  | (actor) op where "api_route rq = Some op" "rs = abortActorFieldPresent" "t = s"
  | (refused) op err where "api_route rq = Some op" "rs = respond 401 unauthorizedBody" "same_tables s t"
      "ResolveActor (NewUserRepo uuid n) (NewAPIKeyRepo g uuid' now) (en_jwt e) (en_auth_now e)
         (rq_Header rq ''Authorization'') s = (Inl err, t)"
  | (invalid) op user message st where "api_route rq = Some op" "rs = writeValidationError message st" "same_tables s t"
      "en_valid e rq = Some (message, st)"
      "ResolveActor (NewUserRepo uuid n) (NewAPIKeyRepo g uuid' now) (en_jwt e) (en_auth_now e)
         (rq_Header rq ''Authorization'') s = (Inr user, t)"
  | (handled) op user u where "api_route rq = Some op" "same_tables s u"
      "ResolveActor (NewUserRepo uuid n) (NewAPIKeyRepo g uuid' now) (en_jwt e) (en_auth_now e)
         (rq_Header rq ''Authorization'') s = (Inr user, u)"
      "usr_Role user \<noteq> ''owner''" "usr_Active user"
      "api_handler e (NewAPIKeyRepo g uuid' now) repo op rq (Some user) u = (rs, t)"
proof (cases "api_route rq")
  case None
  with assms none show ?thesis by (simp add: api_v1_def)
next
  case (Some op)
  obtain q u where q: "ResolveActor (NewUserRepo uuid n) (NewAPIKeyRepo g uuid' now) (en_jwt e) (en_auth_now e)
      (rq_Header rq ''Authorization'') s = (q, u)" by fastforce
  note res = actors.resolve_run [OF q]
  from assms Some have "RejectActorFields (en_uni e)
       (RequireActor (NewUserRepo uuid n) (NewAPIKeyRepo g uuid' now) (en_jwt e) (en_auth_now e)
         (RequestValidator (en_valid e) (api_handler e (NewAPIKeyRepo g uuid' now) repo op))) rq None s = (rs, t)"
    by (simp add: api_v1_def)
  then show ?thesis
  proof (cases rule: RejectActorFields_cases)
    case reject
    with Some actor show ?thesis by blast
  next
    case pass
    show ?thesis
    proof (cases q)
      case (Inl err)
      with pass q have "rs = respond 401 unauthorizedBody" "t = u" by (simp_all add: RequireActor_def)
      with Some Inl q res refused show ?thesis by blast
    next
      case (Inr user)
      with pass q have "RequestValidator (en_valid e) (api_handler e (NewAPIKeyRepo g uuid' now) repo op) rq (Some user) u = (rs, t)"
        by (simp add: RequireActor_def)
      then show ?thesis
      proof (cases rule: RequestValidator_cases)
        case (reject message st)
        with Some Inr q res invalid show ?thesis by blast
      next
        case pass
        with Some Inr q res handled show ?thesis by auto
      qed
    qed
  qed
qed

section \<open>Properties\<close>

lemma public_api_run:
  assumes "api_v1 e (NewUserRepo uuid n) (NewAPIKeyRepo g uuid' now) (NewRepo g conv) rq s = (rs, t)"
    and "identity_db_ok s"
  shows "same_tables s t
    \<or> (\<exists>user u. ResolveActor (NewUserRepo uuid n) (NewAPIKeyRepo g uuid' now) (en_jwt e) (en_auth_now e)
          (rq_Header rq ''Authorization'') s = (Inr user, u) \<and> usr_Role user \<noteq> ''owner'' \<and> usr_Active user
        \<and> ((api_route rq = Some OpIngest \<and> users t = users s \<and> api_keys t = api_keys s)
          \<or> (\<exists>i. api_route rq = Some (OpRevokeKey i) \<and> rs_Status rs = 204 \<and> same_but_keys s t
              \<and> (\<exists>k \<in> set (api_keys s). k_ID k = i \<and> k_UserID k = usr_ID user \<and> k_RevokedAt k = None)
              \<and> api_keys t = revoke_row i now (api_keys s))))"
  using assms(1)
proof (cases rule: api_v1_chain)
  case (handled op user u)
  have "identity_db_ok u" using assms(2) handled(2) by (simp add: identity_db_ok_same)
  note run = api_handler_run [OF handled(6) this]
  have u: "users u = users s" "api_keys u = api_keys s" using handled(2) by (simp_all add: same_tables_eq)
  have keys: "same_but_keys s t" if "same_but_keys u t"
    using that handled(2) by (blast intro: same_but_keys_trans)
  from run [unfolded u] consider "same_tables u t" | "op = OpIngest" "users t = users s" "api_keys t = api_keys s"
    | i where "op = OpRevokeKey i" "rs = respond 204 NoBody" "same_but_keys u t"
        "\<exists>k \<in> set (api_keys s). k_ID k = i \<and> k_UserID k = usr_ID user \<and> k_RevokedAt k = None"
        "api_keys t = revoke_row i now (api_keys s)"
    by (auto simp: same_identity_def u)
  then show ?thesis
  proof cases
    case 1
    then show ?thesis using handled(2) same_tables_trans by blast
  next
    case 2
    then show ?thesis using handled by blast
  next
    case (3 i)
    then have "rs_Status rs = 204" by simp
    with 3 keys handled show ?thesis by blast
  qed
qed auto

lemma ingest_response:
  assumes "api_v1 e (NewUserRepo uuid n) (NewAPIKeyRepo g uuid' now) (NewRepo g' conv) rq s = (rs, t)"
    and "api_route rq = Some OpIngest" "\<forall>message st. en_valid e rq = Some (message, st) \<longrightarrow> st \<noteq> 201"
  shows "(if rs_Status rs = 201
    then \<exists>req. ShouldBindJSON rq = Some req
      \<and> usage_events t = usage_events s
          @ ingest_new (event_ids (usage_events s)) (map (toEvent (en_uni e) \<circ> toIngestEvent) (br_Events req))
      \<and> machine_hosts t = (machine_hosts s)(br_InstallId req \<mapsto> br_Hostname req)
      \<and> scan_roots t = foldl (upsert_root (br_InstallId req) (en_now2 e)) (scan_roots s) (br_ScanRoots req)
      \<and> rs_Body rs = IngestBody (of_nat (length (br_Events req)))
          (of_nat (length (usage_events t) - length (usage_events s)))
    else usage_events t = usage_events s)
   \<and> (usage_db_ok s \<longrightarrow> usage_db_ok t)"
  using assms(1)
proof (cases rule: api_v1_chain)
  case none
  with assms(2) show ?thesis by simp
next
  case actor
  then show ?thesis by (simp add: abortActorFieldPresent_def)
next
  case refused
  then show ?thesis by (simp add: same_tables_eq usage_db_ok_same)
next
  case (invalid op user message st)
  with assms(3) show ?thesis by (simp add: writeValidationError_def same_tables_eq usage_db_ok_same)
next
  case (handled op user u)
  have "IngestUsageEventsBatch (NewRepo g' conv) (en_uni e) (en_now1 e) (en_now2 e) rq (Some user) u = (rs, t)"
    using handled assms(2) by (simp add: api_handler_def)
  from Ingest_run [OF this] show ?thesis
    using handled(2) by (cases "rs_Status rs = 201") (simp_all add: same_tables_eq machine_hosts_same usage_db_ok_same)
qed

text \<open>
  C7. The public API writes nothing on its own: whatever statement fails, a request leaves every table
  as it was, or its bearer token resolved to an active user who is not an owner and the request was a
  batch upload, which leaves users and keys alone, or the revocation of one live key of that very
  user, which changes that row and nothing else.
\<close>

theorem public_api_effects:
  assumes "api_v1 e (NewUserRepo uuid n) (NewAPIKeyRepo g uuid' now) (NewRepo g conv) rq s = (rs, t)"
    and "identity_db_ok s"
  shows "same_tables s t
    \<or> (\<exists>user u. ResolveActor (NewUserRepo uuid n) (NewAPIKeyRepo g uuid' now) (en_jwt e) (en_auth_now e)
          (rq_Header rq ''Authorization'') s = (Inr user, u) \<and> usr_Role user \<noteq> ''owner'' \<and> usr_Active user
        \<and> ((api_route rq = Some OpIngest \<and> users t = users s \<and> api_keys t = api_keys s)
          \<or> (\<exists>i. api_route rq = Some (OpRevokeKey i) \<and> rs_Status rs = 204 \<and> same_but_keys s t
              \<and> (\<exists>k \<in> set (api_keys s). k_ID k = i \<and> k_UserID k = usr_ID user \<and> k_RevokedAt k = None)
              \<and> api_keys t = revoke_row i now (api_keys s))))"
  using assms by (rule public_api_run)

text \<open>
  C8. Uploading a batch: an answer 201 means that the body decoded to a request whose events with new
  ids were appended, priced by the server, whose machine now has the reported hostname and whose scan
  roots were recorded, and reports the two counts; with any other answer the stored events are as
  they were. (The validator never answers 201.)
\<close>

theorem ingest_endpoint:
  assumes "api_v1 e (NewUserRepo uuid n) (NewAPIKeyRepo g uuid' now) (NewRepo g' conv) rq s = (rs, t)"
    and "api_route rq = Some OpIngest" "\<forall>message st. en_valid e rq = Some (message, st) \<longrightarrow> st \<noteq> 201"
  shows "if rs_Status rs = 201
    then \<exists>req. ShouldBindJSON rq = Some req
      \<and> usage_events t = usage_events s
          @ ingest_new (event_ids (usage_events s)) (map (toEvent (en_uni e) \<circ> toIngestEvent) (br_Events req))
      \<and> machine_hosts t = (machine_hosts s)(br_InstallId req \<mapsto> br_Hostname req)
      \<and> scan_roots t = foldl (upsert_root (br_InstallId req) (en_now2 e)) (scan_roots s) (br_ScanRoots req)
      \<and> rs_Body rs = IngestBody (of_nat (length (br_Events req)))
          (of_nat (length (usage_events t) - length (usage_events s)))
    else usage_events t = usage_events s"
  using ingest_response [OF assms] by blast

lemma forbidden_name_case:
  assumes "map ascii_lower k \<in> set forbiddenFieldNames"
  shows "forbidden_name uni k"
proof -
  have "is_ascii (ascii_lower c) \<longleftrightarrow> is_ascii c" for c
    by (auto simp: is_ascii_def ascii_lower_def)
  moreover have "list_all is_ascii (map ascii_lower k)"
    using assms by (auto simp: forbiddenFieldNames_def is_ascii_def)
  ultimately have "list_all is_ascii k" by (simp add: list_all_iff)
  with assms show ?thesis by (simp add: forbidden_name_def strings_ToLower_def)
qed

text \<open>A body that decodes is not blank.\<close>

lemma drop_seqs_keeps: "c \<in> set s \<Longrightarrow> \<forall>q \<in> set qs. c \<notin> set q \<Longrightarrow> c \<in> set (drop_seqs qs n s)"
proof (induction qs n s rule: drop_seqs.induct)
  case (2 qs fuel s)
  show ?case
  proof (cases "find (\<lambda>q. strings_HasPrefix s q) qs")
    case (Some q)
    then have q: "q \<in> set qs" "strings_HasPrefix s q" by (auto simp: find_Some_iff)
    then obtain r where "s = q @ r" by (elim HasPrefixE)
    then have "c \<in> set (drop (length q) s)" using 2(2,3) q(1) by auto
    then show ?thesis using 2 Some by simp
  qed (use 2 in simp)
qed simp

lemma scan_begins: "scan_run (PValue, []) b = Some v \<Longrightarrow> \<exists>c \<in> set b. begin_value [] c \<noteq> None"
  by (induction b) (auto simp: scan_step_def scan_end_def split: if_splits option.splits)

lemma begins_no_space:
  assumes "begin_value [] c \<noteq> None" "q \<in> set space_seqs"
  shows "c \<notin> set q"
proof -
  have "c \<in> {CHR ''['', CHR ''{'', CHR 0x22, CHR ''t'', CHR ''f'', CHR ''n'', CHR ''-''} \<or> is_digit c"
    using assms(1) by (auto simp: begin_value_def split: if_splits)
  moreover have "\<not> is_digit x" "x \<notin> {CHR ''['', CHR ''{'', CHR 0x22, CHR ''t'', CHR ''f'', CHR ''n'', CHR ''-''}"
    if "x \<in> set q" for x
    using that assms(2) by (auto simp: space_seqs_def is_digit_def)
  ultimately show ?thesis by blast
qed

lemma parse_not_blank:
  assumes "json_parse b = Some v"
  shows "strings_TrimSpace b \<noteq> []"
proof -
  obtain c where c: "c \<in> set b" "begin_value [] c \<noteq> None" using scan_begins [OF assms [unfolded json_parse_def]] by blast
  note ns = begins_no_space [OF c(2)]
  have "c \<in> set (strings_TrimSpace b)"
    unfolding strings_TrimSpace_def Let_def using ns c(1) by (simp add: drop_seqs_keeps)
  then show ?thesis by auto
qed

lemma body_member_forbidden:
  assumes "rq_Body rq = Some b" "json_parse b = Some (JObj ps)" "(k, v) \<in> set ps" "forbidden_name uni k"
  shows "hasForbiddenBodyField uni rq"
  using assms parse_not_blank [OF assms(2)] by (auto simp: hasForbiddenBodyField_def list_ex_iff)

text \<open>
  C3. A request that names an actor, in the header, a query parameter or a member of its JSON body,
  in any letter case, is refused with 400 before its credential is looked at: no handler runs, no
  statement is executed. The body is any JSON text of an object, however it is laid out and whatever its
  members hold.
\<close>

theorem actor_declared_rejected:
  assumes "api_route rq = Some op"
    and "rq_Header rq ''X-Actor'' \<noteq> []
      \<or> (\<exists>(k, v) \<in> set (rq_Query rq). map ascii_lower k \<in> {''actor'', ''actorid'', ''ownerid''})
      \<or> (\<exists>b ps. rq_Body rq = Some b \<and> json_parse b = Some (JObj ps)
          \<and> (\<exists>(k, v) \<in> set ps. map ascii_lower k \<in> {''actor'', ''actorid'', ''ownerid''}))"
  shows "api_v1 e usrs keys repo rq s = (abortActorFieldPresent, s) \<and> rs_Status abortActorFieldPresent = 400"
proof -
  have f: "{''actor'', ''actorid'', ''ownerid''} = set forbiddenFieldNames" by (simp add: forbiddenFieldNames_def)
  consider "rq_Header rq forbiddenActorHeader \<noteq> []"
    | "list_ex (\<lambda>(key, _). forbidden_name (en_uni e) key) (rq_Query rq)" | "hasForbiddenBodyField (en_uni e) rq"
    using assms(2) unfolding f
    by (fastforce simp: forbiddenActorHeader_def list_ex_iff intro: forbidden_name_case body_member_forbidden)
  then have "RejectActorFields (en_uni e) nxt rq None s = (abortActorFieldPresent, s)" for nxt
    unfolding RejectActorFields_def by cases simp_all
  then show ?thesis using assms(1) by (simp add: api_v1_def abortActorFieldPresent_def)
qed

section \<open>Concrete requests\<close>

definition sample_rq :: "string \<Rightarrow> string \<Rightarrow> string \<Rightarrow> Request" where
  "sample_rq meth path b = \<lparr>rq_Method = meth, rq_Path = path, rq_Query = [],
     rq_Header = (\<lambda>h. if h = ''Authorization'' then ''Bearer tpl_x'' else []), rq_Cookie = (\<lambda>_. None),
     rq_Body = Some b\<rparr>"

definition sample_env :: Env where
  "sample_env = \<lparr>en_uni = (\<lambda>s. s), en_jwt = None, en_valid = (\<lambda>_. None), en_auth_now = 5, en_now1 = (5, 0),
     en_now2 = (6, 0), en_unmatched = (\<lambda>_. respond 404 NoBody)\<rparr>"

abbreviation sample_usage :: "db Repository" where "sample_usage \<equiv> NewRepo plain_engine (\<lambda>_. 0)"

lemma sample_resolves:
  "ResolveActor sample_users sample_keys None 5 ''Bearer tpl_x'' sample_idb = (Inr (userFromRow sample_user), sample_idb)"
  by (rule live_key_resolves [OF sample_idb_facts(1) sample_token sample_idb_facts(3)])
    (use sample_idb_facts(4) in \<open>simp_all add: sample_key_def sample_user_def\<close>)

lemma sample_routes:
  "api_route (sample_rq ''DELETE'' ''/api/v1/keys/k1'' b) = Some (OpRevokeKey ''k1'')"
  "api_route (sample_rq ''POST'' ''/api/v1/usage-events/batch'' b) = Some OpIngest"
  "path_param ''/api/v1/keys/'' ''/api/v1/keys/k1'' = Some ''k1''"
proof -
  show p: "path_param ''/api/v1/keys/'' ''/api/v1/keys/k1'' = Some ''k1''" by code_simp
  show "api_route (sample_rq ''DELETE'' ''/api/v1/keys/k1'' b) = Some (OpRevokeKey ''k1'')"
    by (simp add: api_route_def sample_rq_def p)
  show "api_route (sample_rq ''POST'' ''/api/v1/usage-events/batch'' b) = Some OpIngest"
    by (simp add: api_route_def sample_rq_def)
qed

lemma sample_pass:
  assumes "api_route (sample_rq meth path b) = Some op" "\<not> hasForbiddenBodyField (\<lambda>s. s) (sample_rq meth path b)"
  shows "api_v1 sample_env sample_users sample_keys repo (sample_rq meth path b) sample_idb
    = api_handler sample_env sample_keys repo op (sample_rq meth path b) (Some (userFromRow sample_user)) sample_idb"
  using assms sample_resolves
  by (simp add: api_v1_def RejectActorFields_def RequireActor_def RequestValidator_def sample_env_def sample_rq_def
      forbiddenActorHeader_def)

lemma sample_empty_body: "\<not> hasForbiddenBodyField uni (sample_rq meth path [])"
proof -
  have "strings_TrimSpace [] = []" by code_simp
  then show ?thesis by (simp add: hasForbiddenBodyField_def sample_rq_def)
qed

lemma sample_revoke:
  "\<exists>t. api_v1 sample_env sample_users sample_keys sample_usage (sample_rq ''DELETE'' ''/api/v1/keys/k1'' []) sample_idb
      = (respond 204 NoBody, t)
    \<and> api_keys t = [(sample_key (HashAPIKey ''tpl_x''))\<lparr>k_RevokedAt := Some 10\<rparr>]"
proof -
  let ?rq = "sample_rq ''DELETE'' ''/api/v1/keys/k1'' []"
  have "\<exists>t. Repo_RevokeAPIKey 10 ''k1'' ''u1'' sample_idb = (Inr (apiKeyFromRow ((sample_key (HashAPIKey ''tpl_x''))\<lparr>k_RevokedAt := Some 10\<rparr>)), t)
      \<and> api_keys t = [(sample_key (HashAPIKey ''tpl_x''))\<lparr>k_RevokedAt := Some 10\<rparr>]"
    using sample_idb_facts(1)
    by (simp add: Repo_RevokeAPIKey_def not_found_def db_RevokeAPIKey_def revoke_where_def io_simps
        sample_idb_tables sample_key_def)
  then show ?thesis
    unfolding sample_pass [OF sample_routes(1) sample_empty_body]
    by (auto simp: api_handler_def api_RevokeKey_def Service_RevokeAPIKey_def NewAPIKeyRepo_def userFromRow_def sample_user_def)
qed

theorem public_api_effects_witness:
  "\<exists>t. api_v1 sample_env sample_users sample_keys sample_usage (sample_rq ''DELETE'' ''/api/v1/keys/k1'' []) sample_idb
      = (respond 204 NoBody, t) \<and> \<not> same_tables sample_idb t \<and> same_but_keys sample_idb t"
proof -
  obtain t where t: "api_v1 sample_env sample_users sample_keys sample_usage (sample_rq ''DELETE'' ''/api/v1/keys/k1'' []) sample_idb
      = (respond 204 NoBody, t)" "api_keys t = [(sample_key (HashAPIKey ''tpl_x''))\<lparr>k_RevokedAt := Some 10\<rparr>]"
    using sample_revoke by blast
  have "api_keys t \<noteq> api_keys sample_idb" using t(2) by (simp add: sample_idb_tables sample_key_def)
  then have "\<not> same_tables sample_idb t" using same_tables_eq(5) by blast
  then show ?thesis
    using public_api_effects [OF t(1) sample_idb_facts(2)] sample_routes(1) t(1) by auto
qed

definition sample_body :: string where
  "sample_body = json_object (map (\<lambda>(k, v). (k, json_quote v)) [(''install_id'', ''m1''), (''hostname'', ''box'')])"

lemma sample_ascii: "utf8_valid ''install_id''" "utf8_valid ''m1''" "utf8_valid ''hostname''" "utf8_valid ''box''"
  by code_simp+

lemma sample_body_decoded:
  "ShouldBindJSON (sample_rq meth path sample_body)
   = Some \<lparr>br_Events = [], br_Hostname = ''box'', br_InstallId = ''m1'', br_ScanRoots = []\<rparr>"
proof -
  have "json_first sample_body = Some (JObj [(''install_id'', JStr (quote_body ''m1'')), (''hostname'', JStr (quote_body ''box''))])"
    unfolding sample_body_def by (rule json_first_parse, subst scans_strings) (simp_all add: sample_ascii del: utf8_valid.simps)
  moreover have "foldName ''install_id'' = ''INSTALL_ID''" "foldName ''hostname'' = ''HOSTNAME''"
    "foldName ''events'' = ''EVENTS''" "foldName ''scan_roots'' = ''SCAN_ROOTS''" by code_simp+
  ultimately show ?thesis
    by (simp add: ShouldBindJSON_def sample_rq_def decode_struct_def BatchRequest_fields_def str_field_def
        unquote_quote_body sample_ascii del: utf8_valid.simps quote_body.simps foldName.simps unquote.simps)
qed

theorem ingest_endpoint_witness:
  "\<exists>t. api_v1 sample_env sample_users sample_keys sample_usage
      (sample_rq ''POST'' ''/api/v1/usage-events/batch'' sample_body) sample_idb
      = (respond 201 (IngestBody 0 0), t)
    \<and> machine_hosts t = (machine_hosts sample_idb)(''m1'' \<mapsto> ''box'')"
proof -
  let ?rq = "sample_rq ''POST'' ''/api/v1/usage-events/batch'' sample_body"
  have "\<not> forbidden_name (\<lambda>s. s) ''install_id''" "\<not> forbidden_name (\<lambda>s. s) ''hostname''" by code_simp+
  then have "\<not> hasForbiddenBodyField (\<lambda>s. s) ?rq"
    by (subst hasForbiddenBodyField_object [of _ "[(''install_id'', ''m1''), (''hostname'', ''box'')]"])
      (simp_all add: sample_rq_def sample_body_def sample_ascii del: utf8_valid.simps)
  note pass = sample_pass [OF sample_routes(2) this]
  obtain t where run: "api_v1 sample_env sample_users sample_keys sample_usage ?rq sample_idb = (respond 201 (IngestBody 0 0), t)"
    unfolding pass using sample_idb_facts(1)
    by (simp add: api_handler_def IngestUsageEventsBatch_def sample_body_decoded Service_UpsertMachine_def
        NewRepo_def Repo_UpsertMachine_def db_UpsertMachine_def io_simps UpsertScanRoots_def IngestBatch_def)
  then show ?thesis
    using ingest_endpoint [OF run sample_routes(2)] sample_body_decoded by (auto simp: sample_env_def)
qed

theorem actor_declared_rejected_witness:
  "api_v1 sample_env sample_users sample_keys sample_usage
     (sample_rq ''POST'' ''/api/v1/usage-events/batch'' (json_Marshal (DObj
        [(''events'', DArr [DObj [(''input_tokens'', DInt 5)]]), (''ActorID'', DArr [DInt 1])]))) sample_idb
   = (abortActorFieldPresent, sample_idb)"
proof -
  let ?d = "DObj [(''events'', DArr [DObj [(''input_tokens'', DInt 5)]]), (''ActorID'', DArr [DInt 1])]"
  have n: "map ascii_lower ''ActorID'' = ''actorid''" by code_simp
  have "utf8_valid ''events''" "utf8_valid ''input_tokens''" "utf8_valid ''ActorID''" by code_simp+
  then have "doc_ok max_depth ?d" by (simp add: max_depth_def del: utf8_valid.simps)
  from parse_Marshal [OF this] have "json_parse (json_Marshal ?d) = Some (doc_value ?d)" .
  then show ?thesis using n
    by (intro actor_declared_rejected [OF sample_routes(2), THEN conjunct1] disjI2 exI [of _ "json_Marshal ?d"])
      (simp add: sample_rq_def)
qed

end
