(* ===== verification/Bff_Session.thy ===== *)
theory Bff_Session
  imports GoRFC3339 GoBase64 GoCrypto Database
begin

text \<open>
  src/internal/transport/bff/session.go: the two cookies of the owner-facing surface, signed with
  HMAC-SHA-256 over their JSON payload. A \<open>Signer\<close> is its secret and what its clock reads.
\<close>

section \<open>The signer\<close>

definition sessionCookieName :: string where "sessionCookieName = ''session''"
definition stateCookieName :: string where "stateCookieName = ''oauth_state''"
definition sessionTTL :: int where "sessionTTL = hour"
definition stateTTL :: int where "stateTTL = 5 * minute"

record Signer =
  sg_secret :: string
  sg_now :: wtime

definition after_time :: "wtime \<Rightarrow> int \<Rightarrow> wtime" where
  "after_time w d = (fst w + d, snd w)"

definition sign :: "Signer \<Rightarrow> string \<Rightarrow> string" where
  "sign g payload = b64_encode payload @ ''.'' @ b64_encode (hmac_sha256 (sg_secret g) payload)"

definition cookie_verify :: "Signer \<Rightarrow> string \<Rightarrow> go_error + string" where
  "cookie_verify g token = (case last_index token (CHR ''.'') of
     None \<Rightarrow> Inl ErrInvalidCookie
   | Some dot \<Rightarrow>
       (case b64_decode (take dot token) of
          None \<Rightarrow> Inl ErrInvalidCookie
        | Some payload \<Rightarrow>
            (case b64_decode (drop (dot + 1) token) of
               None \<Rightarrow> Inl ErrInvalidCookie
             | Some sig \<Rightarrow>
                 if sig = hmac_sha256 (sg_secret g) payload then Inr payload else Inl ErrInvalidCookie)))"

section \<open>The session cookie\<close>

record sessionClaims =
  sc_UserID :: string
  sc_ExpiresAt :: wtime

definition sessionClaims_fields :: "sessionClaims field list" where
  "sessionClaims_fields =
     [(''user_id'', str_field (\<lambda>v r. r\<lparr>sc_UserID := v\<rparr>)),
      (''expires_at'', time_field (\<lambda>v r. r\<lparr>sc_ExpiresAt := v\<rparr>))]"

text \<open>\<open>json.Marshal\<close> fails for a time it cannot write.\<close>

definition marshal_session :: "sessionClaims \<Rightarrow> string option" where
  "marshal_session c = map_option (\<lambda>t. json_object
     [(''user_id'', json_quote (sc_UserID c)), (''expires_at'', json_quote t)]) (format_rfc3339 (sc_ExpiresAt c))"

definition NewSessionCookie :: "Signer \<Rightarrow> string \<Rightarrow> go_error + string" where
  "NewSessionCookie g userID =
     (case marshal_session \<lparr>sc_UserID = userID, sc_ExpiresAt = after_time (sg_now g) sessionTTL\<rparr> of
        None \<Rightarrow> Inl (TextErr ''bff: marshaling session claims'')
      | Some payload \<Rightarrow> Inr (sign g payload))"

definition unmarshal_session :: "string \<Rightarrow> sessionClaims option" where
  "unmarshal_session payload = Option.bind (json_parse payload)
     (\<lambda>v. decode_struct sessionClaims_fields v \<lparr>sc_UserID = [], sc_ExpiresAt = zero_time\<rparr>)"

definition ParseSessionCookie :: "Signer \<Rightarrow> string \<Rightarrow> go_error + string" where
  "ParseSessionCookie g v =
     (case cookie_verify g v of
        Inl err \<Rightarrow> Inl err
      | Inr payload \<Rightarrow>
          (case unmarshal_session payload of
             None \<Rightarrow> Inl ErrInvalidCookie
           | Some claims \<Rightarrow>
               if \<not> fst (sg_now g) < fst (sc_ExpiresAt claims) then Inl ErrInvalidCookie
               else Inr (sc_UserID claims)))"

section \<open>The state cookie\<close>

record stateClaims =
  st_State :: string
  st_Verifier :: string
  st_ExpiresAt :: wtime

definition stateClaims_fields :: "stateClaims field list" where
  "stateClaims_fields =
     [(''state'', str_field (\<lambda>v r. r\<lparr>st_State := v\<rparr>)),
      (''verifier'', str_field (\<lambda>v r. r\<lparr>st_Verifier := v\<rparr>)),
      (''expires_at'', time_field (\<lambda>v r. r\<lparr>st_ExpiresAt := v\<rparr>))]"

definition marshal_state :: "stateClaims \<Rightarrow> string option" where
  "marshal_state c = map_option (\<lambda>t. json_object
     [(''state'', json_quote (st_State c)), (''verifier'', json_quote (st_Verifier c)), (''expires_at'', json_quote t)])
     (format_rfc3339 (st_ExpiresAt c))"

definition NewStateCookie :: "Signer \<Rightarrow> string \<Rightarrow> string \<Rightarrow> go_error + string" where
  "NewStateCookie g state verifier =
     (case marshal_state \<lparr>st_State = state, st_Verifier = verifier, st_ExpiresAt = after_time (sg_now g) stateTTL\<rparr> of
        None \<Rightarrow> Inl (TextErr ''bff: marshaling state claims'')
      | Some payload \<Rightarrow> Inr (sign g payload))"

definition unmarshal_state :: "string \<Rightarrow> stateClaims option" where
  "unmarshal_state payload = Option.bind (json_parse payload)
     (\<lambda>v. decode_struct stateClaims_fields v \<lparr>st_State = [], st_Verifier = [], st_ExpiresAt = zero_time\<rparr>)"

definition ParseStateCookie :: "Signer \<Rightarrow> string \<Rightarrow> go_error + (string \<times> string)" where
  "ParseStateCookie g v =
     (case cookie_verify g v of
        Inl err \<Rightarrow> Inl err
      | Inr payload \<Rightarrow>
          (case unmarshal_state payload of
             None \<Rightarrow> Inl ErrInvalidCookie
           | Some claims \<Rightarrow>
               if \<not> fst (sg_now g) < fst (st_ExpiresAt claims) then Inl ErrInvalidCookie
               else Inr (st_State claims, st_Verifier claims)))"

section \<open>Lemmas\<close>

text \<open>The signature of a value that was signed with the secret is accepted.\<close>

lemma verify_sign:
  assumes "sg_secret g' = sg_secret g"
  shows "cookie_verify g' (sign g payload) = Inr payload"
proof -
  have "last_index (sign g payload) (CHR ''.'') = Some (length (b64_encode payload))"
    unfolding sign_def using last_index_append [OF b64_encode_no_dot] by simp
  then show ?thesis using assms
    by (simp add: cookie_verify_def b64_roundtrip) (simp add: sign_def b64_roundtrip)
qed

text \<open>Only a value whose second part decodes to the MAC of the first is accepted.\<close>

lemma verify_accepts:
  assumes "cookie_verify g v = Inr payload"
  obtains p q where "v = p @ ''.'' @ q" "b64_decode p = Some payload"
    "b64_decode q = Some (hmac_sha256 (sg_secret g) payload)" "CHR ''.'' \<notin> set q"
proof -
  obtain dot where dot: "last_index v (CHR ''.'') = Some dot" "b64_decode (take dot v) = Some payload"
    "b64_decode (drop (dot + 1) v) = Some (hmac_sha256 (sg_secret g) payload)"
    using assms by (auto simp: cookie_verify_def split: option.splits if_splits)
  have split: "last_index w c = Some i \<Longrightarrow> i < length w \<and> w ! i = c \<and> c \<notin> set (drop (i + 1) w)" for w c i
    by (induction w arbitrary: i) (auto split: option.splits if_splits simp: last_index_None_iff)
  note dot' = split [OF dot(1)]
  then have "v = take dot v @ ''.'' @ drop (dot + 1) v" using id_take_nth_drop [of dot v] by simp
  with dot(2,3) dot' that show ?thesis by blast
qed

lemma claims_keys:
  "utf8_valid ''user_id''" "utf8_valid ''expires_at''" "utf8_valid ''state''" "utf8_valid ''verifier''"
  "foldName ''user_id'' = ''USER_ID''" "foldName ''expires_at'' = ''EXPIRES_AT''"
  "foldName ''state'' = ''STATE''" "foldName ''verifier'' = ''VERIFIER''"
  by code_simp+

lemma unmarshal_marshal_session:
  assumes "marshal_session c = Some p" "utf8_valid (sc_UserID c)" "snd (sc_ExpiresAt c) mod 60 = 0"
  shows "unmarshal_session p = Some c"
proof -
  obtain t where t: "format_rfc3339 (sc_ExpiresAt c) = Some t"
    "p = json_object [(''user_id'', json_quote (sc_UserID c)), (''expires_at'', json_quote t)]"
    using assms(1) by (auto simp: marshal_session_def)
  have "utf8_valid t" using format_rfc3339_plain [OF t(1)] by (rule plain_utf8_valid)
  then have "json_parse p = Some (JObj [(''user_id'', JStr (quote_body (sc_UserID c))), (''expires_at'', JStr (quote_body t))])"
    unfolding t(2)
    by (intro scans_parse [of "Suc 0"] scans_object)
      (simp_all add: claims_keys assms(2) scans_quote max_depth_def del: utf8_valid.simps quote_body.simps)
  then show ?thesis
    by (simp add: unmarshal_session_def decode_struct_def sessionClaims_fields_def claims_keys str_field_def
        unquote_quote_body assms(2) time_field_quote [OF t(1) assms(3)] del: utf8_valid.simps foldName.simps quote_body.simps)
qed

lemma unmarshal_marshal_state:
  assumes "marshal_state c = Some p" "utf8_valid (st_State c)" "utf8_valid (st_Verifier c)"
    and "snd (st_ExpiresAt c) mod 60 = 0"
  shows "unmarshal_state p = Some c"
    and "unmarshal_session p = Some \<lparr>sc_UserID = [], sc_ExpiresAt = st_ExpiresAt c\<rparr>"
proof -
  obtain t where t: "format_rfc3339 (st_ExpiresAt c) = Some t"
    "p = json_object [(''state'', json_quote (st_State c)), (''verifier'', json_quote (st_Verifier c)),
       (''expires_at'', json_quote t)]"
    using assms(1) by (auto simp: marshal_state_def)
  have "utf8_valid t" using format_rfc3339_plain [OF t(1)] by (rule plain_utf8_valid)
  then have p: "json_parse p = Some (JObj [(''state'', JStr (quote_body (st_State c))),
      (''verifier'', JStr (quote_body (st_Verifier c))), (''expires_at'', JStr (quote_body t))])"
    unfolding t(2)
    by (intro scans_parse [of "Suc 0"] scans_object)
      (simp_all add: claims_keys assms(2,3) scans_quote max_depth_def del: utf8_valid.simps quote_body.simps)
  then show "unmarshal_state p = Some c"
    by (simp add: unmarshal_state_def decode_struct_def stateClaims_fields_def claims_keys str_field_def
        unquote_quote_body assms(2,3) time_field_quote [OF t(1) assms(4)] del: utf8_valid.simps foldName.simps quote_body.simps)
  from p show "unmarshal_session p = Some \<lparr>sc_UserID = [], sc_ExpiresAt = st_ExpiresAt c\<rparr>"
    by (simp add: unmarshal_session_def decode_struct_def sessionClaims_fields_def claims_keys
        time_field_quote [OF t(1) assms(4)] del: utf8_valid.simps foldName.simps quote_body.simps)
qed

text \<open>Reading back.\<close>

lemma session_cookie_read:
  assumes "NewSessionCookie g userID = Inr cookie" "sg_secret g' = sg_secret g"
    and "utf8_valid userID" "snd (sg_now g) mod 60 = 0"
  shows "ParseSessionCookie g' cookie
    = (if fst (sg_now g') < fst (sg_now g) + hour then Inr userID else Inl ErrInvalidCookie)"
proof -
  let ?c = "\<lparr>sc_UserID = userID, sc_ExpiresAt = after_time (sg_now g) sessionTTL\<rparr>"
  obtain p where p: "marshal_session ?c = Some p" "cookie = sign g p"
    using assms(1) by (auto simp: NewSessionCookie_def split: option.splits)
  have "unmarshal_session p = Some ?c"
    by (rule unmarshal_marshal_session [OF p(1)]) (use assms(3,4) in \<open>simp_all add: after_time_def\<close>)
  then show ?thesis
    by (simp add: ParseSessionCookie_def p(2) verify_sign [OF assms(2)] after_time_def sessionTTL_def)
qed

lemma state_cookie_read:
  assumes "NewStateCookie g state verifier = Inr cookie" "sg_secret g' = sg_secret g"
    and "utf8_valid state" "utf8_valid verifier" "snd (sg_now g) mod 60 = 0"
  shows "ParseStateCookie g' cookie
      = (if fst (sg_now g') < fst (sg_now g) + 5 * minute then Inr (state, verifier) else Inl ErrInvalidCookie)"
    and "ParseSessionCookie g' cookie
      = (if fst (sg_now g') < fst (sg_now g) + 5 * minute then Inr [] else Inl ErrInvalidCookie)"
proof -
  let ?c = "\<lparr>st_State = state, st_Verifier = verifier, st_ExpiresAt = after_time (sg_now g) stateTTL\<rparr>"
  obtain p where p: "marshal_state ?c = Some p" "cookie = sign g p"
    using assms(1) by (auto simp: NewStateCookie_def split: option.splits)
  have "unmarshal_state p = Some ?c" "unmarshal_session p = Some \<lparr>sc_UserID = [], sc_ExpiresAt = st_ExpiresAt ?c\<rparr>"
    by (rule unmarshal_marshal_state [OF p(1)]; use assms(3-5) in \<open>simp add: after_time_def\<close>)+
  then show "ParseStateCookie g' cookie
      = (if fst (sg_now g') < fst (sg_now g) + 5 * minute then Inr (state, verifier) else Inl ErrInvalidCookie)"
    and "ParseSessionCookie g' cookie
      = (if fst (sg_now g') < fst (sg_now g) + 5 * minute then Inr [] else Inl ErrInvalidCookie)"
    by (simp_all add: ParseStateCookie_def ParseSessionCookie_def p(2) verify_sign [OF assms(2)] after_time_def stateTTL_def)
qed

section \<open>Properties\<close>

text \<open>
  C10. Round trip: a session cookie made for a user id yields that id again for exactly one hour, at
  any signer with the same secret, and the invalid-cookie error from then on. (The clock's zone has
  an offset of whole minutes; the id is valid UTF-8.)
\<close>

theorem session_roundtrip:
  assumes "NewSessionCookie g userID = Inr cookie" "sg_secret g' = sg_secret g"
    and "utf8_valid userID" "snd (sg_now g) mod 60 = 0"
  shows "ParseSessionCookie g' cookie
    = (if fst (sg_now g') < fst (sg_now g) + hour then Inr userID else Inl ErrInvalidCookie)"
  by (rule session_cookie_read [OF assms])

text \<open>
  C11. Nothing else is accepted: a cookie yields a user id only if it is two base64 parts of which the
  second is the HMAC, under the secret, of the first, and the first is a JSON object with that user
  id and an expiry still in the future. Every refusal is the same error.
\<close>

theorem session_authentic:
  "case ParseSessionCookie g v of
     Inl e \<Rightarrow> e = ErrInvalidCookie
   | Inr userID \<Rightarrow> \<exists>p q payload c. v = p @ ''.'' @ q \<and> b64_decode p = Some payload
       \<and> b64_decode q = Some (hmac_sha256 (sg_secret g) payload)
       \<and> unmarshal_session payload = Some c \<and> sc_UserID c = userID \<and> fst (sg_now g) < fst (sc_ExpiresAt c)"
proof (cases "cookie_verify g v")
  case (Inl e)
  then have "e = ErrInvalidCookie" by (auto simp: cookie_verify_def split: option.splits if_splits)
  with Inl show ?thesis by (simp add: ParseSessionCookie_def)
next
  case (Inr payload)
  obtain p q where v: "v = p @ ''.'' @ q" "b64_decode p = Some payload"
    "b64_decode q = Some (hmac_sha256 (sg_secret g) payload)" by (rule verify_accepts [OF Inr])
  show ?thesis
  proof (cases "unmarshal_session payload")
    case None
    with Inr show ?thesis by (simp add: ParseSessionCookie_def)
  next
    case (Some c)
    with Inr v show ?thesis by (auto simp: ParseSessionCookie_def)
  qed
qed

text \<open>
  The two kinds of cookie do not pass for each other, though one secret signs both: a state cookie
  read back gives its state and PKCE verifier for exactly five minutes, and presented as a session it
  names no user (the empty id).
\<close>

lemma state_cookie_kind:
  assumes "NewStateCookie g state verifier = Inr cookie" "sg_secret g' = sg_secret g"
    and "utf8_valid state" "utf8_valid verifier" "snd (sg_now g) mod 60 = 0"
  shows "ParseStateCookie g' cookie
      = (if fst (sg_now g') < fst (sg_now g) + 5 * minute then Inr (state, verifier) else Inl ErrInvalidCookie)
    \<and> ParseSessionCookie g' cookie
      = (if fst (sg_now g') < fst (sg_now g) + 5 * minute then Inr [] else Inl ErrInvalidCookie)"
  using state_cookie_read [OF assms] by blast

section \<open>Witnesses\<close>

definition sample_signer :: Signer where
  "sample_signer = \<lparr>sg_secret = ''k'', sg_now = (1700000000 * second, 7 * 3600)\<rparr>"

lemma sample_format:
  "\<exists>t. format_rfc3339 (1700003600 * second, 7 * 3600) = Some t" "\<exists>t. format_rfc3339 (1700000300 * second, 7 * 3600) = Some t"
proof -
  have "time_Year (1700003600 * second + 7 * 3600 * second) = 2023" "time_Year (1700000300 * second + 7 * 3600 * second) = 2023"
    by code_simp+
  then show "\<exists>t. format_rfc3339 (1700003600 * second, 7 * 3600) = Some t" "\<exists>t. format_rfc3339 (1700000300 * second, 7 * 3600) = Some t"
    by (simp_all only: format_rfc3339_def Let_def prod.case) simp_all
qed

theorem session_roundtrip_witness:
  "\<exists>cookie. NewSessionCookie sample_signer ''u1'' = Inr cookie
     \<and> ParseSessionCookie (sample_signer\<lparr>sg_now := (1700003599 * second, 0)\<rparr>) cookie = Inr ''u1''
     \<and> ParseSessionCookie (sample_signer\<lparr>sg_now := (1700003600 * second, 0)\<rparr>) cookie = Inl ErrInvalidCookie"
proof -
  obtain cookie where c: "NewSessionCookie sample_signer ''u1'' = Inr cookie"
    using sample_format(1)
    by (auto simp: NewSessionCookie_def marshal_session_def after_time_def sessionTTL_def sample_signer_def)
  have "utf8_valid ''u1''" by code_simp
  with session_roundtrip [OF c _ this, of "sample_signer\<lparr>sg_now := (1700003599 * second, 0)\<rparr>"]
    session_roundtrip [OF c _ this, of "sample_signer\<lparr>sg_now := (1700003600 * second, 0)\<rparr>"] c
  show ?thesis by (simp add: sample_signer_def)
qed

lemma state_cookie_kind_witness:
  "\<exists>cookie. NewStateCookie sample_signer ''st'' ''vf'' = Inr cookie
     \<and> ParseStateCookie sample_signer cookie = Inr (''st'', ''vf'') \<and> ParseSessionCookie sample_signer cookie = Inr []"
proof -
  obtain cookie where c: "NewStateCookie sample_signer ''st'' ''vf'' = Inr cookie"
    using sample_format(2)
    by (auto simp: NewStateCookie_def marshal_state_def after_time_def stateTTL_def sample_signer_def)
  have "utf8_valid ''st''" "utf8_valid ''vf''" by code_simp+
  with state_cookie_kind [OF c _ this, of sample_signer] c show ?thesis by (simp add: sample_signer_def)
qed

end
