(* ===== verification/Bff_Login.thy ===== *)
theory Bff_Login
  imports Http Bff_Session
begin

text \<open>
  src/internal/transport/bff: the owner's login (oauth.go, login_handler.go, callback_handler.go and
  the cookie helpers and error page of middleware.go), with the configuration of
  src/internal/platform/config.go. Package oauth2, the verifier of id tokens and the part of
  \<open>url.Parse\<close> after the scheme are arguments.
\<close>

section \<open>Configuration\<close>

record Config =
  cf_Port :: int
  cf_SSOIssuer :: string
  cf_AuthAudience :: string
  cf_DatabasePath :: string
  cf_SSOClientID :: string
  cf_SSOClientSecret :: string
  cf_SessionSecret :: string
  cf_SeedOwnerSSOSubject :: string

definition configured :: "Config \<Rightarrow> bool" where
  "configured cfg \<longleftrightarrow> cf_SSOIssuer cfg \<noteq> [] \<and> cf_SSOClientID cfg \<noteq> [] \<and> cf_SSOClientSecret cfg \<noteq> []
     \<and> cf_AuthAudience cfg \<noteq> []"

record OAuthConfig =
  oc_ClientID :: string
  oc_ClientSecret :: string
  oc_AuthURL :: string
  oc_TokenURL :: string
  oc_AuthStyleInHeader :: bool
  oc_RedirectURL :: string
  oc_Scopes :: "string list"

definition oauthConfig :: "Config \<Rightarrow> OAuthConfig" where
  "oauthConfig cfg =
     (let issuer = strings_TrimRight (cf_SSOIssuer cfg) ''/'';
          redirectURL = strings_TrimRight (cf_AuthAudience cfg) ''/'' @ ''/callback'' in
      \<lparr>oc_ClientID = cf_SSOClientID cfg, oc_ClientSecret = cf_SSOClientSecret cfg,
       oc_AuthURL = issuer @ ''/oauth2/auth'', oc_TokenURL = issuer @ ''/oauth2/token'',
       oc_AuthStyleInHeader = True, oc_RedirectURL = redirectURL, oc_Scopes = [''openid'']\<rparr>)"

text \<open>The package: the authorize URL for a state and the S256 challenge of a verifier; the exchange of
  a code with a verifier, for an error or the token's \<open>id_token\<close>, if it is a string.\<close>

record OAuth2 =
  oa_AuthCodeURL :: "OAuthConfig \<Rightarrow> string \<Rightarrow> string \<Rightarrow> string"
  oa_Exchange :: "OAuthConfig \<Rightarrow> string \<Rightarrow> string \<Rightarrow> go_error + string option"

section \<open>Cookies\<close>

text \<open>\<open>getScheme\<close> of package net/url: \<open>None\<close> is an error, the empty string no scheme.\<close>

definition is_letter :: "char \<Rightarrow> bool" where
  "is_letter c \<longleftrightarrow> (let n = code c in 65 \<le> n \<and> n \<le> 90 \<or> 97 \<le> n \<and> n \<le> 122)"

fun url_getScheme :: "bool \<Rightarrow> string \<Rightarrow> string option" where
  "url_getScheme first [] = None"
| "url_getScheme first (c # cs) =
     (if is_letter c then map_option (\<lambda>r. c # r) (url_getScheme False cs)
      else if is_digit c \<or> c \<in> set ''+-.'' then
        if first then None else map_option (\<lambda>r. c # r) (url_getScheme False cs)
      else if c = CHR '':'' then Some []
      else None)"

text \<open>\<open>rest_ok\<close> tells whether \<open>url.Parse\<close> accepts the URL otherwise; a colon at the start is an error.\<close>

definition url_scheme :: "(string \<Rightarrow> bool) \<Rightarrow> string \<Rightarrow> string option" where
  "url_scheme rest_ok rawURL =
     (if strings_HasPrefix rawURL '':'' \<or> \<not> rest_ok rawURL then None
      else Some (case url_getScheme True rawURL of Some p \<Rightarrow> map ascii_lower p | None \<Rightarrow> []))"

definition secureFromURL :: "(string \<Rightarrow> bool) \<Rightarrow> string \<Rightarrow> bool" where
  "secureFromURL rest_ok rawURL = (case url_scheme rest_ok rawURL of
     None \<Rightarrow> True | Some scheme \<Rightarrow> scheme = ''https'')"

definition setCookie :: "string \<Rightarrow> string \<Rightarrow> int \<Rightarrow> bool \<Rightarrow> SetCookie" where
  "setCookie name v maxAge secure = \<lparr>ck_Name = name, ck_Value = v, ck_MaxAge = maxAge, ck_Path = ''/'',
     ck_Secure = secure, ck_HttpOnly = True, ck_SameSiteLax = True\<rparr>"

definition clearCookie :: "string \<Rightarrow> bool \<Rightarrow> SetCookie" where
  "clearCookie name secure = \<lparr>ck_Name = name, ck_Value = [], ck_MaxAge = - 1, ck_Path = ''/'',
     ck_Secure = secure, ck_HttpOnly = True, ck_SameSiteLax = True\<rparr>"

section \<open>The error page\<close>

fun join_lines :: "string list \<Rightarrow> string" where
  "join_lines [] = []"
| "join_lines [l] = l"
| "join_lines (l # ls) = l @ CHR 0x0A # join_lines ls"

text \<open>Its style sheet, a constant text, is left out.\<close>

definition loginErrorPage :: "string \<Rightarrow> string" where
  "loginErrorPage message = join_lines
     [''<!doctype html>'',
      ''<html lang=\"en\">'',
      ''<head>'',
      ''<meta charset=\"utf-8\">'',
      ''<meta name=\"viewport\" content=\"width=device-width, initial-scale=1\">'',
      ''<title>Login failed</title>'',
      ''<style>'',
      ''  :root {'',
      ''    color-scheme: light dark;'',
      ''    --bg: #f6f0e4;'',
      ''    --card: #faf7ef;'',
      ''    --border: rgba(36, 29, 18, 0.14);'',
      ''    --text: #241d12;'',
      ''    --text-soft: #7c7261;'',
      ''    --accent: #b8790a;'',
      ''    --accent-strong: #8f5c06;'',
      ''  }'',
      ''  @media (prefers-color-scheme: dark) {'',
      ''    :root {'',
      ''      --bg: #14110d;'',
      ''      --card: #1e1912;'',
      ''      --border: rgba(255, 200, 87, 0.16);'',
      ''      --text: #ede6d8;'',
      ''      --text-soft: #a89c87;'',
      ''      --accent: #f0a202;'',
      ''      --accent-strong: #ffc857;'',
      ''    }'',
      ''  }'',
      ''  * { box-sizing: border-box; }'',
      ''  body {'',
      ''    margin: 0;'',
      ''    min-height: 100vh;'',
      ''    display: flex;'',
      ''    align-items: center;'',
      ''    justify-content: center;'',
      ''    background: var(--bg);'',
      ''    color: var(--text);'',
      ''    font-family: -apple-system, BlinkMacSystemFont, \"Segoe UI\", Roboto, sans-serif;'',
      ''  }'',
      ''  .card {'',
      ''    max-width: 26rem;'',
      ''    width: calc(100% - 2rem);'',
      ''    margin: 1rem;'',
      ''    padding: 2rem;'',
      ''    border: 1px solid var(--border);'',
      ''    border-radius: 12px;'',
      ''    background: var(--card);'',
      ''    box-shadow: 0 18px 34px rgba(36, 29, 18, 0.1);'',
      ''    text-align: center;'',
      ''  }'',
      ''  h1 {'',
      ''    margin: 0 0 0.75rem;'',
      ''    font-size: 1.25rem;'',
      ''    color: var(--accent-strong);'',
      ''  }'',
      ''  p {'',
      ''    margin: 0 0 1.5rem;'',
      ''    color: var(--text-soft);'',
      ''    line-height: 1.5;'',
      ''  }'',
      ''  a.btn {'',
      ''    display: inline-block;'',
      ''    padding: 0.6rem 1.4rem;'',
      ''    border-radius: 999px;'',
      ''    background: var(--accent);'',
      ''    color: #fff;'',
      ''    font-weight: 600;'',
      ''    text-decoration: none;'',
      ''  }'',
      ''  a.btn:hover {'',
      ''    background: var(--accent-strong);'',
      ''  }'',
      ''</style>'',
      ''</head>'',
      ''<body>'',
      ''  <div class=\"card\">'',
      ''    <h1>Login failed</h1>'',
      ''    <p>'' @ message @ ''</p>'',
      ''    <a class=\"btn\" href=\"/login\">Try again</a>'',
      ''  </div>'',
      ''</body>'',
      ''</html>'']"

text \<open>\<open>html.EscapeString\<close>.\<close>

definition html_EscapeString :: "string \<Rightarrow> string" where
  "html_EscapeString s = concat (map (\<lambda>c.
     if c = CHR ''&'' then ''&amp;'' else if c = CHR 0x27 then ''&#39;'' else if c = CHR ''<'' then ''&lt;''
     else if c = CHR ''>'' then ''&gt;'' else if c = CHR 0x22 then ''&#34;'' else [c]) s)"

text \<open>The cookies are those already put on the response.\<close>

definition renderLoginError :: "SetCookie list \<Rightarrow> Response" where
  "renderLoginError cks = (respond 401 (HtmlBody (loginErrorPage (html_EscapeString
     ''Something went wrong signing you in. Please try again.''))))\<lparr>rs_SetCookie := cks\<rparr>"

definition redirect :: "string \<Rightarrow> SetCookie list \<Rightarrow> Response" where
  "redirect url cks = \<lparr>rs_Status = 302, rs_Body = NoBody, rs_SetCookie = cks, rs_Location = Some url\<rparr>"

section \<open>GET /login\<close>

text \<open>\<open>rnd\<close> is the source of random bytes, \<open>verifier\<close> what \<open>oauth2.GenerateVerifier\<close> did.\<close>

definition randomState :: "go_error + string \<Rightarrow> go_error + string" where
  "randomState rnd = (case rand_Read 32 rnd of Inl err \<Rightarrow> Inl err | Inr buf \<Rightarrow> Inr (b64_encode buf))"

definition seconds :: "int \<Rightarrow> int" where "seconds d = d div second"

definition NewLoginHandler ::
    "OAuth2 \<Rightarrow> (string \<Rightarrow> bool) \<Rightarrow> Config \<Rightarrow> Signer \<Rightarrow> string \<Rightarrow> go_error + string \<Rightarrow> Response" where
  "NewLoginHandler oauth rest_ok cfg signer verifier rnd =
     (let secure = secureFromURL rest_ok (cf_AuthAudience cfg) in
      if \<not> configured cfg then renderLoginError []
      else (case randomState rnd of
          Inl err \<Rightarrow> renderLoginError []
        | Inr state \<Rightarrow>
            (case NewStateCookie signer state verifier of
               Inl err \<Rightarrow> renderLoginError []
             | Inr cookieValue \<Rightarrow>
                 redirect (oa_AuthCodeURL oauth (oauthConfig cfg) state verifier)
                   [setCookie stateCookieName cookieValue (seconds stateTTL) secure])))"

section \<open>GET /callback\<close>

definition secureCompareStrings :: "string \<Rightarrow> string \<Rightarrow> bool" where
  "secureCompareStrings a b \<longleftrightarrow> a = b"

text \<open>\<open>c.Query\<close>: the first value, or the empty string.\<close>

definition query_get :: "Request \<Rightarrow> string \<Rightarrow> string" where
  "query_get rq k = (case map_of (rq_Query rq) k of Some v \<Rightarrow> v | None \<Rightarrow> [])"

text \<open>The three stages of the handler: the state cookie and the query give a code and its verifier;
  these give the subject of an id token; the subject gives the owner.\<close>

definition callback_code :: "Signer \<Rightarrow> Request \<Rightarrow> string \<Rightarrow> (string \<times> string) option" where
  "callback_code signer rq stateCookie = (case ParseStateCookie signer stateCookie of
     Inl err \<Rightarrow> None
   | Inr (wantState, verifier) \<Rightarrow>
       (let gotState = query_get rq ''state''; authCode = query_get rq ''code'' in
        if gotState = [] \<or> \<not> secureCompareStrings gotState wantState then None
        else if authCode = [] then None
        else Some (authCode, verifier)))"

definition callback_subject :: "OAuth2 \<Rightarrow> Config \<Rightarrow> (string \<Rightarrow> go_error + string) \<Rightarrow> string \<Rightarrow> string \<Rightarrow> string option" where
  "callback_subject oauth cfg idVerifier authCode verifier = (case oa_Exchange oauth (oauthConfig cfg) authCode verifier of
     Inl err \<Rightarrow> None
   | Inr None \<Rightarrow> None
   | Inr (Some rawIDToken) \<Rightarrow>
       if rawIDToken = [] then None
       else (case idVerifier rawIDToken of Inl err \<Rightarrow> None | Inr sub \<Rightarrow> Some sub))"

definition callback_owner :: "'s UserRepo \<Rightarrow> string \<Rightarrow> 's \<Rightarrow> User option \<times> 's" where
  "callback_owner usrs sub s = (case GetUserBySSOSubject usrs sub s of
     (Inl err, t) \<Rightarrow> (None, t)
   | (Inr user, t) \<Rightarrow>
       (if usr_Role user = ''agent'' then None
        else if usr_Role user \<noteq> ''owner'' \<or> \<not> usr_Active user then None
        else Some user, t))"

definition NewCallbackHandler ::
    "OAuth2 \<Rightarrow> (string \<Rightarrow> bool) \<Rightarrow> Config \<Rightarrow> Signer \<Rightarrow> JWTVerifier \<Rightarrow> 's UserRepo \<Rightarrow> Request \<Rightarrow> 's \<Rightarrow> Response \<times> 's" where
  "NewCallbackHandler oauth rest_ok cfg signer idVerifier usrs rq s =
     (let secure = secureFromURL rest_ok (cf_AuthAudience cfg); cleared = [clearCookie stateCookieName secure] in
      case idVerifier of
        None \<Rightarrow> (renderLoginError [], s)
      | Some verify \<Rightarrow>
          if \<not> configured cfg then (renderLoginError [], s)
          else (case rq_Cookie rq stateCookieName of
              None \<Rightarrow> (renderLoginError [], s)
            | Some stateCookie \<Rightarrow>
                if stateCookie = [] then (renderLoginError [], s)
                else (case callback_code signer rq stateCookie of
                    None \<Rightarrow> (renderLoginError cleared, s)
                  | Some (authCode, verifier) \<Rightarrow>
                      (case callback_subject oauth cfg verify authCode verifier of
                         None \<Rightarrow> (renderLoginError cleared, s)
                       | Some sub \<Rightarrow>
                           (case callback_owner usrs sub s of
                              (None, t) \<Rightarrow> (renderLoginError cleared, t)
                            | (Some user, t) \<Rightarrow>
                                (case NewSessionCookie signer (usr_ID user) of
                                   Inl err \<Rightarrow> (renderLoginError cleared, t)
                                 | Inr sessionValue \<Rightarrow>
                                     (redirect ''/'' (cleared
                                        @ [setCookie sessionCookieName sessionValue (seconds sessionTTL) secure]), t)))))))"

section \<open>Lemmas\<close>

lemma renderLoginError_fields [simp]:
  "rs_Status (renderLoginError cks) = 401" "rs_SetCookie (renderLoginError cks) = cks"
  "rs_Location (renderLoginError cks) = None"
  by (simp_all add: renderLoginError_def)

lemma renderLoginError_page:
  "renderLoginError cks = (respond 401 (HtmlBody (loginErrorPage
     ''Something went wrong signing you in. Please try again.'')))\<lparr>rs_SetCookie := cks\<rparr>"
proof -
  have "html_EscapeString ''Something went wrong signing you in. Please try again.''
      = ''Something went wrong signing you in. Please try again.''" by code_simp
  then show ?thesis by (simp only: renderLoginError_def)
qed

lemma callback_code_Some:
  assumes "callback_code signer rq stateCookie = Some (authCode, verifier)"
  shows "ParseStateCookie signer stateCookie = Inr (query_get rq ''state'', verifier)"
    and "query_get rq ''state'' \<noteq> []" "authCode = query_get rq ''code''" "authCode \<noteq> []"
  using assms by (auto simp: callback_code_def secureCompareStrings_def Let_def split: sum.splits if_splits)

lemma callback_subject_Some:
  assumes "callback_subject oauth cfg verify authCode verifier = Some sub"
  obtains raw where "oa_Exchange oauth (oauthConfig cfg) authCode verifier = Inr (Some raw)" "raw \<noteq> []"
    "verify raw = Inr sub"
  using assms by (auto simp: callback_subject_def split: sum.splits option.splits if_splits)

lemma callback_owner_run:
  assumes "callback_owner (NewUserRepo uuid n) sub s = (q, t)"
  shows "same_tables s t
    \<and> (\<forall>user. q = Some user \<longrightarrow> (\<exists>row. find_user_sub s sub = Some row \<and> user = userFromRow row
        \<and> u_Role row = ''owner'' \<and> u_Active row))"
proof -
  obtain r v where r: "Repo_GetUserBySSOSubject sub s = (r, v)" by fastforce
  with assms GetUserBySSOSubject_runs [OF r] show ?thesis
    by (auto simp: callback_owner_def NewUserRepo_def lookup_result_def userFromRow_def
        split: sum.splits option.splits if_splits)
qed

lemma callback_cases:
  assumes "NewCallbackHandler oauth rest_ok cfg signer idVerifier usrs rq s = (rs, t)"
  obtains (failed) cks where "rs = renderLoginError cks"
      "cks \<in> {[], [clearCookie stateCookieName (secureFromURL rest_ok (cf_AuthAudience cfg))]}"
      "t = s \<or> (\<exists>sub q. callback_owner usrs sub s = (q, t))"
  | (started) verify stateCookie verifier sub user sessionValue where
      "idVerifier = Some verify" "configured cfg" "rq_Cookie rq stateCookieName = Some stateCookie" "stateCookie \<noteq> []"
      "callback_code signer rq stateCookie = Some (query_get rq ''code'', verifier)"
      "callback_subject oauth cfg verify (query_get rq ''code'') verifier = Some sub"
      "callback_owner usrs sub s = (Some user, t)"
      "NewSessionCookie signer (usr_ID user) = Inr sessionValue"
      "rs = redirect ''/'' [clearCookie stateCookieName (secureFromURL rest_ok (cf_AuthAudience cfg)),
         setCookie sessionCookieName sessionValue (seconds sessionTTL) (secureFromURL rest_ok (cf_AuthAudience cfg))]"
proof -
  let ?cl = "[clearCookie stateCookieName (secureFromURL rest_ok (cf_AuthAudience cfg))]"
  note defs = NewCallbackHandler_def Let_def
  show ?thesis
  proof (cases "configured cfg \<and> (\<exists>v. idVerifier = Some v) \<and> (\<exists>c. rq_Cookie rq stateCookieName = Some c \<and> c \<noteq> [])")
    case False
    with assms have "rs = renderLoginError []" "t = s"
      by (auto simp: defs split: option.splits if_splits)
    then show ?thesis by (intro failed [of "[]"]) simp_all
  next
    case True
    then obtain verify c where c: "configured cfg" "idVerifier = Some verify" "rq_Cookie rq stateCookieName = Some c" "c \<noteq> []"
      by blast
    show ?thesis
    proof (cases "callback_code signer rq c")
      case None
      with assms c have "rs = renderLoginError ?cl" "t = s" by (simp_all add: defs)
      then show ?thesis by (intro failed [of ?cl]) simp_all
    next
      case (Some p)
      obtain authCode verifier where p: "p = (authCode, verifier)" by fastforce
      have code: "authCode = query_get rq ''code''" using callback_code_Some Some p by blast
      show ?thesis
      proof (cases "callback_subject oauth cfg verify authCode verifier")
        case None
        with assms c Some p have "rs = renderLoginError ?cl" "t = s" by (simp_all add: defs)
        then show ?thesis by (intro failed [of ?cl]) simp_all
      next
        case sub: (Some sub)
        obtain q v where q: "callback_owner usrs sub s = (q, v)" by fastforce
        show ?thesis
        proof (cases "\<exists>user sv. q = Some user \<and> NewSessionCookie signer (usr_ID user) = Inr sv")
          case False
          with assms c Some p sub q have "rs = renderLoginError ?cl" "v = t"
            by (auto simp: defs split: option.splits sum.splits)
          with q show ?thesis by (intro failed [of ?cl]) auto
        next
          case True
          then obtain user sv where u: "q = Some user" "NewSessionCookie signer (usr_ID user) = Inr sv" by blast
          with assms c Some p sub q have "rs = redirect ''/'' (?cl @ [setCookie sessionCookieName sv (seconds sessionTTL)
              (secureFromURL rest_ok (cf_AuthAudience cfg))])" "v = t"
            by (simp_all add: defs)
          with c Some p code sub q u show ?thesis by (intro started) simp_all
        qed
      qed
    qed
  qed
qed

text \<open>With no failing statement, what the callback needs is also enough.\<close>

lemma callback_runs:
  assumes "configured cfg" "rq_Cookie rq stateCookieName = Some stateCookie" "stateCookie \<noteq> []"
    and "ParseStateCookie signer stateCookie = Inr (query_get rq ''state'', verifier)" "query_get rq ''state'' \<noteq> []"
    and "query_get rq ''code'' \<noteq> []"
    and "oa_Exchange oauth (oauthConfig cfg) (query_get rq ''code'') verifier = Inr (Some raw)" "raw \<noteq> []"
    and "verify raw = Inr sub" "faults s = []" "find_user_sub s sub = Some row" "u_Role row = ''owner''" "u_Active row"
    and "NewSessionCookie signer (u_ID row) = Inr sessionValue"
    and "secure = secureFromURL rest_ok (cf_AuthAudience cfg)"
  shows "NewCallbackHandler oauth rest_ok cfg signer (Some verify) (NewUserRepo uuid n) rq s
    = (redirect ''/'' [clearCookie stateCookieName secure,
         setCookie sessionCookieName sessionValue (seconds sessionTTL) secure], s)"
proof -
  have "callback_code signer rq stateCookie = Some (query_get rq ''code'', verifier)"
    using assms by (simp add: callback_code_def secureCompareStrings_def)
  moreover have "callback_subject oauth cfg verify (query_get rq ''code'') verifier = Some sub"
    using assms by (simp add: callback_subject_def)
  moreover have "callback_owner (NewUserRepo uuid n) sub s = (Some (userFromRow row), s)"
    using assms by (simp add: callback_owner_def NewUserRepo_def lookups_no_faults userFromRow_def)
  ultimately show ?thesis
    using assms by (simp add: NewCallbackHandler_def userFromRow_def Let_def)
qed

section \<open>Properties\<close>

text \<open>
  C12. A session starts only for the owner: the callback changes no table, and either answers 401 with
  the one page that gives no reason, whatever failed, and with no cookie but the cleared state cookie, or
  had a state cookie of this server whose state the query repeats, exchanged the code with the verifier of that cookie, verified the id token, and found an
  active user of role owner with that subject, for whom the session cookie is signed (a cookie
  scripts cannot read, sent over https only where the service is reached by https).
\<close>

theorem callback_sound:
  assumes "NewCallbackHandler oauth rest_ok cfg signer idVerifier (NewUserRepo uuid n) rq s = (rs, t)"
  shows "same_tables s t
    \<and> ((\<exists>cks. rs = (respond 401 (HtmlBody (loginErrorPage
              ''Something went wrong signing you in. Please try again.'')))\<lparr>rs_SetCookie := cks\<rparr>
          \<and> (\<forall>c \<in> set cks. c = clearCookie stateCookieName (secureFromURL rest_ok (cf_AuthAudience cfg))
              \<and> ck_Name c \<noteq> sessionCookieName))
      \<or> (\<exists>verify stateCookie verifier raw sub row sessionValue secure.
          idVerifier = Some verify \<and> rq_Cookie rq stateCookieName = Some stateCookie
        \<and> ParseStateCookie signer stateCookie = Inr (query_get rq ''state'', verifier) \<and> query_get rq ''state'' \<noteq> []
        \<and> oa_Exchange oauth (oauthConfig cfg) (query_get rq ''code'') verifier = Inr (Some raw)
        \<and> verify raw = Inr sub \<and> find_user_sub s sub = Some row \<and> u_Role row = ''owner'' \<and> u_Active row
        \<and> NewSessionCookie signer (u_ID row) = Inr sessionValue
        \<and> (secure \<longleftrightarrow> secureFromURL rest_ok (cf_AuthAudience cfg))
        \<and> rs = redirect ''/'' [clearCookie stateCookieName secure,
            \<lparr>ck_Name = sessionCookieName, ck_Value = sessionValue, ck_MaxAge = 3600, ck_Path = ''/'',
             ck_Secure = secure, ck_HttpOnly = True, ck_SameSiteLax = True\<rparr>]))"
  using assms
proof (cases rule: callback_cases)
  case (failed cks)
  then have "same_tables s t" using callback_owner_run by blast
  moreover have "\<forall>c \<in> set cks. c = clearCookie stateCookieName (secureFromURL rest_ok (cf_AuthAudience cfg))
      \<and> ck_Name c \<noteq> sessionCookieName"
    using failed(2) by (auto simp: clearCookie_def sessionCookieName_def stateCookieName_def)
  ultimately show ?thesis using renderLoginError_page [of cks] failed(1) by blast
next
  case (started verify stateCookie verifier sub user sessionValue)
  obtain row where row: "same_tables s t" "find_user_sub s sub = Some row" "user = userFromRow row"
    "u_Role row = ''owner''" "u_Active row" using callback_owner_run [OF started(7)] by blast
  obtain raw where raw: "oa_Exchange oauth (oauthConfig cfg) (query_get rq ''code'') verifier = Inr (Some raw)"
    "verify raw = Inr sub" by (rule callback_subject_Some [OF started(6)])
  have ttl: "seconds sessionTTL = 3600" by (simp add: seconds_def sessionTTL_def)
  have owner: "NewSessionCookie signer (u_ID row) = Inr sessionValue" using started(8) row(3) by (simp add: userFromRow_def)
  note answer = started(9) [unfolded setCookie_def ttl]
  show ?thesis
    by (rule conjI [OF row(1)], rule disjI2, intro exI conjI)
      (rule started(1) started(3) callback_code_Some(1,2) [OF started(5)] raw row(2,4,5) owner refl answer)+
qed

section \<open>A concrete login\<close>

definition sample_cfg :: Config where
  "sample_cfg = \<lparr>cf_Port = 8080, cf_SSOIssuer = ''https://sso'', cf_AuthAudience = ''https://app'', cf_DatabasePath = ''db'',
     cf_SSOClientID = ''cid'', cf_SSOClientSecret = ''cs'', cf_SessionSecret = ''k'', cf_SeedOwnerSSOSubject = ''sub-1''\<rparr>"

definition sample_oauth :: OAuth2 where
  "sample_oauth = \<lparr>oa_AuthCodeURL = (\<lambda>c st v. oc_AuthURL c),
     oa_Exchange = (\<lambda>c authCode v. if authCode = ''c'' \<and> v = ''vf'' then Inr (Some ''id'') else Inl DriverErr)\<rparr>"

definition sample_verify :: "string \<Rightarrow> go_error + string" where
  "sample_verify raw = (if raw = ''id'' then Inr ''sub-1'' else Inl (JwtErr ''bad''))"

definition sample_owner :: UserRow where
  "sample_owner = sample_user\<lparr>u_ID := ''o1'', u_Handle := ''owner'', u_Role := ''owner'', u_SsoSubject := Some ''sub-1''\<rparr>"

definition sample_odb :: db where
  "sample_odb = (empty_db [])\<lparr>users := [sample_owner, sample_user], api_keys := [sample_key ''x'']\<rparr>"

definition sample_cb :: "string \<Rightarrow> Request" where
  "sample_cb cookie = \<lparr>rq_Method = ''GET'', rq_Path = ''/callback'', rq_Query = [(''state'', ''st''), (''code'', ''c'')],
     rq_Header = (\<lambda>_. []), rq_Cookie = (\<lambda>n. if n = stateCookieName then Some cookie else None), rq_Body = None\<rparr>"

lemma sample_odb_facts:
  "faults sample_odb = []" "find_user_sub sample_odb ''sub-1'' = Some sample_owner"
  "find_user_id sample_odb ''o1'' = Some sample_owner" "u_Role sample_owner = ''owner''" "u_Active sample_owner"
  "u_ID sample_owner = ''o1''" "u_Handle sample_owner = ''owner''"
  by (simp_all add: sample_odb_def empty_db_def find_user_sub_def find_user_id_def sample_owner_def sample_user_def)

lemma sample_cookies:
  obtains c v where "NewStateCookie sample_signer ''st'' ''vf'' = Inr c" "c \<noteq> []"
    "ParseStateCookie sample_signer c = Inr (''st'', ''vf'')" "NewSessionCookie sample_signer ''o1'' = Inr v"
proof -
  obtain c where c: "NewStateCookie sample_signer ''st'' ''vf'' = Inr c" "c \<noteq> []"
    using sample_format(2)
    by (auto simp: NewStateCookie_def marshal_state_def after_time_def stateTTL_def sample_signer_def sign_def)
  obtain v where v: "NewSessionCookie sample_signer ''o1'' = Inr v"
    using sample_format(1)
    by (auto simp: NewSessionCookie_def marshal_session_def after_time_def sessionTTL_def sample_signer_def)
  have "utf8_valid ''st''" "utf8_valid ''vf''" by code_simp+
  with state_cookie_read(1) [OF c(1) refl] have "ParseStateCookie sample_signer c = Inr (''st'', ''vf'')"
    by (simp add: sample_signer_def)
  with c v that show thesis by blast
qed

theorem callback_sound_witness:
  "\<exists>c v rs. NewStateCookie sample_signer ''st'' ''vf'' = Inr c
    \<and> NewCallbackHandler sample_oauth (\<lambda>_. True) sample_cfg sample_signer (Some sample_verify) sample_users (sample_cb c) sample_odb
      = (rs, sample_odb)
    \<and> rs_Status rs = 302 \<and> NewSessionCookie sample_signer ''o1'' = Inr v \<and> v \<in> ck_Value ` set (rs_SetCookie rs)"
proof -
  obtain c v where c: "NewStateCookie sample_signer ''st'' ''vf'' = Inr c" "c \<noteq> []"
    "ParseStateCookie sample_signer c = Inr (''st'', ''vf'')" "NewSessionCookie sample_signer ''o1'' = Inr v"
    by (rule sample_cookies)
  have q: "query_get (sample_cb c) ''state'' = ''st''" "query_get (sample_cb c) ''code'' = ''c''"
    "rq_Cookie (sample_cb c) stateCookieName = Some c"
    by (simp_all add: query_get_def sample_cb_def)
  have cfg: "configured sample_cfg" by (simp add: configured_def sample_cfg_def)
  have "\<exists>secure. NewCallbackHandler sample_oauth (\<lambda>_. True) sample_cfg sample_signer (Some sample_verify) sample_users (sample_cb c)
      sample_odb = (redirect ''/'' [clearCookie stateCookieName secure, setCookie sessionCookieName v (seconds sessionTTL) secure], sample_odb)"
    by (rule exI, rule callback_runs [OF cfg q(3) c(2) _ _ _ _ _ _ sample_odb_facts(1,2,4,5) _ refl, where raw = "''id''" and verifier = "''vf''"])
      (simp_all add: q c sample_oauth_def sample_verify_def sample_odb_facts)
  then obtain rs where rs: "NewCallbackHandler sample_oauth (\<lambda>_. True) sample_cfg sample_signer (Some sample_verify) sample_users
      (sample_cb c) sample_odb = (rs, sample_odb)" "rs_Status rs = 302"
    by (auto simp: redirect_def)
  from callback_sound [OF rs(1)] rs(2) have "v \<in> ck_Value ` set (rs_SetCookie rs)"
    using c(3,4) sample_odb_facts by (auto simp: redirect_def q sample_oauth_def sample_verify_def split: if_splits)
  with rs c show ?thesis by blast
qed

end
