(* ===== verification/Bff_API.thy ===== *)
theory Bff_API
  imports Public_API Bff_Login
begin

text \<open>
  The owner-facing JSON surface under /api/bff: json_middleware.go, me_handler.go, keys_handler.go,
  users_handler.go and usage_handler.go of src/internal/transport/bff, with the routes and parameters
  of src/internal/bffapi/bffapi.gen.go. The functions of the oapi-codegen runtime that bind query
  parameters are arguments, as is the validator.
\<close>

section \<open>The session gate\<close>

definition jsonUnauthorizedBody :: body where
  "jsonUnauthorizedBody = NewErrorEnvelope ''unauthorized'' ''authentication required'' []"

definition RequireJSONSession :: "Signer \<Rightarrow> 's UserRepo \<Rightarrow> 's middleware" where
  "RequireJSONSession signer usrs nxt rq actor s =
     (case rq_Cookie rq sessionCookieName of
        None \<Rightarrow> (respond 401 jsonUnauthorizedBody, s)
      | Some cookie \<Rightarrow>
          if cookie = [] then (respond 401 jsonUnauthorizedBody, s)
          else (case ParseSessionCookie signer cookie of
              Inl err \<Rightarrow> (respond 401 jsonUnauthorizedBody, s)
            | Inr userID \<Rightarrow>
                (case GetUserByID usrs userID s of
                   (Inl err, t) \<Rightarrow> (respond 401 jsonUnauthorizedBody, t)
                 | (Inr user, t) \<Rightarrow>
                     if usr_Role user = ''agent'' then (respond 401 jsonUnauthorizedBody, t)
                     else if \<not> usr_Active user then (respond 401 jsonUnauthorizedBody, t)
                     else nxt rq (Some user) t)))"

text \<open>\<open>bffOwnerID\<close>.\<close>

definition bffOwnerID :: "(User \<Rightarrow> 's \<Rightarrow> Response \<times> 's) \<Rightarrow> User option \<Rightarrow> 's \<Rightarrow> Response \<times> 's" where
  "bffOwnerID f actor s = (case actor of
     None \<Rightarrow> (respond 401 jsonUnauthorizedBody, s) | Some user \<Rightarrow> f user s)"

definition bffValidationErrorBody :: "string \<Rightarrow> string \<Rightarrow> body" where
  "bffValidationErrorBody message hint = NewErrorEnvelope ''validation_error'' message hint"

section \<open>GET /me, the keys, the users\<close>

definition handleBFFMe :: "'s handler" where
  "handleBFFMe rq = bffOwnerID (\<lambda>user s.
     (respond 200 (MeBody (usr_Handle user) (usr_Role user) (usr_Active user)), s))"

definition bffKeyNotFoundBody :: body where
  "bffKeyNotFoundBody = NewErrorEnvelope ''not_found'' ''no such key'' []"

text \<open>\<open>None\<close> is the panic of dereferencing a nil \<open>Handle\<close>.\<close>

definition toBFFKey :: "APIKey \<Rightarrow> WireKey option" where
  "toBFFKey k = (case key_Handle k of
     None \<Rightarrow> None
   | Some h \<Rightarrow> Some \<lparr>wk_Id = key_ID k, wk_Prefix = key_KeyPrefix k, wk_Handle = Some h,
       wk_CreatedAt = key_CreatedAt k, wk_ExpiresAt = key_ExpiresAt k\<rparr>)"

definition bff_ListKeys :: "'s APIKeyRepo \<Rightarrow> 's handler" where
  "bff_ListKeys keys rq = bffOwnerID (\<lambda>user s. case Service_ListAllAgentAPIKeys keys s of
     (Inl err, t) \<Rightarrow> (respond 500 NoBody, t)
   | (Inr ks, t) \<Rightarrow>
       (case those (map toBFFKey ks) of
          None \<Rightarrow> (respond 500 Panic, t)
        | Some ws \<Rightarrow> (respond 200 (KeysBody ws), t)))"

definition bff_RevokeKey :: "'s APIKeyRepo \<Rightarrow> string \<Rightarrow> 's handler" where
  "bff_RevokeKey keys i rq = bffOwnerID (\<lambda>user s. case RevokeAnyAgentAPIKey keys i s of
     (Inl err, t) \<Rightarrow>
       (if errors_Is err ErrNotFound then respond 404 bffKeyNotFoundBody else respond 500 NoBody, t)
   | (Inr _, t) \<Rightarrow> (respond 204 NoBody, t))"

definition toBFFUser :: "User \<Rightarrow> WireUser" where
  "toBFFUser u = \<lparr>wu_Id = usr_ID u, wu_Handle = usr_Handle u, wu_Role = usr_Role u, wu_Active = usr_Active u\<rparr>"

definition ListUsers :: "'s UserRepo \<Rightarrow> 's handler" where
  "ListUsers usrs rq = bffOwnerID (\<lambda>user s. case Service_ListActiveUsers usrs s of
     (Inl err, t) \<Rightarrow> (respond 500 NoBody, t)
   | (Inr us, t) \<Rightarrow> (respond 200 (UsersBody (map toBFFUser us)), t))"

section \<open>The usage endpoints\<close>

record GetUsageSummaryParams =
  sp_Window :: string
  sp_GroupBy :: string
  sp_Machine :: "string option"
  sp_ScanRoot :: "string option"

record GetUsageWindowsParams =
  wp_Machine :: "string option"
  wp_ScanRoot :: "string option"

definition toWireTotals :: "Totals \<Rightarrow> Totals" where
  "toWireTotals t = \<lparr>tot_Tokens = tot_Tokens t, tot_Cost = tot_Cost t, tot_Turns = tot_Turns t\<rparr>"

definition toWireBreakdown :: "BreakdownRow list \<Rightarrow> WireBreakdownRow list" where
  "toWireBreakdown = map (\<lambda>r.
     \<lparr>wb_Key = row_Key r, wb_RawKey = (if row_RawKey r \<noteq> [] then Some (row_RawKey r) else None),
      wb_Tokens = row_Tokens r, wb_Cost = row_Cost r, wb_Turns = row_Turns r\<rparr>)"

definition usageFilterFromQuery :: "string option \<Rightarrow> string option \<Rightarrow> Filter" where
  "usageFilterFromQuery machine scanRoot =
     \<lparr>f_Machine = (case machine of Some m \<Rightarrow> m | None \<Rightarrow> []),
      f_ScanRoot = (case scanRoot of Some r \<Rightarrow> r | None \<Rightarrow> [])\<rparr>"

definition GetUsageSummary :: "'s Repository \<Rightarrow> time \<Rightarrow> GetUsageSummaryParams \<Rightarrow> 's handler" where
  "GetUsageSummary repo now params rq = bffOwnerID (\<lambda>user s.
     case ParseWindow (sp_Window params) of
       (window, False) \<Rightarrow> (respond 400 (bffValidationErrorBody ''unrecognised window value'' ''window''), s)
     | (window, True) \<Rightarrow>
         (case ParseGroupBy (sp_GroupBy params) of
            (groupBy, False) \<Rightarrow> (respond 400 (bffValidationErrorBody ''unrecognised group_by value'' ''group_by''), s)
          | (groupBy, True) \<Rightarrow>
              (case Summary repo window groupBy (usageFilterFromQuery (sp_Machine params) (sp_ScanRoot params)) now s of
                 (Inl err, t) \<Rightarrow> (respond 500 NoBody, t)
               | (Inr res, t) \<Rightarrow>
                   (respond 200 (SummaryBody (toWireTotals (res_Totals res)) (toWireBreakdown (res_Breakdown res))
                      (res_ReportingInstalls res)), t))))"

definition GetUsageWindows :: "'s Repository \<Rightarrow> time \<Rightarrow> GetUsageWindowsParams \<Rightarrow> 's handler" where
  "GetUsageWindows repo now params rq = bffOwnerID (\<lambda>user s.
     case Service_Windows repo (usageFilterFromQuery (wp_Machine params) (wp_ScanRoot params)) now s of
       (Inl err, t) \<Rightarrow> (respond 500 NoBody, t)
     | (Inr rows, t) \<Rightarrow> (respond 200 (WindowsBody (map (\<lambda>r.
         \<lparr>wt_Window = wt_Window r, wt_Totals = toWireTotals (wt_Totals r)\<rparr>) rows)), t))"

definition GetUsageScanRoots :: "'s Repository \<Rightarrow> 's handler" where
  "GetUsageScanRoots repo rq = bffOwnerID (\<lambda>user s. case ScanRoots repo s of
     (Inl err, t) \<Rightarrow> (respond 500 NoBody, t)
   | (Inr rows, t) \<Rightarrow> (respond 200 (ScanRootsBody rows), t))"

definition GetMachines :: "'s Repository \<Rightarrow> 's handler" where
  "GetMachines repo rq = bffOwnerID (\<lambda>user s. case MachineSummaries repo s of
     (Inl err, t) \<Rightarrow> (respond 500 NoBody, t)
   | (Inr rows, t) \<Rightarrow> (respond 200 (MachinesBody rows), t))"

section \<open>Parameters and routes\<close>

text \<open>The binding of a required and of an optional string parameter: an error text, or the value.\<close>

record Binder =
  bind_required :: "string \<Rightarrow> (string \<times> string) list \<Rightarrow> string + string"
  bind_optional :: "string \<Rightarrow> (string \<times> string) list \<Rightarrow> string + string option"

definition bind_error :: "string \<Rightarrow> string \<Rightarrow> Response" where
  "bind_error name err = respond 400 (MsgBody (''Invalid format for parameter '' @ name @ '': '' @ err))"

definition bind_with :: "(string \<Rightarrow> (string \<times> string) list \<Rightarrow> string + 'v) \<Rightarrow> string \<Rightarrow> ('v \<Rightarrow> 's handler) \<Rightarrow> 's handler" where
  "bind_with bnd name k rq actor s = (case bnd name (rq_Query rq) of
     Inl err \<Rightarrow> (bind_error name err, s) | Inr v \<Rightarrow> k v rq actor s)"

definition wrapper_GetUsageSummary :: "Binder \<Rightarrow> (GetUsageSummaryParams \<Rightarrow> 's handler) \<Rightarrow> 's handler" where
  "wrapper_GetUsageSummary b k =
     bind_with (bind_required b) ''window'' (\<lambda>w.
     bind_with (bind_required b) ''group_by'' (\<lambda>g.
     bind_with (bind_optional b) ''machine'' (\<lambda>m.
     bind_with (bind_optional b) ''scan_root'' (\<lambda>r.
       k \<lparr>sp_Window = w, sp_GroupBy = g, sp_Machine = m, sp_ScanRoot = r\<rparr>))))"

definition wrapper_GetUsageWindows :: "Binder \<Rightarrow> (GetUsageWindowsParams \<Rightarrow> 's handler) \<Rightarrow> 's handler" where
  "wrapper_GetUsageWindows b k =
     bind_with (bind_optional b) ''machine'' (\<lambda>m.
     bind_with (bind_optional b) ''scan_root'' (\<lambda>r. k \<lparr>wp_Machine = m, wp_ScanRoot = r\<rparr>))"

datatype bff_op = BffMe | BffListKeys | BffRevokeKey string | BffUsers | BffSummary | BffWindows
  | BffScanRoots | BffMachines

definition bff_get_routes :: "(string \<times> bff_op) list" where
  "bff_get_routes =
     [(''/api/bff/me'', BffMe), (''/api/bff/keys'', BffListKeys), (''/api/bff/users'', BffUsers),
      (''/api/bff/usage/summary'', BffSummary), (''/api/bff/usage/windows'', BffWindows),
      (''/api/bff/usage/scan-roots'', BffScanRoots), (''/api/bff/machines'', BffMachines)]"

definition bff_route :: "Request \<Rightarrow> bff_op option" where
  "bff_route rq =
     (if rq_Method rq = ''GET'' then map_of bff_get_routes (rq_Path rq)
      else if rq_Method rq = ''DELETE'' then map_option BffRevokeKey (path_param ''/api/bff/keys/'' (rq_Path rq))
      else None)"

record BffEnv =
  be_uni :: "string \<Rightarrow> string"
  be_signer :: Signer
  be_valid :: validator
  be_binder :: Binder
  be_now :: time

definition bff_handler ::
    "BffEnv \<Rightarrow> 's UserRepo \<Rightarrow> 's APIKeyRepo \<Rightarrow> 's Repository \<Rightarrow> bff_op \<Rightarrow> 's handler" where
  "bff_handler e usrs keys repo op = (case op of
     BffMe \<Rightarrow> handleBFFMe
   | BffListKeys \<Rightarrow> bff_ListKeys keys
   | BffRevokeKey i \<Rightarrow> bff_RevokeKey keys i
   | BffUsers \<Rightarrow> ListUsers usrs
   | BffSummary \<Rightarrow> wrapper_GetUsageSummary (be_binder e) (GetUsageSummary repo (be_now e))
   | BffWindows \<Rightarrow> wrapper_GetUsageWindows (be_binder e) (GetUsageWindows repo (be_now e))
   | BffScanRoots \<Rightarrow> GetUsageScanRoots repo
   | BffMachines \<Rightarrow> GetMachines repo)"

text \<open>The group /api/bff as \<open>wireBFF\<close> builds it.\<close>

definition api_bff ::
    "BffEnv \<Rightarrow> 's UserRepo \<Rightarrow> 's APIKeyRepo \<Rightarrow> 's Repository \<Rightarrow> bff_op \<Rightarrow> Request \<Rightarrow> 's \<Rightarrow> Response \<times> 's" where
  "api_bff e usrs keys repo op rq s =
     RejectActorFields (be_uni e)
       (RequireJSONSession (be_signer e) usrs
         (RequestValidator (be_valid e) (bff_handler e usrs keys repo op))) rq None s"

section \<open>Reads change nothing\<close>

definition quiet :: "(db, go_error, 'a) io \<Rightarrow> bool" where
  "quiet m \<longleftrightarrow> (\<forall>s r t. m s = (r, t) \<longrightarrow> same_tables s t)"

named_theorems quiet_intros

lemma quietD: "quiet m \<Longrightarrow> m s = (r, t) \<Longrightarrow> same_tables s t"
  by (simp add: quiet_def)

lemma quiet_return [quiet_intros]: "quiet (returnR x)" "quiet (raiseR e)" "quiet (Pair r)"
  by (simp_all add: quiet_def)

lemma quiet_bind [quiet_intros]: "quiet m \<Longrightarrow> (\<And>x. quiet (f x)) \<Longrightarrow> quiet (bindR m f)"
  unfolding quiet_def bindR_def by (fastforce split: prod.splits sum.splits intro: same_tables_trans)

lemma quiet_select [quiet_intros]: "quiet (select f)"
  using select_same by (fastforce simp: quiet_def)

lemma quiet_repo [quiet_intros]:
  "quiet (ListEventsInWindow (NewRepo g conv) a z flt)" "quiet (MachineHostnames (NewRepo g conv))"
  "quiet (ListScanRoots (NewRepo g conv))"
  unfolding quiet_def using repo.list_same repo.hosts_same repo.roots_same by blast+

lemma quiet_stmt: "(\<And>s. snd (f s) = s) \<Longrightarrow> quiet (stmt f)"
  unfolding quiet_def
proof (intro allI impI)
  fix s r t assume f: "\<And>s. snd (f s) = s" and "stmt f s = (r, t)"
  from this(2) show "same_tables s t"
  proof (cases rule: stmt_cases)
    case (ok s')
    with f [of s'] show ?thesis by simp
  qed simp
qed

lemma quiet_summaries [quiet_intros]: "quiet (ListMachineSummaries (NewRepo g conv))"
proof -
  have "quiet (db_ListMachineSummaries g)"
    unfolding db_ListMachineSummaries_def by (rule quiet_stmt) (simp split: option.split)
  then show ?thesis by (simp add: NewRepo_def Repo_ListMachineSummaries_def quiet_intros)
qed

lemma quiet_relabel [quiet_intros]: "quiet (relabel_pass (NewRepo g conv) grp b)"
  unfolding relabel_pass_def by (simp add: quiet_intros)

lemma quiet_identity [quiet_intros]:
  "quiet (ListAllAgentAPIKeys (NewAPIKeyRepo g uuid now))" "quiet (ListActiveUsers (NewUserRepo uuid now))"
  by (simp_all add: NewAPIKeyRepo_def NewUserRepo_def Repo_ListAllAgentAPIKeys_def db_ListAllAgentAPIKeys_def
      Repo_ListActiveUsers_def db_ListActiveUsers_def quiet_intros)

lemma quiet_service [quiet_intros]:
  "quiet (Service_ListAllAgentAPIKeys (NewAPIKeyRepo g uuid now))" "quiet (Service_ListActiveUsers (NewUserRepo uuid now))"
  "quiet (ScanRoots (NewRepo g conv))" "quiet (MachineSummaries (NewRepo g conv))"
  by (auto simp: Service_ListAllAgentAPIKeys_def Service_ListActiveUsers_def ScanRoots_def MachineSummaries_def
      intro!: quiet_intros)

lemma quiet_summary [quiet_intros]: "quiet (Summary (NewRepo g conv) w grp flt now)"
  unfolding Summary_def Let_def substitute_machine_eq substitute_path_eq substitute_actor_eq
  by (auto intro!: quiet_intros split: sum.split)

lemma quiet_windows [quiet_intros]: "quiet (Service_Windows (NewRepo g conv) flt now)"
proof -
  have "quiet (Service_Windows_loop (NewRepo g conv) flt now ws)" for ws
    by (induction ws) (auto intro!: quiet_intros split: sum.split)
  then show ?thesis by (simp add: Service_Windows_def)
qed

section \<open>What the handlers change\<close>

lemma bffOwnerID_Some [simp]: "bffOwnerID f (Some u) s = f u s"
  by (simp add: bffOwnerID_def)

lemma bff_reads:
  assumes "bff_handler e (NewUserRepo uuid n) (NewAPIKeyRepo g uuid' now) (NewRepo g' conv) op rq (Some u) s = (rs, t)"
    and "\<nexists>i. op = BffRevokeKey i"
  shows "same_tables s t"
proof -
  note q = quiet_service [THEN quietD] quiet_summary [THEN quietD] quiet_windows [THEN quietD]
  show ?thesis
  proof (cases op)
    case BffMe
    with assms show ?thesis by (auto simp: bff_handler_def handleBFFMe_def)
  next
    case BffListKeys
    with assms(1) show ?thesis
      by (auto simp: bff_handler_def bff_ListKeys_def dest: q split: prod.splits sum.splits option.splits)
  next
    case BffUsers
    with assms(1) show ?thesis
      by (auto simp: bff_handler_def ListUsers_def dest: q split: prod.splits sum.splits)
  next
    case BffSummary
    with assms(1) show ?thesis
      by (auto simp: bff_handler_def wrapper_GetUsageSummary_def bind_with_def GetUsageSummary_def
          dest: q split: prod.splits sum.splits bool.splits)
  next
    case BffWindows
    with assms(1) show ?thesis
      by (auto simp: bff_handler_def wrapper_GetUsageWindows_def bind_with_def GetUsageWindows_def
          dest: q split: prod.splits sum.splits)
  next
    case BffScanRoots
    with assms(1) show ?thesis
      by (auto simp: bff_handler_def GetUsageScanRoots_def dest: q split: prod.splits sum.splits)
  next
    case BffMachines
    with assms(1) show ?thesis
      by (auto simp: bff_handler_def GetMachines_def dest: q split: prod.splits sum.splits)
  qed (use assms(2) in auto)
qed

lemma bff_RevokeKey_run:
  assumes "bff_RevokeKey (NewAPIKeyRepo g uuid now) i rq (Some u) s = (rs, t)" "identity_db_ok s"
  shows "same_tables s t \<and> rs_Status rs \<noteq> 204
    \<or> (rs = respond 204 NoBody \<and> same_but_keys s t
      \<and> (\<exists>k \<in> set (api_keys s). k_ID k = i \<and> k_RevokedAt k = None) \<and> api_keys t = revoke_row i now (api_keys s))"
proof -
  obtain q v where q: "Repo_RevokeAPIKeyByID now i s = (q, v)" by fastforce
  have v: "v = t" and rs: "rs = (case q of Inl err \<Rightarrow>
      if errors_Is err ErrNotFound then respond 404 bffKeyNotFoundBody else respond 500 NoBody | Inr _ \<Rightarrow> respond 204 NoBody)"
    using assms(1) q
    by (auto simp: bff_RevokeKey_def RevokeAnyAgentAPIKey_def NewAPIKeyRepo_def split: sum.splits)
  have "keys_ok (api_keys s)" using assms(2) by (simp add: identity_db_ok_def)
  from q this show ?thesis
    by (cases rule: RevokeAPIKeyByID_cases) (use v rs in \<open>auto intro: same_but_keys_upd\<close>)
qed

text \<open>The session gate: the 401, or the handler for the active user of a valid cookie.\<close>

lemma session_cases:
  assumes "RequireJSONSession signer (NewUserRepo uuid n) nxt rq actor s = (rs, t)"
  obtains (refused) "rs = respond 401 jsonUnauthorizedBody" "same_tables s t"
  | (owner) cookie userID row u where "rq_Cookie rq sessionCookieName = Some cookie"
      "ParseSessionCookie signer cookie = Inr userID" "find_user_id s userID = Some row" "u_Role row \<noteq> ''agent''"
      "u_Active row" "same_tables s u" "nxt rq (Some (userFromRow row)) u = (rs, t)"
proof -
  consider "rs = respond 401 jsonUnauthorizedBody" "t = s"
    | cookie userID where "rq_Cookie rq sessionCookieName = Some cookie" "cookie \<noteq> []"
        "ParseSessionCookie signer cookie = Inr userID"
    using assms by (auto simp: RequireJSONSession_def split: option.splits if_splits sum.splits)
  then show ?thesis
  proof cases
    case 1
    then show ?thesis by (intro refused) simp_all
  next
    case (2 cookie userID)
    obtain q u where q: "Repo_GetUserByID userID s = (q, u)" by fastforce
    note run = GetUserByID_runs [OF q]
    have step: "(rs, t) = (case q of Inl err \<Rightarrow> (respond 401 jsonUnauthorizedBody, u)
      | Inr user \<Rightarrow> if usr_Role user = ''agent'' \<or> \<not> usr_Active user then (respond 401 jsonUnauthorizedBody, u)
          else nxt rq (Some user) u)"
      using assms 2 q by (auto simp: RequireJSONSession_def NewUserRepo_def split: sum.splits if_splits)
    show ?thesis
    proof (cases "\<exists>row. find_user_id s userID = Some row \<and> q = Inr (userFromRow row) \<and> u_Role row \<noteq> ''agent'' \<and> u_Active row")
      case True
      then obtain row where row: "find_user_id s userID = Some row" "q = Inr (userFromRow row)" "u_Role row \<noteq> ''agent''"
        "u_Active row" by blast
      then have "nxt rq (Some (userFromRow row)) u = (rs, t)" using step by (simp add: userFromRow_def)
      with 2 row run show ?thesis by (intro owner) simp_all
    next
      case False
      with step run have "rs = respond 401 jsonUnauthorizedBody" "t = u"
        by (auto simp: lookup_result_def userFromRow_def split: option.splits)
      with run show ?thesis by (intro refused) simp_all
    qed
  qed
qed

section \<open>Properties\<close>

lemma bff_run:
  assumes "api_bff e (NewUserRepo uuid n) (NewAPIKeyRepo g uuid' now) (NewRepo g' conv) op rq s = (rs, t)"
    and "identity_db_ok s"
  shows "(rs = abortActorFieldPresent \<and> t = s)
    \<or> (rs = respond 401 jsonUnauthorizedBody \<and> same_tables s t)
    \<or> (\<exists>cookie userID row. rq_Cookie rq sessionCookieName = Some cookie
        \<and> ParseSessionCookie (be_signer e) cookie = Inr userID \<and> find_user_id s userID = Some row
        \<and> u_Role row \<noteq> ''agent'' \<and> u_Active row
        \<and> (same_tables s t
          \<or> (\<exists>i. op = BffRevokeKey i \<and> rs = respond 204 NoBody \<and> same_but_keys s t
              \<and> (\<exists>k \<in> set (api_keys s). k_ID k = i \<and> k_RevokedAt k = None)
              \<and> api_keys t = revoke_row i now (api_keys s))))"
  using assms(1) unfolding api_bff_def
proof (cases rule: RejectActorFields_cases)
  case reject
  then show ?thesis by blast
next
  case pass
  then show ?thesis
  proof (cases rule: session_cases)
    case refused
    then show ?thesis by blast
  next
    case (owner cookie userID row u)
    have ok: "identity_db_ok u" and keys: "api_keys u = api_keys s"
      using assms(2) owner(6) by (simp_all add: identity_db_ok_same same_tables_eq)
    from owner(7) have "same_tables s t
      \<or> (\<exists>i. op = BffRevokeKey i \<and> rs = respond 204 NoBody \<and> same_but_keys s t
          \<and> (\<exists>k \<in> set (api_keys s). k_ID k = i \<and> k_RevokedAt k = None)
          \<and> api_keys t = revoke_row i now (api_keys s))"
    proof (cases rule: RequestValidator_cases)
      case reject
      with owner(6) show ?thesis by simp
    next
      case pass
      show ?thesis
      proof (cases "\<exists>i. op = BffRevokeKey i")
        case True
        then obtain i where i: "op = BffRevokeKey i" by blast
        with pass have "bff_RevokeKey (NewAPIKeyRepo g uuid' now) i rq (Some (userFromRow row)) u = (rs, t)"
          by (simp add: bff_handler_def)
        from bff_RevokeKey_run [OF this ok] i owner(6) show ?thesis
          unfolding keys by (blast intro: same_tables_trans same_but_keys_trans)
      next
        case False
        from bff_reads [OF pass False] owner(6) show ?thesis using same_tables_trans by blast
      qed
    qed
    with owner show ?thesis by blast
  qed
qed

text \<open>
  C13. The owner's surface: a request is refused for declaring an actor, refused with the one 401, or
  carries a session cookie that is signed, unexpired and names an active user who is not an agent;
  and then it changes no table, or is the revocation of one live key, which changes that row and
  nothing else.
\<close>

theorem bff_effects:
  assumes "api_bff e (NewUserRepo uuid n) (NewAPIKeyRepo g uuid' now) (NewRepo g' conv) op rq s = (rs, t)"
    and "identity_db_ok s"
  shows "(rs = abortActorFieldPresent \<and> t = s)
    \<or> (rs = respond 401 jsonUnauthorizedBody \<and> same_tables s t)
    \<or> (\<exists>cookie userID row. rq_Cookie rq sessionCookieName = Some cookie
        \<and> ParseSessionCookie (be_signer e) cookie = Inr userID \<and> find_user_id s userID = Some row
        \<and> u_Role row \<noteq> ''agent'' \<and> u_Active row
        \<and> (same_tables s t
          \<or> (\<exists>i. op = BffRevokeKey i \<and> rs = respond 204 NoBody \<and> same_but_keys s t
              \<and> (\<exists>k \<in> set (api_keys s). k_ID k = i \<and> k_RevokedAt k = None)
              \<and> api_keys t = revoke_row i now (api_keys s))))"
  using assms by (rule bff_run)

text \<open>
  C15. The keys page never panics on a missing handle: it answers 500 when a statement fails, and
  otherwise lists, under the handle of its user, each key that is not revoked and whose user is an
  agent, and nothing else.
\<close>

theorem bff_keys_listing:
  assumes "bff_ListKeys (NewAPIKeyRepo g uuid now) rq (Some u) s = (rs, t)" "engine_ok g"
  shows "rs = respond 500 NoBody
    \<or> (\<exists>ws. rs = respond 200 (KeysBody ws) \<and> set ws = {\<lparr>wk_Id = k_ID k, wk_Prefix = k_KeyPrefix k,
            wk_Handle = Some (u_Handle a), wk_CreatedAt = k_CreatedAt k, wk_ExpiresAt = k_ExpiresAt k\<rparr> | k a.
          k \<in> set (api_keys s) \<and> k_RevokedAt k = None \<and> a \<in> set (users s) \<and> u_ID a = k_UserID k \<and> u_Role a = ''agent''})"
proof -
  let ?live = "\<lambda>s. newest_first g (filter (\<lambda>k. k_RevokedAt k = None) (api_keys s))"
  let ?rows = "\<lambda>s. concat (map (\<lambda>k. map (\<lambda>u. (k, u_Handle u))
      (filter (\<lambda>u. u_ID u = k_UserID k \<and> u_Role u = ''agent'') (users s))) (?live s))"
  have wire: "those (map (toBFFKey \<circ> (\<lambda>(row, handle). (apiKeyFromRow row)\<lparr>key_Handle := Some handle\<rparr>)) rows)
      = Some (map (\<lambda>(k, h). \<lparr>wk_Id = k_ID k, wk_Prefix = k_KeyPrefix k, wk_Handle = Some h,
          wk_CreatedAt = k_CreatedAt k, wk_ExpiresAt = k_ExpiresAt k\<rparr>) rows)" for rows
    by (induction rows) (auto simp: toBFFKey_def apiKeyFromRow_def)
  obtain q v where q: "db_ListAllAgentAPIKeys g s = (q, v)" by fastforce
  then have "select ?rows s = (q, v)" by (simp add: db_ListAllAgentAPIKeys_def)
  then show ?thesis
  proof (cases rule: select_cases)
    case fail
    with assms(1) q show ?thesis
      by (auto simp: bff_ListKeys_def Service_ListAllAgentAPIKeys_def NewAPIKeyRepo_def Repo_ListAllAgentAPIKeys_def bindR_def)
  next
    case ok
    define rows where "rows = ?rows v"
    have "q = Inr rows" "v = t" using ok assms(1) q wire [of rows]
      by (auto simp: rows_def bff_ListKeys_def Service_ListAllAgentAPIKeys_def NewAPIKeyRepo_def
          Repo_ListAllAgentAPIKeys_def bindR_def)
    then have rs: "rs = respond 200 (KeysBody (map (\<lambda>(k, h). \<lparr>wk_Id = k_ID k, wk_Prefix = k_KeyPrefix k, wk_Handle = Some h,
          wk_CreatedAt = k_CreatedAt k, wk_ExpiresAt = k_ExpiresAt k\<rparr>) rows))"
      using assms(1) q wire [of rows]
      by (simp add: bff_ListKeys_def Service_ListAllAgentAPIKeys_def NewAPIKeyRepo_def Repo_ListAllAgentAPIKeys_def bindR_def)
    have "set (?live v) = {k \<in> set (api_keys s). k_RevokedAt k = None}"
      using mset_eq_setD [OF newest_first_mset [OF assms(2)]] ok(1) by (simp add: same_tables_eq)
    moreover have "users v = users s" using ok(1) by (simp add: same_tables_eq)
    ultimately have "set rows = {(k, u_Handle a) | k a. k \<in> set (api_keys s) \<and> k_RevokedAt k = None
        \<and> a \<in> set (users s) \<and> u_ID a = k_UserID k \<and> u_Role a = ''agent''}"
      by (auto simp: rows_def)
    moreover have "(\<lambda>(k, h). \<lparr>wk_Id = k_ID k, wk_Prefix = k_KeyPrefix k, wk_Handle = Some h,
        wk_CreatedAt = k_CreatedAt k, wk_ExpiresAt = k_ExpiresAt k\<rparr>) ` {(k, u_Handle a) | k a. P k a}
      = {\<lparr>wk_Id = k_ID k, wk_Prefix = k_KeyPrefix k, wk_Handle = Some (u_Handle a), wk_CreatedAt = k_CreatedAt k,
          wk_ExpiresAt = k_ExpiresAt k\<rparr> | k a. P k a}" for P by (force simp: image_iff)
    ultimately have "set (map (\<lambda>(k, h). \<lparr>wk_Id = k_ID k, wk_Prefix = k_KeyPrefix k, wk_Handle = Some h,
        wk_CreatedAt = k_CreatedAt k, wk_ExpiresAt = k_ExpiresAt k\<rparr>) rows)
      = {\<lparr>wk_Id = k_ID k, wk_Prefix = k_KeyPrefix k, wk_Handle = Some (u_Handle a), wk_CreatedAt = k_CreatedAt k,
          wk_ExpiresAt = k_ExpiresAt k\<rparr> | k a. k \<in> set (api_keys s) \<and> k_RevokedAt k = None
        \<and> a \<in> set (users s) \<and> u_ID a = k_UserID k \<and> u_Role a = ''agent''}"
      by (simp only: set_map)
    with rs show ?thesis by blast
  qed
qed

text \<open>What a request with a good session gets, when nothing fails.\<close>

lemma api_bff_runs:
  assumes "rq_Header rq forbiddenActorHeader = []" "rq_Query rq = []" "rq_Body rq = None" "be_valid e rq = None"
    and "rq_Cookie rq sessionCookieName = Some cookie" "cookie \<noteq> []"
    and "ParseSessionCookie (be_signer e) cookie = Inr userID" "faults s = []" "find_user_id s userID = Some row"
    and "u_Role row \<noteq> ''agent''" "u_Active row"
  shows "api_bff e (NewUserRepo uuid n) keys repo op rq s
    = bff_handler e (NewUserRepo uuid n) keys repo op rq (Some (userFromRow row)) s"
  using assms
  by (simp add: api_bff_def RejectActorFields_def hasForbiddenBodyField_def RequireJSONSession_def NewUserRepo_def
      lookups_no_faults RequestValidator_def userFromRow_def)

text \<open>
  C14. The owner gets in: if GET /login redirects with a state cookie, and within five minutes the
  browser comes back to GET /callback with that cookie, the state of the redirect and a code for
  which the provider gives a verified id token of the owner's subject, then the answer carries a
  session cookie, and with it, for one hour, GET /api/bff/me tells the owner's name, whatever process
  of this secret serves each request.
\<close>

theorem owner_login_flow:
  assumes "NewLoginHandler oauth rest_ok cfg signer verifier rnd = redirect url [c]" "rand_Read 32 rnd = Inr buf"
    and "rq_Cookie rq stateCookieName = Some (ck_Value c)" "query_get rq ''state'' = b64_encode buf"
    and "query_get rq ''code'' \<noteq> []" "oa_Exchange oauth (oauthConfig cfg) (query_get rq ''code'') verifier = Inr (Some raw)"
    and "raw \<noteq> []" "verify raw = Inr sub" "faults s = []" "find_user_sub s sub = Some row" "u_Role row = ''owner''" "u_Active row"
    and "find_user_id s (u_ID row) = Some row" "utf8_valid verifier" "utf8_valid (u_ID row)"
    and "snd (sg_now signer) mod 60 = 0" "snd (sg_now signer') mod 60 = 0"
    and "sg_secret signer' = sg_secret signer" "fst (sg_now signer') < fst (sg_now signer) + 5 * minute"
    and "NewSessionCookie signer' (u_ID row) = Inr sessionValue"
    and "sg_secret (be_signer e) = sg_secret signer" "fst (sg_now (be_signer e)) < fst (sg_now signer') + hour"
    and "rq_Cookie rq' sessionCookieName = Some sessionValue" "rq_Header rq' forbiddenActorHeader = []"
    and "rq_Query rq' = []" "rq_Body rq' = None" "be_valid e rq' = None"
    and "secure = secureFromURL rest_ok (cf_AuthAudience cfg)"
  shows "NewCallbackHandler oauth rest_ok cfg signer' (Some verify) (NewUserRepo uuid n) rq s
      = (redirect ''/'' [clearCookie stateCookieName secure,
           setCookie sessionCookieName sessionValue (seconds sessionTTL) secure], s)
    \<and> api_bff e (NewUserRepo uuid n) keys repo BffMe rq' s = (respond 200 (MeBody (u_Handle row) ''owner'' True), s)"
proof -
  have cfg: "configured cfg" and c: "NewStateCookie signer (b64_encode buf) verifier = Inr (ck_Value c)"
    using assms(1)
    using assms(2)
    by (auto simp: NewLoginHandler_def Let_def randomState_def redirect_def renderLoginError_def respond_def setCookie_def
        split: if_splits sum.splits)
  have nonempty: "ck_Value c \<noteq> []" "sessionValue \<noteq> []"
    using c assms(20) by (auto simp: NewStateCookie_def NewSessionCookie_def sign_def split: option.splits)
  have state: "b64_encode buf \<noteq> []" using b64_roundtrip [of buf] rand_Read_length [OF assms(2)] b64_roundtrip [of "[]"] by auto
  have "ParseStateCookie signer' (ck_Value c) = Inr (query_get rq ''state'', verifier)"
    using state_cookie_read(1) [OF c assms(18) ascii_utf8_valid [OF b64_encode_ascii] assms(14,16)] assms(4,19) by simp
  then have callback: "NewCallbackHandler oauth rest_ok cfg signer' (Some verify) (NewUserRepo uuid n) rq s
      = (redirect ''/'' [clearCookie stateCookieName secure,
           setCookie sessionCookieName sessionValue (seconds sessionTTL) secure], s)"
    using assms(4) state
    by (intro callback_runs [where verify = verify and raw = raw, OF cfg assms(3) nonempty(1) _ _ assms(5-12,20,28)]) simp_all
  have "ParseSessionCookie (be_signer e) sessionValue = Inr (u_ID row)"
    using session_cookie_read [OF assms(20) _ assms(15,17), of "be_signer e"] assms(18,21,22) by simp
  then have "api_bff e (NewUserRepo uuid n) keys repo BffMe rq' s
      = bff_handler e (NewUserRepo uuid n) keys repo BffMe rq' (Some (userFromRow row)) s"
    using assms(11,12) by (intro api_bff_runs [OF assms(24-27,23) nonempty(2) _ assms(9,13)]) simp_all
  then show ?thesis
    using callback assms(11,12) by (simp add: bff_handler_def handleBFFMe_def userFromRow_def)
qed

section \<open>Concrete requests\<close>

definition sample_bff_env :: BffEnv where
  "sample_bff_env = \<lparr>be_uni = (\<lambda>s. s), be_signer = sample_signer, be_valid = (\<lambda>_. None),
     be_binder = \<lparr>bind_required = (\<lambda>n q. case map_of q n of Some v \<Rightarrow> Inr v | None \<Rightarrow> Inl ''missing''),
       bind_optional = (\<lambda>n q. Inr (map_of q n))\<rparr>, be_now = 1700000000 * second\<rparr>"

definition sample_bff_rq :: "string \<Rightarrow> string \<Rightarrow> string \<Rightarrow> Request" where
  "sample_bff_rq meth path cookie = \<lparr>rq_Method = meth, rq_Path = path, rq_Query = [], rq_Header = (\<lambda>_. []),
     rq_Cookie = (\<lambda>n. if n = sessionCookieName then Some cookie else None), rq_Body = None\<rparr>"

lemma sample_session:
  obtains v where "NewSessionCookie sample_signer ''o1'' = Inr v" "v \<noteq> []"
    "ParseSessionCookie sample_signer v = Inr ''o1''"
proof -
  obtain v where v: "NewSessionCookie sample_signer ''o1'' = Inr v" by (rule sample_cookies)
  then have "v \<noteq> []" by (auto simp: NewSessionCookie_def sign_def split: option.splits)
  moreover have "utf8_valid ''o1''" by code_simp
  with session_cookie_read [OF v refl] have "ParseSessionCookie sample_signer v = Inr ''o1''"
    by (simp add: sample_signer_def)
  ultimately show thesis using v that by blast
qed

lemma sample_bff_runs:
  assumes "ParseSessionCookie sample_signer v = Inr ''o1''" "v \<noteq> []"
  shows "api_bff sample_bff_env sample_users keys repo op (sample_bff_rq meth path v) sample_odb
    = bff_handler sample_bff_env sample_users keys repo op (sample_bff_rq meth path v) (Some (userFromRow sample_owner)) sample_odb"
  by (rule api_bff_runs [OF _ _ _ _ _ assms(2) _ sample_odb_facts(1,3)])
    (simp_all add: assms sample_odb_facts sample_bff_rq_def sample_bff_env_def)

lemma sample_odb_ok: "identity_db_ok sample_odb" "api_keys sample_odb = [sample_key ''x'']"
proof -
  have "nocase ''owner'' \<noteq> nocase ''Bot''" by code_simp
  then show "identity_db_ok sample_odb"
    by (simp add: sample_odb_def identity_db_ok_def users_ok_def keys_ok_def sample_owner_def sample_user_def)
  show "api_keys sample_odb = [sample_key ''x'']" by (simp add: sample_odb_def)
qed

theorem bff_effects_witness:
  "\<exists>v t. NewSessionCookie sample_signer ''o1'' = Inr v
    \<and> api_bff sample_bff_env sample_users sample_keys sample_usage (BffRevokeKey ''k1'') (sample_bff_rq ''DELETE'' ''/api/bff/keys/k1'' v)
        sample_odb = (respond 204 NoBody, t)
    \<and> same_but_keys sample_odb t \<and> \<not> same_tables sample_odb t"
proof -
  obtain v where v: "NewSessionCookie sample_signer ''o1'' = Inr v" "v \<noteq> []" "ParseSessionCookie sample_signer v = Inr ''o1''"
    by (rule sample_session)
  have "\<exists>t. Repo_RevokeAPIKeyByID 10 ''k1'' sample_odb = (Inr (apiKeyFromRow ((sample_key ''x'')\<lparr>k_RevokedAt := Some 10\<rparr>)), t)
      \<and> api_keys t \<noteq> api_keys sample_odb"
    using sample_odb_facts(1)
    by (simp add: Repo_RevokeAPIKeyByID_def not_found_def db_RevokeAPIKeyByID_def revoke_where_def io_simps
        sample_odb_ok(2) sample_key_def)
  then obtain t where t: "api_bff sample_bff_env sample_users sample_keys sample_usage (BffRevokeKey ''k1'')
      (sample_bff_rq ''DELETE'' ''/api/bff/keys/k1'' v) sample_odb = (respond 204 NoBody, t)" "api_keys t \<noteq> api_keys sample_odb"
    unfolding sample_bff_runs [OF v(3,2)]
    by (auto simp: bff_handler_def bff_RevokeKey_def RevokeAnyAgentAPIKey_def NewAPIKeyRepo_def)
  have "\<not> same_tables sample_odb t" using t(2) same_tables_eq(5) by blast
  with bff_effects [OF t(1) sample_odb_ok(1)] have "same_but_keys sample_odb t"
    by (auto simp: abortActorFieldPresent_def)
  with t v \<open>\<not> same_tables sample_odb t\<close> show ?thesis by blast
qed

theorem owner_login_flow_witness:
  "\<exists>c v url. NewLoginHandler sample_oauth (\<lambda>_. True) sample_cfg sample_signer ''vf'' (Inr (replicate 32 (CHR ''x''))) = redirect url [c]
    \<and> api_bff sample_bff_env sample_users sample_keys sample_usage BffMe (sample_bff_rq ''GET'' ''/api/bff/me'' v) sample_odb
      = (respond 200 (MeBody ''owner'' ''owner'' True), sample_odb)"
proof -
  obtain v where v: "NewSessionCookie sample_signer ''o1'' = Inr v" by (rule sample_session)
  have rnd: "rand_Read 32 (Inr (replicate 32 (CHR ''x''))) = Inr (replicate 32 (CHR ''x''))" by (simp add: rand_Read_def)
  have "configured sample_cfg" by (simp add: configured_def sample_cfg_def)
  then obtain url c where login: "NewLoginHandler sample_oauth (\<lambda>_. True) sample_cfg sample_signer ''vf'' (Inr (replicate 32 (CHR ''x''))) = redirect url [c]"
    using sample_format(2)
    by (auto simp: NewLoginHandler_def Let_def randomState_def rnd NewStateCookie_def marshal_state_def after_time_def
        stateTTL_def sample_signer_def)
  define rq where "rq = (sample_cb (ck_Value c))\<lparr>rq_Query := [(''state'', b64_encode (replicate 32 (CHR ''x''))), (''code'', ''c'')]\<rparr>"
  have u: "utf8_valid ''vf''" "utf8_valid (u_ID sample_owner)"
    unfolding sample_odb_facts(6) by code_simp+
  have q: "query_get rq ''state'' = b64_encode (replicate 32 (CHR ''x''))" "query_get rq ''code'' = ''c''"
    "rq_Cookie rq stateCookieName = Some (ck_Value c)"
    by (simp_all add: query_get_def rq_def sample_cb_def)
  have "api_bff sample_bff_env sample_users sample_keys sample_usage BffMe (sample_bff_rq ''GET'' ''/api/bff/me'' v) sample_odb
      = (respond 200 (MeBody (u_Handle sample_owner) ''owner'' True), sample_odb)"
    using owner_login_flow [where raw = "''id''" and verify = sample_verify and signer' = sample_signer and sessionValue = v
        and e = sample_bff_env and rq' = "sample_bff_rq ''GET'' ''/api/bff/me'' v" and keys = sample_keys and repo = sample_usage
        and sub = "''sub-1''", OF login rnd q(3,1) _ _ _ _ sample_odb_facts(1,2,4,5) _ u] v
    by (auto simp: q sample_oauth_def sample_verify_def sample_odb_facts sample_signer_def sample_bff_env_def
        sample_bff_rq_def)
  with login show ?thesis by (auto simp: sample_odb_facts)
qed

theorem bff_keys_listing_witness:
  "\<exists>ws. bff_ListKeys sample_keys (sample_bff_rq ''GET'' ''/api/bff/keys'' []) (Some (userFromRow sample_owner)) sample_odb
      = (respond 200 (KeysBody ws), sample_odb)
    \<and> \<lparr>wk_Id = ''k1'', wk_Prefix = ''tpl_x'', wk_Handle = Some ''Bot'', wk_CreatedAt = 0, wk_ExpiresAt = 100\<rparr> \<in> set ws"
proof -
  let ?rq = "sample_bff_rq ''GET'' ''/api/bff/keys'' []"
  obtain rs where rs: "bff_ListKeys sample_keys ?rq (Some (userFromRow sample_owner)) sample_odb = (rs, sample_odb)" "rs_Status rs = 200"
    using sample_odb_facts(1)
    by (simp add: bff_ListKeys_def Service_ListAllAgentAPIKeys_def NewAPIKeyRepo_def Repo_ListAllAgentAPIKeys_def
        db_ListAllAgentAPIKeys_def io_simps newest_first_def plain_engine_def sample_odb_ok(2) sample_key_def
        sample_odb_def sample_owner_def sample_user_def toBFFKey_def bindR_def)
  from bff_keys_listing [OF rs(1) plain_engine_ok] rs(2) obtain ws where ws: "rs = respond 200 (KeysBody ws)"
    "set ws = {\<lparr>wk_Id = k_ID k, wk_Prefix = k_KeyPrefix k, wk_Handle = Some (u_Handle a),
        wk_CreatedAt = k_CreatedAt k, wk_ExpiresAt = k_ExpiresAt k\<rparr> | k a. k \<in> set (api_keys sample_odb)
      \<and> k_RevokedAt k = None \<and> a \<in> set (users sample_odb) \<and> u_ID a = k_UserID k \<and> u_Role a = ''agent''}"
    by (elim disjE exE conjE) simp_all
  have "\<lparr>wk_Id = k_ID (sample_key ''x''), wk_Prefix = k_KeyPrefix (sample_key ''x''), wk_Handle = Some (u_Handle sample_user),
      wk_CreatedAt = k_CreatedAt (sample_key ''x''), wk_ExpiresAt = k_ExpiresAt (sample_key ''x'')\<rparr> \<in> set ws"
    unfolding ws(2) by (intro CollectI exI [of _ "sample_key ''x''"] exI [of _ sample_user] conjI refl)
      (simp_all add: sample_odb_def sample_key_def sample_user_def)
  then show ?thesis using rs ws(1) by (auto simp: sample_key_def sample_user_def)
qed

end
