(* ===== verification/GoPath.thy ===== *)
theory GoPath
  imports Prelude
begin

text \<open>
  What the source uses of packages path/filepath and os on Unix: \<open>Clean\<close>, \<open>Join\<close>, \<open>Dir\<close>, \<open>Base\<close>, a
  file system as a tree (no symbolic links), \<open>Stat\<close>, \<open>ReadFile\<close>, \<open>WriteFile\<close>, \<open>Walk\<close>.
\<close>

section \<open>Paths\<close>

fun split_on :: "char \<Rightarrow> string \<Rightarrow> string list" where
  "split_on sep [] = [[]]"
| "split_on sep (c # s) =
     (if c = sep then [] # split_on sep s
      else case split_on sep s of e # es \<Rightarrow> (c # e) # es | [] \<Rightarrow> [[c]])"

fun join_on :: "char \<Rightarrow> string list \<Rightarrow> string" where
  "join_on sep [] = []"
| "join_on sep [e] = e"
| "join_on sep (e # es) = e @ sep # join_on sep es"

text \<open>The elements kept so far, the last one first.\<close>

definition clean_step :: "bool \<Rightarrow> string list \<Rightarrow> string \<Rightarrow> string list" where
  "clean_step rooted stk e =
     (if e = [] \<or> e = ''.'' then stk
      else if e = ''..'' then
        (case stk of
           [] \<Rightarrow> if rooted then [] else [''..'']
         | t0 # r \<Rightarrow> if t0 = ''..'' then e # stk else r)
      else e # stk)"

definition path_elems :: "string \<Rightarrow> string list" where
  "path_elems p = rev (foldl (clean_step (strings_HasPrefix p ''/'')) [] (split_on (CHR ''/'') p))"

definition filepath_Clean :: "string \<Rightarrow> string" where
  "filepath_Clean p =
     (if p = [] then ''.''
      else let es = path_elems p in
        if strings_HasPrefix p ''/'' then CHR ''/'' # join_on (CHR ''/'') es
        else if es = [] then ''.'' else join_on (CHR ''/'') es)"

definition filepath_Join :: "string list \<Rightarrow> string" where
  "filepath_Join elem = (case dropWhile (\<lambda>e. e = []) elem of
     [] \<Rightarrow> [] | es \<Rightarrow> filepath_Clean (join_on (CHR ''/'') es))"

definition filepath_Dir :: "string \<Rightarrow> string" where
  "filepath_Dir p = filepath_Clean (case last_index p (CHR ''/'') of Some i \<Rightarrow> take (i + 1) p | None \<Rightarrow> [])"

definition filepath_Base :: "string \<Rightarrow> string" where
  "filepath_Base p =
     (if p = [] then ''.''
      else let q = strings_TrimRight p ''/'' in
        if q = [] then ''/''
        else case last_index q (CHR ''/'') of Some i \<Rightarrow> drop (i + 1) q | None \<Rightarrow> q)"

section \<open>Files\<close>

text \<open>A file with its content and whether it may be opened, a directory with its entries and whether
  it may be listed.\<close>

datatype fnode = FileN bool string | DirN bool "(string \<times> fnode) list"

datatype os_error = NotExist | NotDirectory | IsDirectory | Denied | TooLong

fun fs_find :: "fnode \<Rightarrow> string list \<Rightarrow> os_error + fnode" where
  "fs_find n [] = Inr n"
| "fs_find (FileN r c) (e # es) = Inl NotDirectory"
| "fs_find (DirN r entries) (e # es) = (case map_of entries e of
     None \<Rightarrow> Inl NotExist | Some n \<Rightarrow> fs_find n es)"

text \<open>Relative paths start at the working directory, given by its elements.\<close>

record filesystem =
  fs_root :: fnode
  fs_cwd :: "string list"

definition fs_path :: "filesystem \<Rightarrow> string \<Rightarrow> string list" where
  "fs_path fs p = (if strings_HasPrefix p ''/'' then path_elems p
     else rev (foldl (clean_step True) (rev (fs_cwd fs)) (split_on (CHR ''/'') p)))"

definition os_Stat :: "filesystem \<Rightarrow> string \<Rightarrow> os_error + fnode" where
  "os_Stat fs p = (if p = [] then Inl NotExist else fs_find (fs_root fs) (fs_path fs p))"

definition IsDir :: "fnode \<Rightarrow> bool" where
  "IsDir n \<longleftrightarrow> (case n of DirN _ _ \<Rightarrow> True | FileN _ _ \<Rightarrow> False)"

definition os_ReadFile :: "filesystem \<Rightarrow> string \<Rightarrow> os_error + string" where
  "os_ReadFile fs p = (case os_Stat fs p of
     Inl err \<Rightarrow> Inl err
   | Inr (DirN _ _) \<Rightarrow> Inl IsDirectory
   | Inr (FileN r c) \<Rightarrow> if r then Inr c else Inl Denied)"

text \<open>Writing truncates an existing file or creates one in an existing directory.\<close>

fun fs_write :: "fnode \<Rightarrow> string list \<Rightarrow> string \<Rightarrow> os_error + fnode" where
  "fs_write (FileN r c) [] s = (if r then Inr (FileN r s) else Inl Denied)"
| "fs_write (DirN r entries) [] s = Inl IsDirectory"
| "fs_write (FileN r c) (e # es) s = Inl NotDirectory"
| "fs_write (DirN r entries) (e # es) s = (case map_of entries e of
     Some n \<Rightarrow> (case fs_write n es s of
         Inl err \<Rightarrow> Inl err
       | Inr n' \<Rightarrow> Inr (DirN r (map (\<lambda>(k, x). (k, if k = e then n' else x)) entries)))
   | None \<Rightarrow> if es = [] then Inr (DirN r (entries @ [(e, FileN True s)])) else Inl NotExist)"

text \<open>\<open>os.WriteFile\<close>: a write is complete or fails at the open; a disk that fills up halfway, which would leave
  a truncated file behind an error, is not represented.\<close>

definition os_WriteFile :: "filesystem \<Rightarrow> string \<Rightarrow> string \<Rightarrow> os_error + filesystem" where
  "os_WriteFile fs p s =
     (if p = [] then Inl NotExist
      else case fs_write (fs_root fs) (fs_path fs p) s of
        Inl err \<Rightarrow> Inl err | Inr n \<Rightarrow> Inr (fs\<lparr>fs_root := n\<rparr>))"

section \<open>Walking\<close>

text \<open>The first error of a list of results, or all of them.\<close>

fun sequence :: "('e + 'a) list \<Rightarrow> 'e + 'a list" where
  "sequence [] = Inr []"
| "sequence (x # xs) = (case x of Inl e \<Rightarrow> Inl e
     | Inr a \<Rightarrow> (case sequence xs of Inl e \<Rightarrow> Inl e | Inr as \<Rightarrow> Inr (a # as)))"

definition name_less :: "string \<times> 'a \<Rightarrow> string \<times> 'a \<Rightarrow> bool" where
  "name_less a b \<longleftrightarrow> fst a < fst b"

text \<open>\<open>filepath.Walk\<close> with a function that collects the files it accepts and passes errors on: the
  entries of a directory in the order of their names.\<close>

fun walk :: "(string \<Rightarrow> bool) \<Rightarrow> string \<Rightarrow> fnode \<Rightarrow> os_error + string list"
  and walk_entries :: "(string \<Rightarrow> bool) \<Rightarrow> string \<Rightarrow> (string \<times> fnode) list \<Rightarrow> (string \<times> (os_error + string list)) list"
where
  "walk accept path (FileN r c) = Inr (if accept path then [path] else [])"
| "walk accept path (DirN r entries) =
     (if \<not> r then Inl Denied
      else case sequence (map snd (sort_stable name_less (walk_entries accept path entries))) of
        Inl err \<Rightarrow> Inl err | Inr fss \<Rightarrow> Inr (concat fss))"
| "walk_entries accept path [] = []"
| "walk_entries accept path ((name, n) # es) =
     (name, walk accept (filepath_Join [path, name]) n) # walk_entries accept path es"

section \<open>Reading what was written\<close>

lemma fs_write_find: "fs_write n es s = Inr n' \<Longrightarrow> fs_find n' es = Inr (FileN True s)"
proof (induction n es s arbitrary: n' rule: fs_write.induct)
  case (4 r entries e es s)
  show ?case
  proof (cases "map_of entries e")
    case None
    have "map_of (entries @ [(e, FileN True s)]) e = Some (FileN True s)"
      using None by (simp add: map_add_def)
    then show ?thesis using 4(2) None by (auto simp: map_add_def split: if_splits)
  next
    case (Some n)
    obtain m where m: "fs_write n es s = Inr m" "n' = DirN r (map (\<lambda>(k, x). (k, if k = e then m else x)) entries)"
      using 4(2) Some by (auto split: sum.splits)
    have "map_of (map (\<lambda>(k, x). (k, if k = e then m else x)) entries) e = Some m"
      using Some by (induction entries) (auto split: if_splits)
    with 4(1) [OF Some m(1)] m(2) show ?thesis by simp
  qed
qed (auto split: if_splits)

lemma os_ReadFile_WriteFile: "os_WriteFile fs p s = Inr fs' \<Longrightarrow> os_ReadFile fs' p = Inr s"
  by (auto simp: os_WriteFile_def os_ReadFile_def os_Stat_def fs_path_def dest!: fs_write_find
      split: if_splits sum.splits)

text \<open>Rewriting a file changes no other one.\<close>

definition node_read :: "os_error + fnode \<Rightarrow> os_error + string" where
  "node_read q = (case q of
     Inl err \<Rightarrow> Inl err | Inr (DirN _ _) \<Rightarrow> Inl IsDirectory | Inr (FileN r c) \<Rightarrow> if r then Inr c else Inl Denied)"

lemma map_of_replace: "map_of (map (\<lambda>(k, x). (k, if k = e then m else x)) xs) k
    = (if k = e then map_option (\<lambda>_. m) (map_of xs e) else map_of xs k)"
  by (induction xs) auto

lemma fs_write_other:
  "fs_write n es s = Inr n' \<Longrightarrow> fs_find n es = Inr (FileN r0 c0) \<Longrightarrow> es' \<noteq> es
    \<Longrightarrow> node_read (fs_find n' es') = node_read (fs_find n es')"
proof (induction n es s arbitrary: n' es' rule: fs_write.induct)
  case (1 r c s)
  then show ?case by (cases es') (auto simp: node_read_def split: if_splits)
next
  case (4 r entries e es s)
  obtain n where n: "map_of entries e = Some n" "fs_find n es = Inr (FileN r0 c0)"
    using 4(3) by (auto split: option.splits)
  obtain m where m: "fs_write n es s = Inr m" "n' = DirN r (map (\<lambda>(k, x). (k, if k = e then m else x)) entries)"
    using 4(2) n(1) by (auto split: sum.splits)
  show ?case
  proof (cases es')
    case Nil
    then show ?thesis by (simp add: m(2) node_read_def)
  next
    case (Cons k ks)
    show ?thesis
    proof (cases "k = e")
      case True
      with Cons 4(4) have "ks \<noteq> es" by simp
      from 4(1) [OF n(1) m(1) n(2) this] show ?thesis using True Cons n(1) by (simp add: m(2) map_of_replace)
    next
      case False
      then show ?thesis using Cons by (simp add: m(2) map_of_replace)
    qed
  qed
qed auto

lemma os_ReadFile_node:
  "os_ReadFile fs q = (if q = [] then Inl NotExist else node_read (fs_find (fs_root fs) (fs_path fs q)))"
  by (simp add: os_ReadFile_def os_Stat_def node_read_def)

lemma fs_path_root [simp]: "fs_path (fs\<lparr>fs_root := n\<rparr>) q = fs_path fs q"
  by (simp add: fs_path_def)

lemma os_WriteFile_other:
  assumes "os_WriteFile fs p s = Inr fs'" "os_ReadFile fs p = Inr c" "fs_path fs q \<noteq> fs_path fs p"
  shows "os_ReadFile fs' q = os_ReadFile fs q"
proof -
  obtain n where n: "fs_write (fs_root fs) (fs_path fs p) s = Inr n" "fs' = fs\<lparr>fs_root := n\<rparr>"
    using assms(1) by (auto simp: os_WriteFile_def split: if_splits sum.splits)
  obtain r0 where "fs_find (fs_root fs) (fs_path fs p) = Inr (FileN r0 c)"
    using assms(2) by (auto simp: os_ReadFile_def os_Stat_def split: if_splits sum.splits fnode.splits)
  from fs_write_other [OF n(1) this assms(3)] show ?thesis
    by (simp add: os_ReadFile_node n(2))
qed

text \<open>A long enough suffix without a separator names another file.\<close>

lemma split_on_none: "c \<notin> set x \<Longrightarrow> split_on c x = [x]"
  by (induction x) auto

lemma split_on_last: "\<exists>us e. split_on c s = us @ [e] \<and> (\<forall>x. c \<notin> set x \<longrightarrow> split_on c (s @ x) = us @ [e @ x])"
proof (induction s)
  case Nil
  show ?case by (intro exI [of _ "[]"]) (simp add: split_on_none)
next
  case (Cons a s)
  then obtain us e where e: "split_on c s = us @ [e]" "\<And>x. c \<notin> set x \<Longrightarrow> split_on c (s @ x) = us @ [e @ x]"
    by blast
  consider "a = c" | "a \<noteq> c" "us = []" | u r where "a \<noteq> c" "us = u # r" by (cases us) auto
  then show ?case
  proof cases
    case 1
    then show ?thesis using e by (intro exI [of _ "[] # us"] exI [of _ e]) simp
  next
    case 2
    then show ?thesis using e by (intro exI [of _ "[]"] exI [of _ "a # e"]) simp
  next
    case 3
    then show ?thesis using e by (intro exI [of _ "(a # u) # r"] exI [of _ e]) simp
  qed
qed

lemma fs_path_suffix:
  assumes "CHR ''/'' \<notin> set x" "2 < length x"
  shows "fs_path fs (p @ x) \<noteq> fs_path fs p"
proof -
  have slash: "strings_HasPrefix (p @ x) ''/'' \<longleftrightarrow> strings_HasPrefix p ''/''"
    using assms by (cases p; cases x) (auto simp: strings_HasPrefix_def)
  obtain us e where e: "split_on (CHR ''/'') p = us @ [e]" "split_on (CHR ''/'') (p @ x) = us @ [e @ x]"
    using split_on_last [of "CHR ''/''" p] assms(1) by blast
  have long: "clean_step b stk (e @ x) = (e @ x) # stk" for b stk
  proof -
    have "e @ x \<noteq> []" "e @ x \<noteq> ''.''" "e @ x \<noteq> ''..''"
      using assms(2) by (auto dest: arg_cong [where f = length])
    then show ?thesis unfolding clean_step_def by presburger
  qed
  have diff: "clean_step b stk (e @ x) \<noteq> clean_step b stk e" for b stk
  proof
    assume eq: "clean_step b stk (e @ x) = clean_step b stk e"
    have "length (clean_step b stk e) = Suc (length stk) \<longrightarrow> clean_step b stk e = e # stk"
      by (cases stk) (auto simp: clean_step_def)
    then have "(e @ x) # stk = e # stk" using eq unfolding long by (metis length_Cons)
    then show False using assms(2) by simp
  qed
  show ?thesis unfolding fs_path_def path_elems_def slash e by (simp add: diff)
qed

section \<open>Joining elements to a rooted path\<close>

definition plain_elem :: "string \<Rightarrow> bool" where
  "plain_elem e \<longleftrightarrow> e \<noteq> [] \<and> e \<noteq> ''.'' \<and> e \<noteq> ''..'' \<and> CHR ''/'' \<notin> set e"

lemma split_on_append: "split_on c (a @ c # b) = split_on c a @ split_on c b"
proof (induction a)
  case (Cons x a)
  show ?case
  proof (cases "split_on c a")
    case Nil
    then show ?thesis by (induction a) (auto split: list.splits)
  next
    case (Cons e es)
    then show ?thesis using Cons.IH by (auto split: list.splits) 
  qed
qed simp

lemma split_on_clean: "e \<in> set (split_on c s) \<Longrightarrow> c \<notin> set e"
  by (induction s arbitrary: e) (auto split: list.splits if_splits)

lemma split_on_join: "es \<noteq> [] \<Longrightarrow> \<forall>e \<in> set es. c \<notin> set e \<Longrightarrow> split_on c (join_on c es) = es"
  by (induction c es rule: join_on.induct) (auto simp: split_on_append split_on_none)

lemma clean_step_plain: "plain_elem e \<Longrightarrow> clean_step b stk e = e # stk"
  by (simp add: clean_step_def plain_elem_def)

lemma foldl_plain: "\<forall>e \<in> set es. plain_elem e \<Longrightarrow> foldl (clean_step b) stk es = rev es @ stk"
  by (induction es arbitrary: stk) (simp_all add: clean_step_plain)

lemma foldl_rooted:
  "\<forall>e \<in> set es. CHR ''/'' \<notin> set e \<Longrightarrow> \<forall>e \<in> set stk. plain_elem e \<Longrightarrow> \<forall>e \<in> set (foldl (clean_step True) stk es). plain_elem e"
proof (induction es arbitrary: stk)
  case (Cons x es)
  have "\<forall>e \<in> set (clean_step True stk x). plain_elem e"
    using Cons.prems by (auto simp: clean_step_def plain_elem_def split: list.splits)
  with Cons show ?case by simp
qed simp

lemma path_elems_plain: "strings_HasPrefix p ''/'' \<Longrightarrow> \<forall>e \<in> set (path_elems p). plain_elem e"
  using foldl_rooted [of "split_on (CHR ''/'') p" "[]"] split_on_clean by (auto simp: path_elems_def)

lemma path_elems_join:
  assumes "\<forall>e \<in> set es. plain_elem e"
  shows "path_elems (CHR ''/'' # join_on (CHR ''/'') es) = es"
proof (cases "es = []")
  case True
  then show ?thesis by (simp add: path_elems_def clean_step_def)
next
  case False
  have "split_on (CHR ''/'') (join_on (CHR ''/'') es) = es"
    by (rule split_on_join [OF False]) (use assms in \<open>auto simp: plain_elem_def\<close>)
  then show ?thesis using foldl_plain [OF assms] by (simp add: path_elems_def clean_step_def strings_HasPrefix_def)
qed

lemma path_elems_Clean:
  assumes "strings_HasPrefix p ''/''"
  shows "path_elems (filepath_Clean p) = path_elems p \<and> strings_HasPrefix (filepath_Clean p) ''/''"
  using path_elems_join [OF path_elems_plain [OF assms]] assms
  by (cases p) (auto simp: filepath_Clean_def Let_def strings_HasPrefix_def)

lemma path_elems_Join:
  assumes "strings_HasPrefix p ''/''" "plain_elem e"
  shows "path_elems (filepath_Join [p, e]) = path_elems p @ [e] \<and> strings_HasPrefix (filepath_Join [p, e]) ''/''"
proof -
  have ne: "p \<noteq> []" "e \<noteq> []" using assms by (auto simp: strings_HasPrefix_def plain_elem_def)
  then have j: "filepath_Join [p, e] = filepath_Clean (p @ CHR ''/'' # e)" by (simp add: filepath_Join_def)
  have pre: "strings_HasPrefix (p @ CHR ''/'' # e) ''/''" using assms(1) ne(1) by (cases p) (auto simp: strings_HasPrefix_def)
  have "path_elems (p @ CHR ''/'' # e) = path_elems p @ [e]"
    using assms pre by (simp add: path_elems_def split_on_append split_on_none plain_elem_def clean_step_plain)
  then show ?thesis using path_elems_Clean [OF pre] by (simp add: j)
qed

section \<open>Making directories\<close>

fun fs_mkdirs :: "fnode \<Rightarrow> string list \<Rightarrow> os_error + fnode" where
  "fs_mkdirs (FileN r c) es = Inl NotDirectory"
| "fs_mkdirs (DirN r entries) [] = Inr (DirN r entries)"
| "fs_mkdirs (DirN r entries) (e # es) =
     (case (case map_of entries e of Some n \<Rightarrow> fs_mkdirs n es | None \<Rightarrow> fs_mkdirs (DirN True []) es) of
        Inl err \<Rightarrow> Inl err
      | Inr n' \<Rightarrow> Inr (DirN r (if map_of entries e = None then entries @ [(e, n')]
          else map (\<lambda>(k, x). (k, if k = e then n' else x)) entries)))"

definition os_MkdirAll :: "filesystem \<Rightarrow> string \<Rightarrow> os_error + filesystem" where
  "os_MkdirAll fs p = (case fs_mkdirs (fs_root fs) (fs_path fs p) of
     Inl err \<Rightarrow> Inl err | Inr n \<Rightarrow> Inr (fs\<lparr>fs_root := n\<rparr>))"

text \<open>A file that is there stays as it is when another one is written or a directory is made.\<close>

lemma map_of_other: "map_of entries e = None \<Longrightarrow> map_of (entries @ [(e, n)]) k = (if k = e then Some n else map_of entries k)"
  by (auto simp: map_add_def split: option.split)

lemma fs_write_keeps:
  "fs_write n p s = Inr n' \<Longrightarrow> fs_find n q = Inr (FileN r0 c0) \<Longrightarrow> q \<noteq> p \<Longrightarrow> fs_find n' q = Inr (FileN r0 c0)"
proof (induction n p s arbitrary: n' q rule: fs_write.induct)
  case (1 r c s)
  then show ?case by (cases q) (auto split: if_splits)
next
  case (4 r entries e es s)
  obtain k ks where q: "q = k # ks" using 4(3) by (cases q) auto
  obtain x where x: "map_of entries k = Some x" "fs_find x ks = Inr (FileN r0 c0)"
    using 4(3) q by (auto split: option.splits)
  show ?case
  proof (cases "map_of entries e")
    case None
    then show ?thesis using 4(2) x q by (auto simp: map_of_other split: if_splits)
  next
    case (Some y)
    obtain m where m: "fs_write y es s = Inr m" "n' = DirN r (map (\<lambda>(k, x). (k, if k = e then m else x)) entries)"
      using 4(2) Some by (auto split: sum.splits)
    show ?thesis
    proof (cases "k = e")
      case True
      then have "y = x" "ks \<noteq> es" using x Some 4(4) q by auto
      then show ?thesis using 4(1) [OF Some m(1)] x True q Some by (simp add: m(2) map_of_replace)
    next
      case False
      then show ?thesis using x q by (simp add: m(2) map_of_replace)
    qed
  qed
qed auto

lemma fs_mkdirs_keeps:
  "fs_mkdirs n p = Inr n' \<Longrightarrow> fs_find n q = Inr (FileN r0 c0) \<Longrightarrow> fs_find n' q = Inr (FileN r0 c0)"
proof (induction n p arbitrary: n' q rule: fs_mkdirs.induct)
  case (3 r entries e es)
  obtain k ks where q: "q = k # ks" using 3(4) by (cases q) auto
  obtain x where x: "map_of entries k = Some x" "fs_find x ks = Inr (FileN r0 c0)"
    using 3(4) q by (auto split: option.splits)
  show ?case
  proof (cases "map_of entries e")
    case None
    then have "k \<noteq> e" using x by auto
    then show ?thesis using 3(3) None x q by (auto simp: map_of_other split: sum.splits)
  next
    case (Some y)
    obtain m where m: "fs_mkdirs y es = Inr m" "n' = DirN r (map (\<lambda>(k, x). (k, if k = e then m else x)) entries)"
      using 3(3) Some by (auto split: sum.splits)
    show ?thesis
    proof (cases "k = e")
      case True
      then show ?thesis using 3(2) [OF Some m(1)] x Some q by (simp add: m(2) map_of_replace)
    next
      case False
      then show ?thesis using x q by (simp add: m(2) map_of_replace)
    qed
  qed
qed auto


end
