(* ===== verification/Collector_Scan.thy ===== *)
theory Collector_Scan
  imports GoPath
begin

text \<open>
  src/internal/collector/scan.go: the configured roots, \<open>~\<close>, and the search for transcript files.
  The home directory is an argument; empty stands for \<open>os.UserHomeDir\<close> failing.
\<close>

record ScanPath =
  sp_Name :: string
  sp_Path :: string
  sp_SourceType :: string

definition DefaultSourceType :: string where "DefaultSourceType = ''claude_code''"

record ScannedFile =
  sf_Path :: string
  sf_ScanRoot :: string
  sf_Name :: string
  sf_SourceType :: string

definition expandHome :: "string \<Rightarrow> string \<Rightarrow> string" where
  "expandHome home path =
     (if path \<noteq> ''~'' \<and> \<not> strings_HasPrefix path ''~/'' then path
      else if home = [] then path
      else if path = ''~'' then home
      else filepath_Join [home, strings_TrimPrefix path ''~/''])"

definition is_transcript :: "string \<Rightarrow> bool" where
  "is_transcript path \<longleftrightarrow> strings_HasSuffix path ''.jsonl''"

text \<open>A root that does not exist, or is a file, is passed over; any other error ends the search.\<close>

fun FindTranscriptFiles :: "string \<Rightarrow> filesystem \<Rightarrow> ScanPath list \<Rightarrow> os_error + ScannedFile list" where
  "FindTranscriptFiles home fs [] = Inr []"
| "FindTranscriptFiles home fs (sp # scanPaths) =
     (let root = expandHome home (sp_Path sp) in
      case os_Stat fs root of
        Inl err \<Rightarrow> if err = NotExist then FindTranscriptFiles home fs scanPaths else Inl err
      | Inr info \<Rightarrow>
          if \<not> IsDir info then FindTranscriptFiles home fs scanPaths
          else let sourceType = (if sp_SourceType sp = [] then DefaultSourceType else sp_SourceType sp) in
            (case walk is_transcript root info of
               Inl err \<Rightarrow> Inl err
             | Inr paths \<Rightarrow>
                 (case FindTranscriptFiles home fs scanPaths of
                    Inl err \<Rightarrow> Inl err
                  | Inr found \<Rightarrow>
                      Inr (map (\<lambda>p. \<lparr>sf_Path = p, sf_ScanRoot = root, sf_Name = sp_Name sp,
                                     sf_SourceType = sourceType\<rparr>) paths @ found))))"

section \<open>What a walk finds\<close>

text \<open>Entry names are unique in every directory.\<close>

fun names_unique :: "fnode \<Rightarrow> bool" where
  "names_unique (FileN r c) \<longleftrightarrow> True"
| "names_unique (DirN r entries) \<longleftrightarrow> distinct (map fst entries) \<and> (\<forall>e \<in> set entries. names_unique (snd e))"

text \<open>The files beneath a node, by the path a walk gives them.\<close>

definition files_below :: "string \<Rightarrow> fnode \<Rightarrow> string set" where
  "files_below path n =
     {foldl (\<lambda>p e. filepath_Join [p, e]) path es |es. \<exists>r c. fs_find n es = Inr (FileN r c)}"

lemma sequence_Inr: "sequence xs = Inr ys \<longleftrightarrow> xs = map Inr ys"
proof (induction xs arbitrary: ys)
  case (Cons x xs)
  show ?case
  proof (cases "sequence xs")
    case (Inl e)
    then have "\<nexists>zs. xs = map Inr zs" using Cons by force
    with Inl show ?thesis by (auto split: sum.splits)
  next
    case (Inr zs)
    with Cons [of zs] show ?thesis by (auto split: sum.splits)
  qed
qed auto

lemma files_below_File [simp]: "files_below path (FileN r c) = {path}"
proof -
  have "fs_find (FileN r c) es = Inr (FileN r' c') \<longleftrightarrow> es = [] \<and> r' = r \<and> c' = c" for es r' c'
    by (cases es) auto
  then show ?thesis by (auto simp: files_below_def)
qed

lemma files_below_Dir:
  assumes "distinct (map fst entries)"
  shows "files_below path (DirN r entries)
    = (\<Union>(name, n) \<in> set entries. files_below (filepath_Join [path, name]) n)"
proof (intro equalityI subsetI)
  fix p assume "p \<in> files_below path (DirN r entries)"
  then obtain es b c where es: "p = foldl (\<lambda>p e. filepath_Join [p, e]) path es"
    "fs_find (DirN r entries) es = Inr (FileN b c)" by (auto simp: files_below_def)
  then obtain e es' where "es = e # es'" by (cases es) auto
  with es obtain n where "map_of entries e = Some n" "fs_find n es' = Inr (FileN b c)"
    by (auto split: option.splits)
  with es \<open>es = e # es'\<close> show "p \<in> (\<Union>(name, n) \<in> set entries. files_below (filepath_Join [path, name]) n)"
    by (auto simp: files_below_def dest!: map_of_SomeD intro!: bexI [of _ "(e, n)"])
next
  fix p assume "p \<in> (\<Union>(name, n) \<in> set entries. files_below (filepath_Join [path, name]) n)"
  then obtain e n es b c where e: "(e, n) \<in> set entries" "fs_find n es = Inr (FileN b c)"
    "p = foldl (\<lambda>p e. filepath_Join [p, e]) (filepath_Join [path, e]) es"
    by (auto simp: files_below_def)
  then have "fs_find (DirN r entries) (e # es) = Inr (FileN b c)" using assms by simp
  with e(3) show "p \<in> files_below path (DirN r entries)"
    unfolding files_below_def by (auto intro!: exI [of _ "e # es"])
qed

lemma walk_entries_map:
  "walk_entries accept path entries = map (\<lambda>(name, n). (name, walk accept (filepath_Join [path, name]) n)) entries"
  by (induction entries) auto

lemma walk_exact:
  assumes "names_unique n" "walk accept path n = Inr ps"
  shows "set ps = {p \<in> files_below path n. accept p}"
  using assms
proof (induction n arbitrary: path ps rule: names_unique.induct)
  case (1 r c)
  then show ?case by (auto split: if_splits)
next
  case (2 r entries)
  define ws where "ws = sort_stable name_less (walk_entries accept path entries)"
  obtain fss where fss: "sequence (map snd ws) = Inr fss" "ps = concat fss"
    using 2(3) by (auto simp: ws_def split: if_splits sum.splits)
  then have "map snd ws = map Inr fss" by (simp add: sequence_Inr)
  then have "Inr ` set fss = snd ` set ws" by (metis set_map)
  also have "set ws = set (walk_entries accept path entries)" by (simp add: ws_def)
  finally have ws: "(Inr ` set fss :: (os_error + string list) set)
      = (\<lambda>(name, n). walk accept (filepath_Join [path, name]) n) ` set entries"
    by (simp add: walk_entries_map image_image split_def)
  have "p \<in> set ps \<longleftrightarrow> (\<exists>(name, n) \<in> set entries. p \<in> files_below (filepath_Join [path, name]) n \<and> accept p)" for p
  proof
    assume "p \<in> set ps"
    then obtain fs where fs: "fs \<in> set fss" "p \<in> set fs" by (auto simp: fss(2))
    then have "Inr fs \<in> (\<lambda>(name, n). walk accept (filepath_Join [path, name]) n) ` set entries"
      unfolding ws [symmetric] by simp
    then obtain name n where e: "(name, n) \<in> set entries" "walk accept (filepath_Join [path, name]) n = Inr fs"
      by force
    have "names_unique n" using 2(2) e(1) by force
    from 2(1) [OF e(1), simplified, OF this e(2)] fs(2) e(1)
    show "\<exists>(name, n) \<in> set entries. p \<in> files_below (filepath_Join [path, name]) n \<and> accept p" by blast
  next
    assume "\<exists>(name, n) \<in> set entries. p \<in> files_below (filepath_Join [path, name]) n \<and> accept p"
    then obtain name n where e: "(name, n) \<in> set entries" "p \<in> files_below (filepath_Join [path, name]) n" "accept p"
      by blast
    then have "walk accept (filepath_Join [path, name]) n \<in> Inr ` set fss" unfolding ws by force
    then obtain fs where fs: "fs \<in> set fss" "walk accept (filepath_Join [path, name]) n = Inr fs" by auto
    have "names_unique n" using 2(2) e(1) by force
    from 2(1) [OF e(1), simplified, OF this fs(2)] e show "p \<in> set ps" using fs(1) by (auto simp: fss(2))
  qed
  then show ?case using 2(2) by (auto simp: files_below_Dir split_def)
qed

lemma fs_find_unique: "fs_find n es = Inr m \<Longrightarrow> names_unique n \<Longrightarrow> names_unique m"
  by (induction n es arbitrary: m rule: fs_find.induct) (auto split: option.splits dest: map_of_SomeD)

lemma os_Stat_unique: "os_Stat fs p = Inr n \<Longrightarrow> names_unique (fs_root fs) \<Longrightarrow> names_unique n"
  by (auto simp: os_Stat_def split: if_splits dest: fs_find_unique)

text \<open>The files one entry of the configuration stands for.\<close>

definition files_of :: "string \<Rightarrow> filesystem \<Rightarrow> ScanPath \<Rightarrow> ScannedFile set" where
  "files_of home fs sp = {f. \<exists>n. os_Stat fs (expandHome home (sp_Path sp)) = Inr n \<and> IsDir n
     \<and> sf_ScanRoot f = expandHome home (sp_Path sp) \<and> sf_Name f = sp_Name sp
     \<and> sf_SourceType f = (if sp_SourceType sp = [] then DefaultSourceType else sp_SourceType sp)
     \<and> sf_Path f \<in> files_below (sf_ScanRoot f) n \<and> is_transcript (sf_Path f)}"

text \<open>
  C28. The search is complete and precise: when it succeeds, the files found are exactly the files
  named *.jsonl at any depth below a configured root (nested subagent directories included), each with
  the root, name and source type (with its default) of its entry, roots that are missing contributing
  nothing.
\<close>

theorem transcripts_found:
  assumes "FindTranscriptFiles home fs scanPaths = Inr found" "names_unique (fs_root fs)"
  shows "set found = (\<Union>sp \<in> set scanPaths. files_of home fs sp)"
  using assms(1)
proof (induction scanPaths arbitrary: found)
  case (Cons sp sps)
  let ?root = "expandHome home (sp_Path sp)"
  show ?case
  proof (cases "os_Stat fs ?root")
    case (Inl err)
    then have "files_of home fs sp = {}" by (simp add: files_of_def)
    with Cons Inl show ?thesis by (auto simp: Let_def split: if_splits)
  next
    case (Inr n)
    show ?thesis
    proof (cases "IsDir n")
      case False
      then have "files_of home fs sp = {}" using Inr by (simp add: files_of_def)
      with Cons Inr False show ?thesis by (auto simp: Let_def)
    next
      case True
      obtain ps rest where ps: "walk is_transcript ?root n = Inr ps"
        and rest: "FindTranscriptFiles home fs sps = Inr rest"
        and found: "found = map (\<lambda>p. \<lparr>sf_Path = p, sf_ScanRoot = ?root, sf_Name = sp_Name sp,
          sf_SourceType = if sp_SourceType sp = [] then DefaultSourceType else sp_SourceType sp\<rparr>) ps @ rest"
        using Cons.prems Inr True by (auto simp: Let_def split: sum.splits)
      have set_ps: "set ps = {p \<in> files_below ?root n. is_transcript p}"
        using walk_exact [OF os_Stat_unique [OF Inr assms(2)] ps] .
      then have "files_of home fs sp = set (map (\<lambda>p. \<lparr>sf_Path = p, sf_ScanRoot = ?root, sf_Name = sp_Name sp,
          sf_SourceType = if sp_SourceType sp = [] then DefaultSourceType else sp_SourceType sp\<rparr>) ps)"
      proof (intro set_eqI)
        fix f :: ScannedFile
        obtain p r m t where f: "f = \<lparr>sf_Path = p, sf_ScanRoot = r, sf_Name = m, sf_SourceType = t\<rparr>"
          by (cases f) simp
        have "f \<in> files_of home fs sp \<longleftrightarrow> r = ?root \<and> m = sp_Name sp
            \<and> t = (if sp_SourceType sp = [] then DefaultSourceType else sp_SourceType sp) \<and> p \<in> set ps"
          unfolding files_of_def set_ps f using Inr True by simp blast
        then show "f \<in> files_of home fs sp \<longleftrightarrow> f \<in> set (map (\<lambda>p. \<lparr>sf_Path = p, sf_ScanRoot = ?root,
            sf_Name = sp_Name sp, sf_SourceType = if sp_SourceType sp = [] then DefaultSourceType else sp_SourceType sp\<rparr>) ps)"
          by (simp add: f image_iff) blast
      qed
      with Cons.IH [OF rest] found show ?thesis by auto
    qed
  qed
qed simp

definition sample_fs :: filesystem where
  "sample_fs = \<lparr>fs_root = DirN True [(''r'', DirN True [(''b.jsonl'', FileN True ''x''),
     (''a'', DirN True [(''subagents'', DirN True [(''c.jsonl'', FileN True ''y''), (''c.meta.json'', FileN True ''z'')])])])],
     fs_cwd = []\<rparr>"

lemma transcripts_found_witness:
  "\<exists>found. FindTranscriptFiles [] sample_fs [\<lparr>sp_Name = ''n'', sp_Path = ''/r'', sp_SourceType = []\<rparr>] = Inr found
     \<and> map sf_Path found = [''/r/a/subagents/c.jsonl'', ''/r/b.jsonl'']
     \<and> set found = files_of [] sample_fs \<lparr>sp_Name = ''n'', sp_Path = ''/r'', sp_SourceType = []\<rparr>"
proof -
  have run: "FindTranscriptFiles [] sample_fs [\<lparr>sp_Name = ''n'', sp_Path = ''/r'', sp_SourceType = []\<rparr>]
      = Inr (map (\<lambda>p. \<lparr>sf_Path = p, sf_ScanRoot = ''/r'', sf_Name = ''n'', sf_SourceType = ''claude_code''\<rparr>)
          [''/r/a/subagents/c.jsonl'', ''/r/b.jsonl''])"
    by code_simp
  have "names_unique (fs_root sample_fs)" by code_simp
  from transcripts_found [OF run this] run show ?thesis by (simp add: comp_def)
qed

end
