(* ===== verification/Collector_Transcript.thy ===== *)
theory Collector_Transcript
  imports GoPath GoRFC3339
begin

text \<open>
  src/internal/collector/transcript.go: reading the lines of a transcript, and its usage rows, one
  for each message id.
\<close>

section \<open>Lines\<close>

text \<open>\<open>bufio.ScanLines\<close>: the pieces between line feeds, without a trailing carriage return and without
  an empty last piece. A piece of 16 MiB or more does not fit the scanner's buffer.\<close>

definition dropCR :: "string \<Rightarrow> string" where
  "dropCR l = (if l \<noteq> [] \<and> last l = CHR 0x0D then butlast l else l)"

definition scan_pieces :: "string \<Rightarrow> string list" where
  "scan_pieces s = (let ps = split_on (CHR 0x0A) s in if last ps = [] then butlast ps else ps)"

definition max_line :: int where "max_line = 16 * 1024 * 1024"

definition ReadTranscriptLines :: "filesystem \<Rightarrow> string \<Rightarrow> os_error + string list" where
  "ReadTranscriptLines fs path = (case os_ReadFile fs path of
     Inl err \<Rightarrow> Inl err
   | Inr content \<Rightarrow>
       let ps = scan_pieces content in
       if list_ex (\<lambda>p. max_line \<le> int (length p)) ps then Inl TooLong else Inr (map dropCR ps))"

section \<open>Records\<close>

record rawUsage =
  ru_InputTokens :: i64
  ru_OutputTokens :: i64
  ru_CacheReadInputTokens :: i64
  ru_CacheCreationInputTokens :: i64

record rawMessage =
  rm_ID :: string
  rm_Model :: string
  rm_Usage :: "rawUsage option"

record rawRecord =
  rr_UUID :: string
  rr_SessionID :: string
  rr_Cwd :: string
  rr_Timestamp :: string
  rr_Message :: "rawMessage option"

definition rawUsage_fields :: "rawUsage field list" where
  "rawUsage_fields =
     [(''input_tokens'', int_field (\<lambda>v r. r\<lparr>ru_InputTokens := v\<rparr>)),
      (''output_tokens'', int_field (\<lambda>v r. r\<lparr>ru_OutputTokens := v\<rparr>)),
      (''cache_read_input_tokens'', int_field (\<lambda>v r. r\<lparr>ru_CacheReadInputTokens := v\<rparr>)),
      (''cache_creation_input_tokens'', int_field (\<lambda>v r. r\<lparr>ru_CacheCreationInputTokens := v\<rparr>))]"

definition rawMessage_fields :: "rawMessage field list" where
  "rawMessage_fields =
     [(''id'', str_field (\<lambda>v r. r\<lparr>rm_ID := v\<rparr>)),
      (''model'', str_field (\<lambda>v r. r\<lparr>rm_Model := v\<rparr>)),
      (''usage'', ptr_field (decode_struct rawUsage_fields)
         \<lparr>ru_InputTokens = 0, ru_OutputTokens = 0, ru_CacheReadInputTokens = 0, ru_CacheCreationInputTokens = 0\<rparr>
         rm_Usage (\<lambda>v r. r\<lparr>rm_Usage := v\<rparr>))]"

definition rawRecord_fields :: "rawRecord field list" where
  "rawRecord_fields =
     [(''uuid'', str_field (\<lambda>v r. r\<lparr>rr_UUID := v\<rparr>)),
      (''sessionId'', str_field (\<lambda>v r. r\<lparr>rr_SessionID := v\<rparr>)),
      (''cwd'', str_field (\<lambda>v r. r\<lparr>rr_Cwd := v\<rparr>)),
      (''timestamp'', str_field (\<lambda>v r. r\<lparr>rr_Timestamp := v\<rparr>)),
      (''message'', ptr_field (decode_struct rawMessage_fields) \<lparr>rm_ID = [], rm_Model = [], rm_Usage = None\<rparr>
         rr_Message (\<lambda>v r. r\<lparr>rr_Message := v\<rparr>))]"

text \<open>\<open>json.Unmarshal\<close> of a whole document into a fresh struct; \<open>None\<close> is an error.\<close>

definition unmarshal :: "'r field list \<Rightarrow> 'r \<Rightarrow> string \<Rightarrow> 'r option" where
  "unmarshal fs fresh s = Option.bind (json_parse s) (\<lambda>v. decode_struct fs v fresh)"

definition parse_record :: "string \<Rightarrow> rawRecord option" where
  "parse_record = unmarshal rawRecord_fields
     \<lparr>rr_UUID = [], rr_SessionID = [], rr_Cwd = [], rr_Timestamp = [], rr_Message = None\<rparr>"

section \<open>Usage rows\<close>

record UsageRow =
  ro_MessageID :: string
  ro_SessionID :: string
  ro_Cwd :: string
  ro_Model :: string
  ro_InputTokens :: i64
  ro_OutputTokens :: i64
  ro_CacheReadInputTokens :: i64
  ro_CacheCreationInputTokens :: i64
  ro_Timestamp :: "time \<times> int"

text \<open>The row of a line, when the line is a record with usage and a message id.\<close>

definition usage_row :: "string \<Rightarrow> UsageRow option" where
  "usage_row line =
     (if line = [] then None
      else case parse_record line of
        None \<Rightarrow> None
      | Some r \<Rightarrow> (case rr_Message r of
          None \<Rightarrow> None
        | Some msg \<Rightarrow> (case rm_Usage msg of
            None \<Rightarrow> None
          | Some u \<Rightarrow>
              if rm_ID msg = [] then None
              else Some \<lparr>ro_MessageID = rm_ID msg, ro_SessionID = rr_SessionID r, ro_Cwd = rr_Cwd r,
                     ro_Model = rm_Model msg, ro_InputTokens = ru_InputTokens u, ro_OutputTokens = ru_OutputTokens u,
                     ro_CacheReadInputTokens = ru_CacheReadInputTokens u,
                     ro_CacheCreationInputTokens = ru_CacheCreationInputTokens u,
                     ro_Timestamp = (case parse_rfc3339 (rr_Timestamp r) of Some ts \<Rightarrow> ts | None \<Rightarrow> zero_time)\<rparr>)))"

fun extract_loop :: "string list \<Rightarrow> string set \<Rightarrow> UsageRow list \<Rightarrow> UsageRow list" where
  "extract_loop [] seen rows = rows"
| "extract_loop (line # lines) seen rows = (case usage_row line of
     None \<Rightarrow> extract_loop lines seen rows
   | Some r \<Rightarrow>
       if ro_MessageID r \<in> seen then extract_loop lines seen rows
       else extract_loop lines (insert (ro_MessageID r) seen) (rows @ [r]))"

definition ExtractUsageRows :: "string list \<Rightarrow> UsageRow list" where
  "ExtractUsageRows lines = extract_loop lines {} []"

definition ExtractUsageRowsFromFile :: "filesystem \<Rightarrow> string \<Rightarrow> os_error + UsageRow list" where
  "ExtractUsageRowsFromFile fs path = (case ReadTranscriptLines fs path of
     Inl err \<Rightarrow> Inl err | Inr lines \<Rightarrow> Inr (ExtractUsageRows lines))"

section \<open>One row for each message\<close>

lemma extract_loop_eq:
  "extract_loop lines seen rows
    = rows @ first_by ro_MessageID (filter (\<lambda>r. ro_MessageID r \<notin> seen) (List.map_filter usage_row lines))"
proof (induction lines arbitrary: seen rows)
  case (Cons line lines)
  show ?case
  proof (cases "usage_row line")
    case None
    with Cons show ?thesis by (simp add: List.map_filter_simps)
  next
    case (Some r)
    with Cons show ?thesis
      by (simp add: List.map_filter_simps first_by_Cons_seen del: insert_iff)
  qed
qed (simp add: List.map_filter_simps)

lemma ExtractUsageRows_eq: "ExtractUsageRows lines = first_by ro_MessageID (List.map_filter usage_row lines)"
  by (simp add: ExtractUsageRows_def extract_loop_eq)

text \<open>
  C29. Usage is counted once for each message: the rows of a transcript have distinct message ids, a
  message that has usage on any line has a row, and the row is that of its first usage line.
\<close>

theorem rows_once:
  "distinct (map ro_MessageID (ExtractUsageRows lines))
   \<and> ro_MessageID ` set (ExtractUsageRows lines) = {ro_MessageID r |r. \<exists>line \<in> set lines. usage_row line = Some r}
   \<and> (\<forall>r. r \<in> set (ExtractUsageRows lines)
        \<longleftrightarrow> find (\<lambda>q. ro_MessageID q = ro_MessageID r) (List.map_filter usage_row lines) = Some r)"
proof -
  have "set (List.map_filter usage_row lines) = {r. \<exists>line \<in> set lines. usage_row line = Some r}"
    by (induction lines) (auto simp: List.map_filter_simps split: option.splits)
  then have "ro_MessageID ` set (List.map_filter usage_row lines)
      = {ro_MessageID r |r. \<exists>line \<in> set lines. usage_row line = Some r}" by auto
  then show ?thesis
    by (simp add: ExtractUsageRows_eq first_by_distinct first_by_keys first_by_find)
qed

end
