(* ===== verification/Collector_Touched.thy ===== *)
theory Collector_Touched
  imports Collector_Scan Collector_Transcript
begin

text \<open>
  src/internal/collector/touchedpaths.go: the paths the tool calls of a transcript name, and the
  session a transcript belongs to. A raw JSON message is kept as the value it holds.
\<close>

section \<open>The cd prefix\<close>

text \<open>RE2's \<open>\s\<close> (no vertical tab).\<close>

definition re_space :: "char \<Rightarrow> bool" where
  "re_space c \<longleftrightarrow> c \<in> {CHR 0x09, CHR 0x0A, CHR 0x0C, CHR 0x0D, CHR 0x20}"

definition ends_command :: "string \<Rightarrow> bool" where
  "ends_command s \<longleftrightarrow> strings_HasPrefix s ''&&'' \<or> strings_HasPrefix s '';''"

text \<open>The greedy \<open>(\S+)\s*(?:&&|;)\<close> on a word \<open>w\<close> (a maximal run of non-spaces) with \<open>rest\<close> after it:
  all of the word when the terminator follows it, otherwise its longest proper prefix that is
  followed by a terminator within the word.\<close>

fun longest_cut :: "string \<Rightarrow> nat \<Rightarrow> string option" where
  "longest_cut w 0 = None"
| "longest_cut w (Suc n) = (if ends_command (drop (Suc n) w) then Some (take (Suc n) w) else longest_cut w n)"

definition cd_target :: "string \<Rightarrow> string \<Rightarrow> string option" where
  "cd_target w rest =
     (if w = [] then None
      else if ends_command (dropWhile re_space rest) then Some w
      else longest_cut w (length w))"

text \<open>\<open>^\s*cd\s+(\S+)\s*(?:&&|;)\<close>: the first group.\<close>

definition cdPrefixPattern :: "string \<Rightarrow> string option" where
  "cdPrefixPattern command =
     (let s = dropWhile re_space command in
      if \<not> strings_HasPrefix s ''cd'' then None
      else let r = strings_TrimPrefix s ''cd''; r' = dropWhile re_space r in
        if r' = r then None
        else cd_target (takeWhile (\<lambda>c. \<not> re_space c) r') (dropWhile (\<lambda>c. \<not> re_space c) r'))"

definition extractCdPath :: "string \<Rightarrow> string \<Rightarrow> string option" where
  "extractCdPath home command = (case cdPrefixPattern command of
     None \<Rightarrow> None
   | Some m \<Rightarrow>
       let target = strings_Trim m [CHR 0x22, CHR 0x27] in
       if \<not> strings_HasPrefix target ''/'' \<and> \<not> strings_HasPrefix target ''~'' then None
       else Some (expandHome home target))"

section \<open>Tool calls\<close>

record toolUseBlock =
  tb_Type :: string
  tb_Name :: string
  tb_Input :: "json option"

definition toolUseBlock_fields :: "toolUseBlock field list" where
  "toolUseBlock_fields =
     [(''type'', str_field (\<lambda>v r. r\<lparr>tb_Type := v\<rparr>)),
      (''name'', str_field (\<lambda>v r. r\<lparr>tb_Name := v\<rparr>)),
      (''input'', raw_field (\<lambda>v r. r\<lparr>tb_Input := v\<rparr>))]"

text \<open>A struct with one string field, decoded from a raw message.\<close>

definition raw_string :: "string \<Rightarrow> json option \<Rightarrow> string option" where
  "raw_string name raw = Option.bind raw (\<lambda>v. decode_struct [(name, str_field (\<lambda>x r. x))] v [])"

definition nonempty :: "string option \<Rightarrow> string option" where
  "nonempty x = (case x of Some p \<Rightarrow> if p = [] then None else Some p | None \<Rightarrow> None)"

definition touchedPathFromBlock :: "string \<Rightarrow> toolUseBlock \<Rightarrow> string option" where
  "touchedPathFromBlock home b =
     (if tb_Name b \<in> {''Read'', ''Write'', ''Edit''} then nonempty (raw_string ''file_path'' (tb_Input b))
      else if tb_Name b = ''Glob'' then nonempty (raw_string ''path'' (tb_Input b))
      else if tb_Name b = ''Bash'' then
        Option.bind (nonempty (raw_string ''command'' (tb_Input b))) (extractCdPath home)
      else None)"

text \<open>The content of a line's message: \<open>None\<close> where the line is passed over.\<close>

definition message_content :: "string \<Rightarrow> json option" where
  "message_content line =
     (case unmarshal
         [(''message'', ptr_field (decode_struct [(''content'', raw_field (\<lambda>v r. v))]) None (\<lambda>r. r) (\<lambda>v r. v))]
         None line of
        Some (Some (Some content)) \<Rightarrow> Some content
      | _ \<Rightarrow> None)"

definition content_blocks :: "json \<Rightarrow> toolUseBlock list option" where
  "content_blocks content = slice_field (\<lambda>v. decode_struct toolUseBlock_fields v \<lparr>tb_Type = [], tb_Name = [], tb_Input = None\<rparr>)
     (\<lambda>bs r. bs) content []"

definition touched_of_line :: "string \<Rightarrow> string \<Rightarrow> string list" where
  "touched_of_line home line =
     (if line = [] then []
      else case message_content line of
        None \<Rightarrow> []
      | Some content \<Rightarrow> (case content_blocks content of
          None \<Rightarrow> []
        | Some blocks \<Rightarrow> List.map_filter (touchedPathFromBlock home) (filter (\<lambda>b. tb_Type b = ''tool_use'') blocks)))"

definition ExtractTouchedPaths :: "string \<Rightarrow> string list \<Rightarrow> string list" where
  "ExtractTouchedPaths home lines = concat (map (touched_of_line home) lines)"

text \<open>The first session id of a transcript.\<close>

definition session_of_line :: "string \<Rightarrow> string option" where
  "session_of_line line =
     (if line = [] then None else nonempty (unmarshal [(''sessionId'', str_field (\<lambda>x r. x))] [] line))"

fun firstSessionID :: "string list \<Rightarrow> string option" where
  "firstSessionID [] = None"
| "firstSessionID (line # lines) = (case session_of_line line of Some i \<Rightarrow> Some i | None \<Rightarrow> firstSessionID lines)"

definition isScratchPath :: "string \<Rightarrow> bool" where
  "isScratchPath p \<longleftrightarrow> p = ''/tmp'' \<or> strings_HasPrefix p ''/tmp/''"

section \<open>The pattern\<close>

text \<open>What the pattern means: the command is blanks, cd, blanks, the target, blanks, a terminator.\<close>

definition cd_shape :: "string \<Rightarrow> string \<Rightarrow> bool" where
  "cd_shape command w \<longleftrightarrow> (\<exists>a b c rest. command = a @ ''cd'' @ b @ w @ c @ rest \<and> list_all re_space a
     \<and> b \<noteq> [] \<and> list_all re_space b \<and> w \<noteq> [] \<and> list_all (\<lambda>x. \<not> re_space x) w \<and> list_all re_space c
     \<and> ends_command rest)"

lemma longest_cut_Some:
  "longest_cut w n = Some m \<Longrightarrow> n \<le> length w \<Longrightarrow> \<exists>k. 0 < k \<and> k \<le> n \<and> m = take k w \<and> ends_command (drop k w)
     \<and> (\<forall>j. k < j \<and> j \<le> n \<longrightarrow> \<not> ends_command (drop j w))"
proof (induction n)
  case (Suc n)
  show ?case
  proof (cases "ends_command (drop (Suc n) w)")
    case True
    with Suc.prems show ?thesis by (intro exI [of _ "Suc n"]) auto
  next
    case False
    with Suc.prems obtain k where "0 < k \<and> k \<le> n \<and> m = take k w \<and> ends_command (drop k w)
        \<and> (\<forall>j. k < j \<and> j \<le> n \<longrightarrow> \<not> ends_command (drop j w))" using Suc.IH by auto
    with False show ?thesis by (intro exI [of _ k]) (auto simp: le_Suc_eq)
  qed
qed simp

lemma longest_cut_None:
  "longest_cut w n = None \<Longrightarrow> 0 < k \<Longrightarrow> k \<le> n \<Longrightarrow> \<not> ends_command (drop k w)"
  by (induction n) (auto simp: le_Suc_eq split: if_splits)

lemma takeWhile_head:
  "list_all P a \<Longrightarrow> r = [] \<or> \<not> P (hd r) \<Longrightarrow> takeWhile P (a @ r) = a \<and> dropWhile P (a @ r) = r"
  by (induction a) (cases r; auto)+

lemma ends_command_nonspace: "ends_command s \<Longrightarrow> s \<noteq> [] \<and> \<not> re_space (hd s)"
  by (cases s) (auto simp: ends_command_def strings_HasPrefix_def re_space_def)

abbreviation nonspace :: "char \<Rightarrow> bool" where "nonspace \<equiv> \<lambda>x. \<not> re_space x"

definition tail_shape :: "string \<Rightarrow> string \<Rightarrow> bool" where
  "tail_shape q w \<longleftrightarrow> (\<exists>c rest. q = w @ c @ rest \<and> w \<noteq> [] \<and> list_all nonspace w \<and> list_all re_space c
     \<and> ends_command rest)"

lemma cd_shape_iff:
  "cd_shape command w \<longleftrightarrow> (\<exists>r. dropWhile re_space command = ''cd'' @ r \<and> dropWhile re_space r \<noteq> r
     \<and> tail_shape (dropWhile re_space r) w)"
proof
  assume "cd_shape command w"
  then obtain a b c rest where command: "command = a @ ''cd'' @ b @ w @ c @ rest" "list_all re_space a"
    and b: "b \<noteq> []" "list_all re_space b" and w: "w \<noteq> []" "list_all nonspace w"
    and c: "list_all re_space c" "ends_command rest" unfolding cd_shape_def by blast
  have "dropWhile re_space command = ''cd'' @ b @ w @ c @ rest"
    unfolding command(1) using takeWhile_head [OF command(2), of "''cd'' @ b @ w @ c @ rest"]
    by (simp add: re_space_def)
  moreover have q: "dropWhile re_space (b @ w @ c @ rest) = w @ c @ rest"
    using takeWhile_head [OF b(2), of "w @ c @ rest"] w by (cases w) auto
  moreover have "dropWhile re_space (b @ w @ c @ rest) \<noteq> b @ w @ c @ rest" unfolding q using b(1) by simp
  moreover have "tail_shape (w @ c @ rest) w" unfolding tail_shape_def using w c by blast
  ultimately show "\<exists>r. dropWhile re_space command = ''cd'' @ r \<and> dropWhile re_space r \<noteq> r
     \<and> tail_shape (dropWhile re_space r) w" by metis
next
  assume "\<exists>r. dropWhile re_space command = ''cd'' @ r \<and> dropWhile re_space r \<noteq> r
     \<and> tail_shape (dropWhile re_space r) w"
  then obtain r c rest where r: "dropWhile re_space command = ''cd'' @ r" "dropWhile re_space r \<noteq> r"
    and q: "dropWhile re_space r = w @ c @ rest" and w: "w \<noteq> []" "list_all nonspace w"
    and c: "list_all re_space c" "ends_command rest" unfolding tail_shape_def by blast
  have "command = takeWhile re_space command @ ''cd'' @ takeWhile re_space r @ w @ c @ rest"
    by (metis q r(1) takeWhile_dropWhile_id)
  moreover have "takeWhile re_space r \<noteq> []" using r(2) by (metis append_Nil takeWhile_dropWhile_id)
  moreover have "list_all re_space (takeWhile re_space x)" for x
    by (simp add: list_all_iff) (metis set_takeWhileD)
  ultimately show "cd_shape command w" unfolding cd_shape_def using w c by blast
qed

lemma ends_command_cases: "ends_command s \<longleftrightarrow> (\<exists>r. s = ''&&'' @ r \<or> s = '';'' @ r)"
  unfolding ends_command_def by (metis HasPrefix_append HasPrefixE)

lemma ends_command_append: "ends_command s \<Longrightarrow> ends_command (s @ t)"
  by (auto simp: ends_command_cases)

lemma ends_command_takeWhile: "ends_command s \<Longrightarrow> ends_command (takeWhile nonspace s)"
  by (auto simp: ends_command_cases re_space_def)

lemma tail_shape_iff:
  fixes q
  defines "W \<equiv> takeWhile nonspace q" and "R \<equiv> dropWhile nonspace q"
  shows "tail_shape q w \<longleftrightarrow> w \<noteq> [] \<and> (w = W \<and> ends_command (dropWhile re_space R)
    \<or> (\<exists>k \<le> length W. w = take k W \<and> ends_command (drop k W)))"
proof
  assume "tail_shape q w"
  then obtain c rest where q: "q = w @ c @ rest" and w: "w \<noteq> []" "list_all nonspace w"
    and c: "list_all re_space c" "ends_command rest" unfolding tail_shape_def by blast
  have rest: "rest \<noteq> []" "nonspace (hd rest)" using ends_command_nonspace [OF c(2)] by auto
  show "w \<noteq> [] \<and> (w = W \<and> ends_command (dropWhile re_space R)
    \<or> (\<exists>k \<le> length W. w = take k W \<and> ends_command (drop k W)))"
  proof (cases "c = []")
    case True
    have "W = w @ takeWhile nonspace rest"
      unfolding W_def q using w(2) True by (simp add: takeWhile_append2 list_all_iff)
    then show ?thesis using w(1) ends_command_takeWhile [OF c(2)]
      by (intro conjI disjI2 exI [of _ "length w"]) auto
  next
    case False
    then have "hd (c @ rest) = hd c" "re_space (hd c)" using c(1) by (auto simp: list_all_iff)
    then have "W = w" "R = c @ rest" unfolding W_def R_def q
      using takeWhile_head [OF w(2), of "c @ rest"] by auto
    moreover have "dropWhile re_space (c @ rest) = rest" using takeWhile_head [OF c(1)] rest by blast
    ultimately show ?thesis using w(1) c(2) by simp
  qed
next
  assume asm: "w \<noteq> [] \<and> (w = W \<and> ends_command (dropWhile re_space R)
    \<or> (\<exists>k \<le> length W. w = take k W \<and> ends_command (drop k W)))"
  have q: "q = W @ R" and W: "list_all nonspace W"
    by (auto simp: W_def R_def list_all_iff dest: set_takeWhileD)
  from asm consider "w = W" "ends_command (dropWhile re_space R)"
    | k where "k \<le> length W" "w = take k W" "ends_command (drop k W)" by blast
  then show "tail_shape q w"
  proof cases
    case 1
    have "q = w @ takeWhile re_space R @ dropWhile re_space R" using q 1(1) by simp
    moreover have "list_all re_space (takeWhile re_space R)" by (auto simp: list_all_iff dest: set_takeWhileD)
    moreover have "w \<noteq> []" "list_all nonspace w" using asm W 1(1) by simp_all
    ultimately show ?thesis unfolding tail_shape_def using 1(2)
      by (intro exI [of _ "takeWhile re_space R"] exI [of _ "dropWhile re_space R"]) simp
  next
    case 2
    have "q = w @ [] @ drop k W @ R" using q 2(2) by simp
    moreover have "list_all nonspace w" using W 2(2) by (metis append_take_drop_id list_all_append)
    ultimately show ?thesis unfolding tail_shape_def using asm ends_command_append [OF 2(3)]
      by (intro exI [of _ "[]"] exI [of _ "drop k W @ R"]) simp
  qed
qed

lemma cd_target_iff:
  "cd_target (takeWhile nonspace q) (dropWhile nonspace q) = Some w
     \<Longrightarrow> tail_shape q w \<and> (\<forall>w'. tail_shape q w' \<longrightarrow> length w' \<le> length w)"
  "cd_target (takeWhile nonspace q) (dropWhile nonspace q) = None \<Longrightarrow> \<not> tail_shape q w"
proof -
  define W R where "W = takeWhile nonspace q" and "R = dropWhile nonspace q"
  note t = tail_shape_iff [of q, folded W_def R_def]
  show "tail_shape q w \<and> (\<forall>w'. tail_shape q w' \<longrightarrow> length w' \<le> length w)"
    if "cd_target (takeWhile nonspace q) (dropWhile nonspace q) = Some w"
  proof (cases "ends_command (dropWhile re_space R)")
    case True
    then have "w = W" "W \<noteq> []" using that by (auto simp: cd_target_def W_def R_def split: if_splits)
    then show ?thesis using True by (auto simp: t)
  next
    case False
    then have "longest_cut W (length W) = Some w" "W \<noteq> []"
      using that by (auto simp: cd_target_def W_def R_def split: if_splits)
    then obtain k where k: "0 < k" "k \<le> length W" "w = take k W" "ends_command (drop k W)"
      "\<forall>j. k < j \<and> j \<le> length W \<longrightarrow> \<not> ends_command (drop j W)" using longest_cut_Some by blast
    have "length w' \<le> length w" if sh: "tail_shape q w'" for w'
    proof -
      obtain j where "j \<le> length W" "w' = take j W" "ends_command (drop j W)"
        using sh False unfolding t by blast
      with k show ?thesis by (metis leI length_take min.absorb2)
    qed
    moreover have "tail_shape q w" using k \<open>W \<noteq> []\<close> by (auto simp: t)
    ultimately show ?thesis by blast
  qed
  show "\<not> tail_shape q w" if "cd_target (takeWhile nonspace q) (dropWhile nonspace q) = None"
  proof
    assume "tail_shape q w"
    then have ne: "W \<noteq> []" and or: "ends_command (dropWhile re_space R)
      \<or> (\<exists>k \<le> length W. w = take k W \<and> w \<noteq> [] \<and> ends_command (drop k W))" by (auto simp: t)
    from that ne have "\<not> ends_command (dropWhile re_space R)" "longest_cut W (length W) = None"
      by (auto simp: cd_target_def W_def R_def split: if_splits)
    with or longest_cut_None show False by (metis gr0I take0)
  qed
qed

text \<open>The pattern finds the leading cd of a command exactly when there is one: what it returns is the
  longest target w such that the command reads blanks, cd, blanks, w, blanks, a terminator; it returns
  nothing only when no target reads so.\<close>

lemma cd_pattern_exact:
  "case cdPrefixPattern command of
     Some w \<Rightarrow> cd_shape command w \<and> (\<forall>w'. cd_shape command w' \<longrightarrow> length w' \<le> length w)
   | None \<Rightarrow> \<not> (\<exists>w. cd_shape command w)"
proof (cases "\<exists>r. dropWhile re_space command = ''cd'' @ r \<and> dropWhile re_space r \<noteq> r")
  case True
  then obtain r where r: "dropWhile re_space command = ''cd'' @ r" "dropWhile re_space r \<noteq> r" by blast
  define q where "q = dropWhile re_space r"
  have p: "cdPrefixPattern command = cd_target (takeWhile nonspace q) (dropWhile nonspace q)"
    unfolding cdPrefixPattern_def Let_def r(1) TrimPrefix_append using r(2)
    by (simp add: q_def strings_HasPrefix_def)
  have "cd_shape command w \<longleftrightarrow> tail_shape q w" for w
    unfolding cd_shape_iff r(1) q_def using r(2) by auto
  then show ?thesis unfolding p using cd_target_iff [of q] by (auto split: option.split)
next
  case False
  have "cdPrefixPattern command = None"
  proof (cases "strings_HasPrefix (dropWhile re_space command) ''cd''")
    case True
    then obtain r where r: "dropWhile re_space command = ''cd'' @ r" by (rule HasPrefixE)
    then have "dropWhile re_space r = r" using False by blast
    then show ?thesis unfolding cdPrefixPattern_def Let_def r TrimPrefix_append by simp
  qed (simp add: cdPrefixPattern_def Let_def)
  then show ?thesis unfolding cd_shape_iff using False by auto
qed

text \<open>A target without the bytes of a terminator is the only one, when the terminator stands on its own.\<close>

lemma dropWhile_nonspace_hd: "rest = [] \<or> re_space (hd rest) \<Longrightarrow> takeWhile nonspace rest = [] \<and> dropWhile nonspace rest = rest"
  by (cases rest) auto

lemma only_target:
  assumes p: "p \<noteq> []" "list_all nonspace p" "CHR '';'' \<notin> set p" "CHR ''&'' \<notin> set p"
    and c: "list_all re_space c" "sep \<in> {''&&'', '';''}"
    and rest: "rest = [] \<or> re_space (hd rest)" "\<not> ends_command (dropWhile re_space rest)"
    and w: "tail_shape (p @ c @ sep @ rest) w"
  shows "w = p"
proof -
  have clean: "\<not> ends_command (x # y)" if "x \<in> set p" for x y
    using that p(3,4) by (auto simp: ends_command_def strings_HasPrefix_def)
  have sepw: "list_all nonspace sep" "sep \<noteq> []" "\<not> re_space (hd sep)" using c(2) by (auto simp: re_space_def)
  have inside: "\<not> ends_command (drop k p @ y)" if "k < length p" for k y
    using clean [of "p ! k"] that by (simp add: Cons_nth_drop_Suc [symmetric])
  show ?thesis
  proof (cases "c = []")
    case True
    have W: "takeWhile nonspace (p @ c @ sep @ rest) = p @ sep" "dropWhile nonspace (p @ c @ sep @ rest) = rest"
      using takeWhile_head [of nonspace "p @ sep" rest] p(2) sepw(1) rest(1) True by auto
    then obtain k where k: "k \<le> length (p @ sep)" "w = take k (p @ sep)" "ends_command (drop k (p @ sep))"
      using w rest(2) unfolding tail_shape_iff W by blast
    then have "length p \<le> k" using inside [of k sep] by (cases "k < length p") auto
    moreover have "\<not> ends_command (drop n sep)" if "0 < n" for n
    proof -
      have "sep = ''&&'' \<or> sep = '';''" using c(2) by simp
      moreover have "drop n ''&&'' \<in> {''&'', []}" "drop n '';'' = []" using that by (auto simp: drop_Cons')
      moreover have "\<not> ends_command ''&''" "\<not> ends_command []" by code_simp+
      ultimately show ?thesis by (elim disjE) auto
    qed
    moreover have "ends_command (drop (k - length p) sep)" using k(3) \<open>length p \<le> k\<close> by simp
    ultimately have "k = length p" by (metis le_antisym not_gr_zero diff_is_0_eq)
    with k(2) show ?thesis by simp
  next
    case False
    obtain x c' where "c = x # c'" "re_space x" using False c(1) by (cases c) auto
    then have "\<not> nonspace (hd (c @ sep @ rest))" by simp
    then have W: "takeWhile nonspace (p @ c @ sep @ rest) = p" using takeWhile_head [OF p(2)] by blast
    then have "w = p \<or> (\<exists>k \<le> length p. w = take k p \<and> ends_command (drop k p))"
      using w unfolding tail_shape_iff W by blast
    moreover have "\<not> ends_command (drop k p)" if "k \<le> length p" for k
      using inside [of k "[]"] that by (cases "k = length p") (auto simp: ends_command_def strings_HasPrefix_def)
    ultimately show ?thesis by blast
  qed
qed

lemma cd_shape_tail:
  assumes "list_all re_space a" "b \<noteq> []" "list_all re_space b" "q \<noteq> []" "\<not> re_space (hd q)"
  shows "cd_shape (a @ ''cd'' @ b @ q) w \<longleftrightarrow> tail_shape q w"
proof -
  have a: "dropWhile re_space (a @ ''cd'' @ b @ q) = ''cd'' @ b @ q"
    using takeWhile_head [OF assms(1), of "''cd'' @ b @ q"] by (simp add: re_space_def)
  have b: "dropWhile re_space (b @ q) = q" using takeWhile_head [OF assms(3), of q] assms(5) by blast
  have "b @ q \<noteq> q" using assms(2) by simp
  then show ?thesis unfolding cd_shape_iff a using b by auto
qed

lemma Trim_id: "s \<noteq> [] \<Longrightarrow> hd s \<notin> set cs \<Longrightarrow> last s \<notin> set cs \<Longrightarrow> strings_Trim s cs = s"
proof -
  assume s: "s \<noteq> []" "hd s \<notin> set cs" "last s \<notin> set cs"
  have "dropWhile (\<lambda>c. c \<in> set cs) s = s" using s(1,2) by (cases s) auto
  moreover have "dropWhile (\<lambda>c. c \<in> set cs) (rev s) = rev s" using s(1,3) by (cases "rev s") (auto simp: hd_rev [symmetric])
  ultimately show "strings_Trim s cs = s" by (simp add: strings_Trim_def strings_TrimRight_def)
qed

text \<open>
  C30. The leading cd of a command: if a command reads cd path && or cd path; with a path of any bytes but
  blanks, ; and &, and the separator is followed by a blank or the end and is not followed, after blanks, by
  a second separator, then the target is that path, and an absolute path that ends in no quote is the path
  the command touches, while a relative one touches none. (With no blank after the separator the group is
  greedy and may run on: see the example after the theorem.) Whatever the pattern returns for any command stands between a leading cd and a
  separator, and it returns nothing only when the command has no leading cd with a target and a
  separator.
\<close>

theorem cd_leading_target:
  assumes "list_all re_space a" "b \<noteq> []" "list_all re_space b"
    and "p \<noteq> []" "list_all (\<lambda>x. \<not> re_space x) p" "CHR '';'' \<notin> set p" "CHR ''&'' \<notin> set p"
    and "list_all re_space c" "sep \<in> {''&&'', '';''}"
    and "rest = [] \<or> re_space (hd rest)" "\<not> ends_command (dropWhile re_space rest)"
  shows "cdPrefixPattern (a @ ''cd'' @ b @ p @ c @ sep @ rest) = Some p
    \<and> (hd p = CHR ''/'' \<and> last p \<notin> {CHR 0x22, CHR 0x27} \<longrightarrow>
        extractCdPath home (a @ ''cd'' @ b @ p @ c @ sep @ rest) = Some p)
    \<and> (hd p \<notin> {CHR ''/'', CHR ''~'', CHR 0x22, CHR 0x27} \<longrightarrow>
        extractCdPath home (a @ ''cd'' @ b @ p @ c @ sep @ rest) = None)
    \<and> (\<forall>command w. cdPrefixPattern command = Some w \<longrightarrow> cd_shape command w)
    \<and> (\<forall>command. cdPrefixPattern command = None \<longrightarrow> (\<nexists>w. cd_shape command w))"
proof -
  let ?q = "p @ c @ sep @ rest"
  let ?cmd = "a @ ''cd'' @ b @ ?q"
  have q: "?q \<noteq> []" "\<not> re_space (hd ?q)" using assms(4,5) by (cases p; simp)+
  have "ends_command (sep @ rest)" using assms(9) by (auto simp: ends_command_cases)
  then have "tail_shape ?q p" unfolding tail_shape_def using assms(4,5,8) by blast
  then have "cd_shape ?cmd p" using cd_shape_tail [OF assms(1-3) q] by blast
  then obtain w where w: "cdPrefixPattern ?cmd = Some w" "cd_shape ?cmd w"
    using cd_pattern_exact [of ?cmd] by (auto split: option.splits)
  then have pat: "cdPrefixPattern ?cmd = Some p"
    using only_target [OF assms(4-11)] cd_shape_tail [OF assms(1-3) q] by blast
  have "extractCdPath home ?cmd = Some p" if "hd p = CHR ''/''" "last p \<notin> {CHR 0x22, CHR 0x27}"
  proof -
    have "strings_Trim p [CHR 0x22, CHR 0x27] = p" by (rule Trim_id) (use that assms(4) in auto)
    moreover define r where "r = tl p"
    have slash: "p = CHR ''/'' # r" using list.collapse [OF assms(4)] unfolding r_def that(1) by (rule sym)
    have "strings_HasPrefix p ''/''" "\<not> strings_HasPrefix p ''~/''" "p \<noteq> ''~''"
      unfolding slash by (simp_all add: strings_HasPrefix_def)
    ultimately show ?thesis unfolding extractCdPath_def pat by (simp add: Let_def expandHome_def)
  qed
  moreover have "extractCdPath home ?cmd = None" if h: "hd p \<notin> {CHR ''/'', CHR ''~'', CHR 0x22, CHR 0x27}"
  proof -
    obtain x r where p: "p = x # r" using assms(4) by (cases p) auto
    then have x: "x \<notin> {CHR ''/'', CHR ''~'', CHR 0x22, CHR 0x27}" using h by simp
    have "\<exists>t. strings_Trim p [CHR 0x22, CHR 0x27] = x # t"
    proof -
      have "strings_Trim p [CHR 0x22, CHR 0x27] = strings_TrimRight (x # r) [CHR 0x22, CHR 0x27]"
        using x by (simp add: strings_Trim_def p)
      moreover have "dropWhile P (l @ [x]) = dropWhile P l @ [x]" if "\<not> P x" for P l
        using that by (induction l) auto
      ultimately show ?thesis using x by (simp add: strings_TrimRight_def)
    qed
    then show ?thesis unfolding extractCdPath_def pat using x by (auto simp: Let_def strings_HasPrefix_def)
  qed
  moreover have "cdPrefixPattern command = Some w \<Longrightarrow> cd_shape command w"
    "cdPrefixPattern command = None \<Longrightarrow> \<nexists>w. cd_shape command w" for command w
    using cd_pattern_exact [of command] by auto
  ultimately show ?thesis using pat by blast
qed

theorem cd_leading_target_witness:
  "cdPrefixPattern '' cd  /home/me/app; go test'' = Some ''/home/me/app''
   \<and> extractCdPath ''/home/me'' '' cd  /home/me/app; go test'' = Some ''/home/me/app''"
proof -
  have c: "list_all re_space '' ''" "list_all re_space ''  ''" "list_all (\<lambda>x. \<not> re_space x) ''/home/me/app''"
    "\<not> ends_command (dropWhile re_space '' go test'')" by code_simp+
  from cd_leading_target [of "'' ''" "''  ''" "''/home/me/app''" "[]" "'';''" "'' go test''" "''/home/me''"] c
  show ?thesis by (simp add: re_space_def)
qed

text \<open>The greedy group runs into the next command when nothing separates them.\<close>

lemma cd_pattern_exact_witness:
  "cdPrefixPattern ''cd /a;echo;x'' = Some ''/a;echo'' \<and> cd_shape ''cd /a;echo;x'' ''/a;echo''
   \<and> \<not> cd_shape ''cd /a;echo;x'' ''/a;echo;x''"
proof -
  have c: "cdPrefixPattern ''cd /a;echo;x'' = Some ''/a;echo''" by code_simp
  show ?thesis using cd_pattern_exact [of "''cd /a;echo;x''"] unfolding c option.case using c by fastforce
qed

end
