(* ===== verification/Collector_Path.thy ===== *)
theory Collector_Path
  imports Collector_Touched "HOL-Library.AList"
begin

text \<open>
  src/internal/collector/path.go and actor.go: the directory a session is attributed to. A resolver
  threads a state (the world it asks, the cache in front of it); a Go map is an association list
  with one entry for each key, written in any order; a vote count is the number of paths read, an
  \<open>int\<close> far below the bounds of \<open>int64\<close>.
\<close>

section \<open>Resolvers\<close>

definition unknownPath :: string where "unknownPath = ''(unknown)''"

type_synonym 'c GitRootResolver = "string \<Rightarrow> ('c, unit, string) io"

text \<open>The output of \<open>git -C dir rev-parse --show-toplevel\<close>, or its failure, is the argument \<open>git\<close>.\<close>

definition RealGitRootResolver :: "(string \<Rightarrow> string option) \<Rightarrow> 'c GitRootResolver" where
  "RealGitRootResolver git dir c = (case git dir of
     None \<Rightarrow> (Inl (), c) | Some out \<Rightarrow> (Inr (strings_TrimSpace out), c))"

definition ResolveSessionPath :: "string \<Rightarrow> 'c GitRootResolver \<Rightarrow> 'c \<Rightarrow> string \<times> 'c" where
  "ResolveSessionPath cwd resolver c = (case resolver cwd c of
     (Inr rt, c') \<Rightarrow> (if rt \<noteq> [] then rt else cwd, c')
   | (Inl _, c') \<Rightarrow> (cwd, c'))"

fun FirstCwdBearingRow :: "UsageRow list \<Rightarrow> string \<Rightarrow> string option" where
  "FirstCwdBearingRow [] sessionID = None"
| "FirstCwdBearingRow (r # rows) sessionID =
     (if ro_SessionID r \<noteq> sessionID then FirstCwdBearingRow rows sessionID
      else if ro_Cwd r \<noteq> [] then Some (ro_Cwd r)
      else FirstCwdBearingRow rows sessionID)"

definition ActorFromCwd :: "string \<Rightarrow> string" where "ActorFromCwd cwd = cwd"

section \<open>The cache\<close>

type_synonym GitRootCache = "(string \<times> string) list"

definition NewGitRootCache :: GitRootCache where "NewGitRootCache = []"

definition Cache_Seed :: "(string \<times> string) list \<Rightarrow> GitRootCache \<Rightarrow> GitRootCache" where
  "Cache_Seed entries c = foldl (\<lambda>c (dir, rt). AList.update dir rt c) c entries"

text \<open>A copy of the map.\<close>

definition Cache_Snapshot :: "GitRootCache \<Rightarrow> (string \<times> string) list" where
  "Cache_Snapshot c = map (\<lambda>(k, v). (k, v)) c"

definition CachedGitRootResolver :: "'w GitRootResolver \<Rightarrow> ('w \<times> GitRootCache) GitRootResolver" where
  "CachedGitRootResolver resolver dir c = (case c of (w, entries) \<Rightarrow>
     (case map_of entries dir of
        Some rt \<Rightarrow> (Inr rt, (w, entries))
      | None \<Rightarrow> (case resolver dir w of
          (Inl err, w') \<Rightarrow> (Inl err, (w', entries))
        | (Inr rt, w') \<Rightarrow> (Inr rt, (w', AList.update dir rt entries)))))"

section \<open>Votes\<close>

definition hasRealExtension :: "string \<Rightarrow> bool" where
  "hasRealExtension base = (case last_index base (CHR ''.'') of
     Some idx \<Rightarrow> 0 < idx \<and> int idx < int (length base) - 1 | None \<Rightarrow> False)"

definition dirForGitRoot :: "filesystem \<Rightarrow> string \<Rightarrow> string" where
  "dirForGitRoot fs touchedPath = (case os_Stat fs touchedPath of
     Inr info \<Rightarrow> if IsDir info then touchedPath else filepath_Dir touchedPath
   | Inl _ \<Rightarrow> if hasRealExtension (filepath_Base touchedPath) then filepath_Dir touchedPath else touchedPath)"

type_synonym votes = "(string \<times> int) list"

definition bump :: "string \<Rightarrow> int \<Rightarrow> votes \<Rightarrow> votes" where
  "bump rt delta counts =
     AList.update rt ((case map_of counts rt of Some n \<Rightarrow> n | None \<Rightarrow> 0) + delta) counts"

fun tally :: "filesystem \<Rightarrow> string list \<Rightarrow> 'c GitRootResolver \<Rightarrow> votes \<Rightarrow> 'c \<Rightarrow> votes \<times> 'c" where
  "tally fs [] resolver counts c = (counts, c)"
| "tally fs (p # touchedPaths) resolver counts c =
     (if p = [] \<or> isScratchPath p then tally fs touchedPaths resolver counts c
      else let dir = dirForGitRoot fs p in
        (case resolver dir c of
           (Inr rt, c') \<Rightarrow> tally fs touchedPaths resolver (bump (if rt = [] then dir else rt) 1 counts) c'
         | (Inl _, c') \<Rightarrow> tally fs touchedPaths resolver (bump dir 1 counts) c'))"

definition TallyGitRoots :: "filesystem \<Rightarrow> string list \<Rightarrow> 'c GitRootResolver \<Rightarrow> 'c \<Rightarrow> votes \<times> 'c" where
  "TallyGitRoots fs touchedPaths resolver = tally fs touchedPaths resolver []"

definition majority_step :: "string \<times> int \<Rightarrow> string \<times> int \<Rightarrow> string \<times> int" where
  "majority_step a rc = (case a of (rt, best) \<Rightarrow> case rc of (r, c) \<Rightarrow>
     if best < c \<or> (c = best \<and> 0 < c \<and> r < rt) then (r, c) else (rt, best))"

definition MajorityGitRoot :: "votes \<Rightarrow> string option" where
  "MajorityGitRoot counts = (case foldl majority_step ([], 0) counts of
     (rt, best) \<Rightarrow> if 0 < best then Some rt else None)"

definition ResolveSessionPathTouched ::
    "filesystem \<Rightarrow> string list \<Rightarrow> 'c GitRootResolver \<Rightarrow> 'c \<Rightarrow> string option \<times> 'c" where
  "ResolveSessionPathTouched fs touchedPaths resolver c =
     (case TallyGitRoots fs touchedPaths resolver c of (counts, c') \<Rightarrow> (MajorityGitRoot counts, c'))"

definition resolvePathFromVoteCounts ::
    "votes \<Rightarrow> string option \<Rightarrow> 'c GitRootResolver \<Rightarrow> 'c \<Rightarrow> string \<times> 'c" where
  "resolvePathFromVoteCounts voteCounts cwd resolver c = (case MajorityGitRoot voteCounts of
     Some winner \<Rightarrow> (winner, c)
   | None \<Rightarrow> (case cwd of Some d \<Rightarrow> ResolveSessionPath d resolver c | None \<Rightarrow> (unknownPath, c)))"

definition ResolveSessionPathFull ::
    "filesystem \<Rightarrow> string list \<Rightarrow> string option \<Rightarrow> 'c GitRootResolver \<Rightarrow> 'c \<Rightarrow> string \<times> 'c" where
  "ResolveSessionPathFull fs touchedPaths cwd resolver c =
     (case TallyGitRoots fs touchedPaths resolver c of (counts, c') \<Rightarrow>
        resolvePathFromVoteCounts counts cwd resolver c')"

section \<open>Counts as functions\<close>

definition count_of :: "votes \<Rightarrow> string \<Rightarrow> int" where
  "count_of counts r = (case map_of counts r of Some n \<Rightarrow> n | None \<Rightarrow> 0)"

lemma count_of_bump: "count_of (bump r d counts) q = count_of counts q + (if q = r then d else 0)"
  by (simp add: count_of_def bump_def update_conv')

lemma bump_distinct: "distinct (map fst counts) \<Longrightarrow> distinct (map fst (bump r d counts))"
  by (simp add: bump_def distinct_update)

lemma bump_pos:
  "(\<forall>(r, n) \<in> set counts. 0 < n) \<Longrightarrow> 0 < d \<Longrightarrow> distinct (map fst counts) \<Longrightarrow> \<forall>(r, n) \<in> set (bump q d counts). 0 < n"
proof -
  assume pos: "\<forall>(r, n) \<in> set counts. 0 < n" and d: "0 < d" and dist: "distinct (map fst counts)"
  have "0 < n" if "(r, n) \<in> set (bump q d counts)" for r n
  proof -
    have "map_of (bump q d counts) r = Some n" using that dist by (simp add: bump_distinct)
    then have m: "((map_of counts)(q \<mapsto> (case map_of counts q of Some n \<Rightarrow> n | None \<Rightarrow> 0) + d)) r = Some n"
      by (simp add: bump_def update_conv')
    have ge: "0 \<le> (case map_of counts q of Some n \<Rightarrow> n | None \<Rightarrow> 0)"
      using pos by (auto split: option.split dest!: map_of_SomeD)
    show ?thesis
    proof (cases "r = q")
      case True
      with m ge d show ?thesis by simp
    next
      case False
      with m have "map_of counts r = Some n" by simp
      with pos show ?thesis by (auto dest!: map_of_SomeD)
    qed
  qed
  then show ?thesis by blast
qed

section \<open>The majority\<close>

definition wins :: "votes \<Rightarrow> string \<Rightarrow> int \<Rightarrow> bool" where
  "wins counts r c \<longleftrightarrow> (r, c) \<in> set counts \<and> 0 < c \<and> (\<forall>(q, n) \<in> set counts. n < c \<or> n = c \<and> r \<le> q)"

lemma majority_fold:
  "case foldl majority_step ([], 0) counts of (r, c) \<Rightarrow>
     0 \<le> c \<and> (if 0 < c then wins counts r c else \<forall>(q, n) \<in> set counts. n \<le> 0)"
proof (induction counts rule: rev_induct)
  case (snoc x counts)
  obtain r c where f: "foldl majority_step ([], 0) counts = (r, c)" by fastforce
  obtain q n where x: "x = (q, n)" by fastforce
  show ?case
  proof (cases "0 < c")
    case True
    then have w: "wins counts r c" using snoc f by simp
    show ?thesis
    proof (cases "c < n \<or> (n = c \<and> q < r)")
      case True
      then have "majority_step (r, c) (q, n) = (q, n)" using \<open>0 < c\<close> by (auto simp: majority_step_def)
      moreover have "wins (counts @ [(q, n)]) q n" using True w by (fastforce simp: wins_def)
      ultimately show ?thesis using f x True \<open>0 < c\<close> by auto
    next
      case False
      then have "majority_step (r, c) (q, n) = (r, c)" by (auto simp: majority_step_def)
      moreover have "wins (counts @ [(q, n)]) r c" using False w by (auto simp: wins_def)
      ultimately show ?thesis using f x \<open>0 < c\<close> by auto
    qed
  next
    case False
    then have c: "c = 0" and le: "\<forall>(q, n) \<in> set counts. n \<le> 0" using snoc f by auto
    show ?thesis
    proof (cases "0 < n")
      case True
      then have "wins (counts @ [(q, n)]) q n" using le by (fastforce simp: wins_def)
      moreover have "majority_step (r, 0) (q, n) = (q, n)" using True by (simp add: majority_step_def)
      ultimately show ?thesis using f x True c by simp
    next
      case False
      then have "majority_step (r, 0) (q, n) = (r, 0)" by (auto simp: majority_step_def)
      then show ?thesis using f x c le False by auto
    qed
  qed
qed simp

lemma wins_unique: "wins counts r c \<Longrightarrow> wins counts r' c' \<Longrightarrow> r = r' \<and> c = c'"
  unfolding wins_def by (fastforce intro: antisym)

lemma majority_iff: "MajorityGitRoot counts = Some r \<longleftrightarrow> (\<exists>c. wins counts r c)"
proof -
  obtain q c where f: "foldl majority_step ([], 0) counts = (q, c)" by fastforce
  show ?thesis
  proof (cases "0 < c")
    case True
    then have "wins counts q c" using majority_fold [of counts] f by simp
    then show ?thesis using f True wins_unique by (auto simp: MajorityGitRoot_def)
  next
    case False
    then have "\<forall>(q, n) \<in> set counts. n \<le> 0" using majority_fold [of counts] f by simp
    then show ?thesis using f False by (auto simp: MajorityGitRoot_def wins_def)
  qed
qed

text \<open>
  The majority vote is well defined although Go visits a map in random order: in whatever order
  the counts are visited the winner is the root with the most votes, among equals the lexicographically
  least, and there is a winner exactly when some root has a positive count.
\<close>

lemma majority_exact:
  "(\<forall>r. MajorityGitRoot counts = Some r \<longleftrightarrow>
       (\<exists>c. (r, c) \<in> set counts \<and> 0 < c \<and> (\<forall>(q, n) \<in> set counts. n < c \<or> n = c \<and> r \<le> q)))
   \<and> (MajorityGitRoot counts \<noteq> None \<longleftrightarrow> (\<exists>(r, c) \<in> set counts. 0 < c))"
proof -
  obtain q c where f: "foldl majority_step ([], 0) counts = (q, c)" by fastforce
  have "MajorityGitRoot counts \<noteq> None \<longleftrightarrow> (\<exists>(r, c) \<in> set counts. 0 < c)"
    using majority_fold [of counts] f by (fastforce simp: MajorityGitRoot_def wins_def split: if_splits)
  then show ?thesis using majority_iff [of counts] by (simp add: wins_def)
qed

definition sample_votes :: votes where "sample_votes = [(''b'', 2), (''a'', 2), (''c'', 1)]"

lemma majority_exact_witness:
  "MajorityGitRoot sample_votes = Some ''a'' \<and> (\<exists>c. (''a'', c) \<in> set sample_votes \<and> 0 < c)"
proof -
  have m: "MajorityGitRoot sample_votes = Some ''a''" by code_simp
  with majority_exact [of sample_votes] show ?thesis by blast
qed

section \<open>What a resolver promises\<close>

text \<open>A resolver that answers, in every state it may be in, as the function \<open>groot\<close> says.\<close>

locale git_resolver =
  fixes resolver :: "'c GitRootResolver" and groot :: "string \<Rightarrow> string option" and ok :: "'c \<Rightarrow> bool"
  assumes answers: "ok c \<Longrightarrow> resolver d c = (r, c')
    \<Longrightarrow> r = (case groot d of Some x \<Rightarrow> Inr x | None \<Rightarrow> Inl ()) \<and> ok c'"

text \<open>The root a touched path votes for, the votes of a list of paths, the fallback for a cwd.\<close>

definition vote_root :: "filesystem \<Rightarrow> (string \<Rightarrow> string option) \<Rightarrow> string \<Rightarrow> string" where
  "vote_root fs groot p = (let dir = dirForGitRoot fs p in
     case groot dir of Some x \<Rightarrow> if x = [] then dir else x | None \<Rightarrow> dir)"

definition votable :: "string \<Rightarrow> bool" where
  "votable p \<longleftrightarrow> p \<noteq> [] \<and> \<not> isScratchPath p"

definition pure_tally :: "filesystem \<Rightarrow> (string \<Rightarrow> string option) \<Rightarrow> string list \<Rightarrow> votes \<Rightarrow> votes" where
  "pure_tally fs groot ps counts = foldl (\<lambda>cs p. bump (vote_root fs groot p) 1 cs) counts (filter votable ps)"

definition cwd_root :: "(string \<Rightarrow> string option) \<Rightarrow> string \<Rightarrow> string" where
  "cwd_root groot cwd = (case groot cwd of Some x \<Rightarrow> if x = [] then cwd else x | None \<Rightarrow> cwd)"

text \<open>A map that holds only answers of \<open>groot\<close>.\<close>

definition roots_sound :: "(string \<Rightarrow> string option) \<Rightarrow> (string \<times> string) list \<Rightarrow> bool" where
  "roots_sound groot rs \<longleftrightarrow> distinct (map fst rs) \<and> (\<forall>(d, x) \<in> set rs. groot d = Some x)"

lemma set_update_subset: "set (AList.update k v xs) \<subseteq> insert (k, v) (set xs)"
  by (induction xs) auto

lemma roots_sound_update:
  assumes "roots_sound groot rs" "groot d = Some x"
  shows "roots_sound groot (AList.update d x rs)"
  using assms set_update_subset [of d x rs] by (auto simp: roots_sound_def distinct_update)

lemma roots_sound_foldl:
  "roots_sound groot rs \<Longrightarrow> \<forall>(d, x) \<in> set es. groot d = Some x
   \<Longrightarrow> roots_sound groot (foldl (\<lambda>c (dir, rt). AList.update dir rt c) rs es)"
  by (induction es arbitrary: rs) (auto simp: roots_sound_update)

lemma roots_sound_map_of: "roots_sound groot rs \<Longrightarrow> map_of rs d = Some x \<Longrightarrow> groot d = Some x"
  by (auto simp: roots_sound_def dest: map_of_SomeD)

context git_resolver begin

lemma tally_eq:
  "ok c \<Longrightarrow> tally fs ps resolver counts c = (counts', c') \<Longrightarrow> counts' = pure_tally fs groot ps counts \<and> ok c'"
proof (induction ps arbitrary: counts c)
  case Nil
  then show ?case by (simp add: pure_tally_def)
next
  case (Cons p ps)
  show ?case
  proof (cases "votable p")
    case False
    then have "tally fs ps resolver counts c = (counts', c')" using Cons.prems(2) by (auto simp: votable_def)
    from Cons.IH [OF Cons.prems(1) this] False show ?thesis by (simp add: pure_tally_def)
  next
    case True
    obtain r c1 where r: "resolver (dirForGitRoot fs p) c = (r, c1)" by fastforce
    note a = answers [OF Cons.prems(1) r]
    have "tally fs ps resolver (bump (vote_root fs groot p) 1 counts) c1 = (counts', c')"
      using Cons.prems(2) True r a
      by (cases "groot (dirForGitRoot fs p)") (auto simp: votable_def vote_root_def Let_def)
    from Cons.IH [OF conjunct2 [OF a] this] True show ?thesis by (simp add: pure_tally_def)
  qed
qed

lemma TallyGitRoots_eq:
  assumes "ok c" "TallyGitRoots fs ps resolver c = (counts, c')"
  shows "counts = pure_tally fs groot ps [] \<and> ok c'"
  using assms unfolding TallyGitRoots_def by (rule tally_eq)

lemma ResolveSessionPath_eq:
  assumes "ok c" "ResolveSessionPath cwd resolver c = (p, c')"
  shows "p = cwd_root groot cwd \<and> ok c'"
proof -
  obtain r c1 where r: "resolver cwd c = (r, c1)" by fastforce
  from assms(2) r answers [OF assms(1) r] show ?thesis
    by (cases "groot cwd") (auto simp: ResolveSessionPath_def cwd_root_def split: if_splits)
qed

lemma resolvePath_eq:
  assumes "ok c" "resolvePathFromVoteCounts counts cwd resolver c = (p, c')"
  shows "p = (case MajorityGitRoot counts of Some w \<Rightarrow> w
      | None \<Rightarrow> (case cwd of Some d \<Rightarrow> cwd_root groot d | None \<Rightarrow> unknownPath)) \<and> ok c'"
  using assms ResolveSessionPath_eq
  by (auto simp: resolvePathFromVoteCounts_def split: option.splits)

lemma resolver_cached:
  "git_resolver (CachedGitRootResolver resolver) groot (\<lambda>c. ok (fst c) \<and> roots_sound groot (snd c))"
proof
  fix c :: "'c \<times> GitRootCache" and d r c'
  obtain w es where c: "c = (w, es)" by fastforce
  obtain q w' where q: "resolver d w = (q, w')" by fastforce
  assume ok: "ok (fst c) \<and> roots_sound groot (snd c)"
    and run: "CachedGitRootResolver resolver d c = (r, c')"
  then have a: "q = (case groot d of Some x \<Rightarrow> Inr x | None \<Rightarrow> Inl ()) \<and> ok w'"
    using answers [OF _ q] c by simp
  show "r = (case groot d of Some x \<Rightarrow> Inr x | None \<Rightarrow> Inl ()) \<and> ok (fst c') \<and> roots_sound groot (snd c')"
  proof (cases "map_of es d")
    case (Some x)
    then have "groot d = Some x" using ok c roots_sound_map_of by auto
    with Some ok run c show ?thesis by (auto simp: CachedGitRootResolver_def)
  next
    case None
    with ok run c q a show ?thesis
      by (cases "groot d") (auto simp: CachedGitRootResolver_def roots_sound_update)
  qed
qed

end

text \<open>\<open>git\<close> itself, and \<open>git\<close> behind a cache that holds only its answers, are such resolvers.\<close>

definition git_root :: "(string \<Rightarrow> string option) \<Rightarrow> string \<Rightarrow> string option" where
  "git_root git dir = map_option strings_TrimSpace (git dir)"

definition cache_sound :: "(string \<Rightarrow> string option) \<Rightarrow> 'w \<times> GitRootCache \<Rightarrow> bool" where
  "cache_sound git c \<longleftrightarrow> True \<and> roots_sound (git_root git) (snd c)"

interpretation real: git_resolver "RealGitRootResolver git" "git_root git" "\<lambda>_. True" for git
  by unfold_locales (auto simp: RealGitRootResolver_def git_root_def split: option.splits)

interpretation cached: git_resolver "CachedGitRootResolver (RealGitRootResolver git)" "git_root git" "cache_sound git" for git
  unfolding cache_sound_def by (rule real.resolver_cached)

section \<open>Votes of a list of paths\<close>

definition votes_for :: "filesystem \<Rightarrow> (string \<Rightarrow> string option) \<Rightarrow> string list \<Rightarrow> string \<Rightarrow> int" where
  "votes_for fs groot ps r = int (length (filter (\<lambda>p. votable p \<and> vote_root fs groot p = r) ps))"

lemma votes_for_append: "votes_for fs groot (ps @ qs) r = votes_for fs groot ps r + votes_for fs groot qs r"
  by (simp add: votes_for_def)

lemma pure_tally_count: "count_of (pure_tally fs groot ps counts) r = count_of counts r + votes_for fs groot ps r"
proof (induction ps arbitrary: counts)
  case (Cons p ps)
  then show ?case
    by (cases "votable p") (simp_all add: pure_tally_def votes_for_def count_of_bump)
qed (simp add: pure_tally_def votes_for_def)

lemma pure_tally_wf:
  "distinct (map fst counts) \<and> (\<forall>(r, n) \<in> set counts. 0 < n)
   \<Longrightarrow> distinct (map fst (pure_tally fs groot ps counts)) \<and> (\<forall>(r, n) \<in> set (pure_tally fs groot ps counts). 0 < n)"
proof (induction ps arbitrary: counts)
  case (Cons p ps)
  have "distinct (map fst (bump q 1 counts)) \<and> (\<forall>(r, n) \<in> set (bump q 1 counts). 0 < n)" for q
    using Cons.prems bump_distinct bump_pos [of counts 1 q] by auto
  from Cons.IH [OF this] Cons.IH [OF Cons.prems] show ?case
    by (cases "votable p") (simp_all add: pure_tally_def del: foldl_append)
qed (simp add: pure_tally_def)

lemma count_of_mem: "distinct (map fst counts) \<Longrightarrow> (r, n) \<in> set counts \<Longrightarrow> count_of counts r = n"
  by (simp add: count_of_def)

lemma count_of_pos: "0 < count_of counts r \<Longrightarrow> (r, count_of counts r) \<in> set counts"
  by (auto simp: count_of_def split: option.splits dest: map_of_SomeD)

text \<open>The root with the most votes, the least among equals.\<close>

definition leads :: "(string \<Rightarrow> int) \<Rightarrow> string \<Rightarrow> bool" where
  "leads v p \<longleftrightarrow> 0 < v p \<and> (\<forall>q. v q < v p \<or> v q = v p \<and> p \<le> q)"

lemma wins_leads:
  assumes "distinct (map fst counts)"
  shows "wins counts r c \<Longrightarrow> leads (count_of counts) r"
proof -
  assume "wins counts r c"
  then have c: "(r, c) \<in> set counts" "0 < c" "\<forall>(q, n) \<in> set counts. n < c \<or> n = c \<and> r \<le> q"
    by (auto simp: wins_def)
  then have e: "count_of counts r = c" using count_of_mem [OF assms] by blast
  have "count_of counts q < c \<or> count_of counts q = c \<and> r \<le> q" for q
  proof (cases "0 < count_of counts q")
    case True
    with c(3) count_of_pos show ?thesis by blast
  next
    case False
    with c(2) show ?thesis by linarith
  qed
  with c(2) e show "leads (count_of counts) r" by (simp add: leads_def)
qed

lemma majority_leads:
  assumes "distinct (map fst counts)"
  shows "if \<exists>r. 0 < count_of counts r
    then \<exists>p. MajorityGitRoot counts = Some p \<and> leads (count_of counts) p else MajorityGitRoot counts = None"
proof (cases "MajorityGitRoot counts")
  case (Some p)
  then obtain c where "wins counts p c" by (auto simp: majority_iff)
  then have l: "leads (count_of counts) p" by (rule wins_leads [OF assms])
  then have "\<exists>r. 0 < count_of counts r" by (auto simp: leads_def)
  with Some l show ?thesis by simp
next
  case None
  then have "\<not> (\<exists>(r, c) \<in> set counts. 0 < c)"
    using majority_fold [of counts] by (auto simp: MajorityGitRoot_def split: prod.splits if_splits)
  then have "\<not> 0 < count_of counts r" for r using count_of_pos [of counts r] by fastforce
  then show ?thesis using None by simp
qed

text \<open>
  C31. A session's path is decided by its touched paths: with a cache that holds only answers of git
  (or none), the full method returns the git root that the most non-scratch touched paths are in
  (a path outside any repository counts for its own directory), the least such root on a tie; with no
  such path, the git root of the session's cwd or the cwd itself; with no cwd, "(unknown)". The cache
  never changes the outcome.
\<close>

theorem session_path_exact:
  assumes "cache_sound git c"
    and "ResolveSessionPathFull fs touched cwd (CachedGitRootResolver (RealGitRootResolver git)) c = (p, c')"
  shows "cache_sound git c'
    \<and> (if \<exists>r. 0 < votes_for fs (git_root git) touched r then leads (votes_for fs (git_root git) touched) p
       else p = (case cwd of Some d \<Rightarrow> cwd_root (git_root git) d | None \<Rightarrow> unknownPath))
    \<and> fst (ResolveSessionPathFull fs touched cwd (RealGitRootResolver git) w) = p"
proof -
  let ?t = "pure_tally fs (git_root git) touched []"
  have cnt: "count_of ?t = votes_for fs (git_root git) touched"
    by (rule ext) (simp add: pure_tally_count, simp add: count_of_def)
  have wf: "distinct (map fst ?t)" using pure_tally_wf [of "[]" fs "git_root git" touched] by simp
  obtain counts c1 where t: "TallyGitRoots fs touched (CachedGitRootResolver (RealGitRootResolver git)) c = (counts, c1)"
    by (rule prod.exhaust)
  note t' = cached.TallyGitRoots_eq [OF assms(1) t]
  have "resolvePathFromVoteCounts counts cwd (CachedGitRootResolver (RealGitRootResolver git)) c1 = (p, c')"
    using assms(2) t by (simp add: ResolveSessionPathFull_def)
  note p = cached.resolvePath_eq [OF conjunct2 [OF t'] this]
  obtain counts2 w1 where t2: "TallyGitRoots fs touched (RealGitRootResolver git) w = (counts2, w1)"
    by (rule prod.exhaust)
  note t2' = real.TallyGitRoots_eq [OF TrueI t2]
  obtain p2 w2 where r2: "resolvePathFromVoteCounts counts2 cwd (RealGitRootResolver git) w1 = (p2, w2)"
    by (rule prod.exhaust)
  have "fst (ResolveSessionPathFull fs touched cwd (RealGitRootResolver git) w) = p"
    using t2 r2 real.resolvePath_eq [OF TrueI r2] t2' t' p by (simp add: ResolveSessionPathFull_def)
  moreover have "if \<exists>r. 0 < votes_for fs (git_root git) touched r then leads (votes_for fs (git_root git) touched) p
       else p = (case cwd of Some d \<Rightarrow> cwd_root (git_root git) d | None \<Rightarrow> unknownPath)"
    using majority_leads [OF wf] p t' unfolding cnt by (auto split: if_splits)
  ultimately show ?thesis using p by blast
qed

definition sample_git :: "string \<Rightarrow> string option" where
  "sample_git d = (if d = ''/w/a'' then Some (''/w/a'' @ [CHR 0x0A]) else None)"

lemma session_path_exact_witness:
  "fst (ResolveSessionPathFull sample_fs [''/w/a/x.go'', ''/tmp/z'', ''/b'', ''/w/a/y.go''] (Some ''/c'')
       (CachedGitRootResolver (RealGitRootResolver sample_git)) ((), [])) = ''/w/a''
   \<and> leads (votes_for sample_fs (git_root sample_git) [''/w/a/x.go'', ''/tmp/z'', ''/b'', ''/w/a/y.go'']) ''/w/a''"
proof -
  let ?t = "[''/w/a/x.go'', ''/tmp/z'', ''/b'', ''/w/a/y.go'']"
  have run: "ResolveSessionPathFull sample_fs ?t (Some ''/c'')
       (CachedGitRootResolver (RealGitRootResolver sample_git)) ((), []) = (''/w/a'', ((), [(''/w/a'', ''/w/a'')]))"
    by code_simp
  have two: "votes_for sample_fs (git_root sample_git) ?t ''/w/a'' = 2" by code_simp
  then have "\<exists>r. 0 < votes_for sample_fs (git_root sample_git) ?t r" by (metis zero_less_numeral)
  with session_path_exact [OF _ run, of "()"] have "leads (votes_for sample_fs (git_root sample_git) ?t) ''/w/a''"
    by (auto simp: cache_sound_def roots_sound_def)
  with run show ?thesis by simp
qed

end
