(* ===== verification/Collector_PathStore.thy ===== *)
theory Collector_PathStore
  imports Collector_Path GoMarshal
begin

text \<open>
  src/internal/collector/pathstore.go: the collector's own SQLite file with the known git roots, the
  votes of each session and how far each transcript has been scanned; and \<open>scanSessionPaths\<close> of
  collector.go on it. Any statement may fail, as the script \<open>pd_faults\<close> says; the column
  resolved_at, which no statement reads, is left out.
\<close>

section \<open>The tables\<close>

record pathdb =
  pd_roots :: "(string \<times> string) list"
  pd_votes :: "((string \<times> string) \<times> int) list"
  pd_progress :: "((string \<times> string) \<times> nat) list"
  pd_faults :: "bool list"

datatype collect_error = OsErr os_error | StoreErr | ParseErr | EncodeErr | PostErr

definition pd_stmt :: "(pathdb, collect_error, 'a) io \<Rightarrow> (pathdb, collect_error, 'a) io" where
  "pd_stmt f s = (case pd_faults s of
     [] \<Rightarrow> f s
   | True # bs \<Rightarrow> (Inl StoreErr, s\<lparr>pd_faults := bs\<rparr>)
   | False # bs \<Rightarrow> f (s\<lparr>pd_faults := bs\<rparr>))"

text \<open>\<open>Begin\<close>, the body, \<open>Commit\<close>; the deferred \<open>Rollback\<close> undoes the body when there was no commit.\<close>

definition pd_restore :: "pathdb \<Rightarrow> pathdb \<Rightarrow> pathdb" where
  "pd_restore s0 s = s0\<lparr>pd_faults := pd_faults s\<rparr>"

definition pd_transaction :: "(pathdb, collect_error, unit) io \<Rightarrow> (pathdb, collect_error, unit) io" where
  "pd_transaction body s = (case pd_stmt (returnR ()) s of
     (Inl err, s0) \<Rightarrow> (Inl err, s0)
   | (Inr _, s0) \<Rightarrow> (case body s0 of
       (Inl err, t) \<Rightarrow> (Inl err, pd_restore s0 t)
     | (Inr _, t) \<Rightarrow> (case pd_stmt (returnR ()) t of
         (Inl err, t') \<Rightarrow> (Inl err, pd_restore s0 t')
       | (Inr _, t') \<Rightarrow> (Inr (), t'))))"

section \<open>Operations\<close>

text \<open>\<open>Ping\<close> and the statement that creates the tables that are missing.\<close>

definition OpenPathStore :: "(pathdb, collect_error, unit) io" where
  "OpenPathStore = bindR (pd_stmt (returnR ())) (\<lambda>_. pd_stmt (returnR ()))"

definition AllGitRoots :: "(pathdb, collect_error, (string \<times> string) list) io" where
  "AllGitRoots = pd_stmt (\<lambda>s. (Inr (pd_roots s), s))"

definition upsert_root_stmt :: "string \<times> string \<Rightarrow> (pathdb, collect_error, unit) io" where
  "upsert_root_stmt dr = pd_stmt (\<lambda>s. (Inr (), s\<lparr>pd_roots := AList.update (fst dr) (snd dr) (pd_roots s)\<rparr>))"

definition SaveGitRoots :: "(string \<times> string) list \<Rightarrow> (pathdb, collect_error, unit) io" where
  "SaveGitRoots snapshot =
     (if snapshot = [] then returnR ()
      else pd_transaction (bindR (pd_stmt (returnR ())) (\<lambda>_. forR upsert_root_stmt snapshot)))"

definition add_vote :: "string \<Rightarrow> string \<times> int \<Rightarrow> ((string \<times> string) \<times> int) list \<Rightarrow> ((string \<times> string) \<times> int) list" where
  "add_vote sessionID rd vs = AList.update (sessionID, fst rd)
     ((case map_of vs (sessionID, fst rd) of Some n \<Rightarrow> n | None \<Rightarrow> 0) + snd rd) vs"

definition add_vote_stmt :: "string \<Rightarrow> string \<times> int \<Rightarrow> (pathdb, collect_error, unit) io" where
  "add_vote_stmt sessionID rd = pd_stmt (\<lambda>s. (Inr (), s\<lparr>pd_votes := add_vote sessionID rd (pd_votes s)\<rparr>))"

definition AddVotes :: "string \<Rightarrow> votes \<Rightarrow> (pathdb, collect_error, unit) io" where
  "AddVotes sessionID deltas =
     (let nonZero = filter (\<lambda>rd. snd rd \<noteq> 0) deltas in
      if nonZero = [] then returnR ()
      else pd_transaction (bindR (pd_stmt (returnR ())) (\<lambda>_. forR (add_vote_stmt sessionID) nonZero)))"

definition votes_of :: "((string \<times> string) \<times> int) list \<Rightarrow> string \<Rightarrow> votes" where
  "votes_of vs sessionID = map (\<lambda>((_, r), n). (r, n)) (filter (\<lambda>((i, _), _). i = sessionID) vs)"

definition VoteCounts :: "string \<Rightarrow> (pathdb, collect_error, votes) io" where
  "VoteCounts sessionID = pd_stmt (\<lambda>s. (Inr (votes_of (pd_votes s) sessionID), s))"

definition offset_of :: "pathdb \<Rightarrow> string \<Rightarrow> string \<Rightarrow> nat" where
  "offset_of s sessionID filePath = (case map_of (pd_progress s) (sessionID, filePath) of Some n \<Rightarrow> n | None \<Rightarrow> 0)"

definition ScanOffset :: "string \<Rightarrow> string \<Rightarrow> (pathdb, collect_error, nat) io" where
  "ScanOffset sessionID filePath = pd_stmt (\<lambda>s. (Inr (offset_of s sessionID filePath), s))"

definition SetScanOffset :: "string \<Rightarrow> string \<Rightarrow> nat \<Rightarrow> (pathdb, collect_error, unit) io" where
  "SetScanOffset sessionID filePath offset =
     pd_stmt (\<lambda>s. (Inr (), s\<lparr>pd_progress := AList.update (sessionID, filePath) offset (pd_progress s)\<rparr>))"

section \<open>scanSessionPaths\<close>

text \<open>The state: the tables and what the resolver threads (its world and the cache).\<close>

definition on_db :: "(pathdb, collect_error, 'a) io \<Rightarrow> (pathdb \<times> 'c, collect_error, 'a) io" where
  "on_db m s = (case m (fst s) of (r, db) \<Rightarrow> (r, (db, snd s)))"

definition count_new_lines ::
    "string \<Rightarrow> filesystem \<Rightarrow> 'c GitRootResolver \<Rightarrow> string \<Rightarrow> string list \<Rightarrow> (pathdb \<times> 'c, collect_error, unit) io"
where
  "count_new_lines home fs resolver sessionID newLines s =
     (if newLines = [] then (Inr (), s)
      else let touched = ExtractTouchedPaths home newLines in
        if touched = [] then (Inr (), s)
        else (case TallyGitRoots fs touched resolver (snd s) of (votes, c) \<Rightarrow>
          if votes = [] then (Inr (), (fst s, c)) else on_db (AddVotes sessionID votes) (fst s, c)))"

definition scan_file ::
    "string \<Rightarrow> filesystem \<Rightarrow> 'c GitRootResolver \<Rightarrow> string \<Rightarrow> (pathdb \<times> 'c, collect_error, unit) io"
where
  "scan_file home fs resolver f = (case ReadTranscriptLines fs f of
     Inl err \<Rightarrow> raiseR (OsErr err)
   | Inr lines \<Rightarrow> (case firstSessionID lines of
       None \<Rightarrow> returnR ()
     | Some sessionID \<Rightarrow>
         bindR (on_db (ScanOffset sessionID f)) (\<lambda>offset.
           let totalLines = length lines;
               startLine = (if totalLines < offset then totalLines else offset)
           in bindR (count_new_lines home fs resolver sessionID (drop startLine lines)) (\<lambda>_.
                on_db (SetScanOffset sessionID f totalLines)))))"

text \<open>The second loop: the path of every session of the rows, the first time it is met.\<close>

fun path_loop ::
    "UsageRow list \<Rightarrow> 'c GitRootResolver \<Rightarrow> UsageRow list \<Rightarrow> (string \<times> string) list
     \<Rightarrow> (pathdb \<times> 'c, collect_error, (string \<times> string) list) io"
where
  "path_loop all resolver [] paths s = (Inr paths, s)"
| "path_loop all resolver (r # rows) paths s =
     (if map_of paths (ro_SessionID r) \<noteq> None then path_loop all resolver rows paths s
      else case on_db (VoteCounts (ro_SessionID r)) s of
        (Inl err, t) \<Rightarrow> (Inl err, t)
      | (Inr voteCounts, t) \<Rightarrow>
          (case resolvePathFromVoteCounts voteCounts (FirstCwdBearingRow all (ro_SessionID r)) resolver (snd t) of
             (p, c) \<Rightarrow> path_loop all resolver rows ((ro_SessionID r, p) # paths) (fst t, c)))"

text \<open>The cache is saved before the second loop; \<open>w\<close> is the world of the resolver.\<close>

definition scanSessionPaths ::
    "string \<Rightarrow> filesystem \<Rightarrow> string list \<Rightarrow> UsageRow list \<Rightarrow> 'w GitRootResolver
     \<Rightarrow> pathdb \<times> 'w \<Rightarrow> (collect_error + (string \<times> string) list) \<times> pathdb \<times> 'w"
where
  "scanSessionPaths home fs files rows gitRootResolver s =
     (case AllGitRoots (fst s) of
        (Inl err, db) \<Rightarrow> (Inl err, (db, snd s))
      | (Inr seed, db) \<Rightarrow>
          let cachedResolver = CachedGitRootResolver gitRootResolver in
          (case forR (scan_file home fs cachedResolver) files (db, (snd s, Cache_Seed seed NewGitRootCache)) of
             (Inl err, (db, w, _)) \<Rightarrow> (Inl err, (db, w))
           | (Inr _, (db, w, cache)) \<Rightarrow>
               (case SaveGitRoots (Cache_Snapshot cache) db of
                  (Inl err, db) \<Rightarrow> (Inl err, (db, w))
                | (Inr _, db) \<Rightarrow>
                    (case path_loop rows cachedResolver rows [] (db, (w, cache)) of
                       (Inl err, (db, w, _)) \<Rightarrow> (Inl err, (db, w))
                     | (Inr paths, (db, w, _)) \<Rightarrow> (Inr paths, (db, w))))))"

section \<open>Statements that succeed\<close>

lemma pd_stmt_ok [simp]: "pd_faults s = [] \<Longrightarrow> pd_stmt f s = f s"
  by (simp add: pd_stmt_def)

lemma pd_transaction_ok:
  "pd_faults s = [] \<Longrightarrow> body s = (Inr (), t) \<Longrightarrow> pd_faults t = [] \<Longrightarrow> pd_transaction body s = (Inr (), t)"
  by (simp add: pd_transaction_def)

lemma forR_roots_ok:
  "pd_faults s = [] \<Longrightarrow> forR upsert_root_stmt drs s
    = (Inr (), s\<lparr>pd_roots := foldl (\<lambda>rs dr. AList.update (fst dr) (snd dr) rs) (pd_roots s) drs\<rparr>)"
  by (induction drs arbitrary: s) (simp_all add: upsert_root_stmt_def)

lemma forR_votes_ok:
  "pd_faults s = [] \<Longrightarrow> forR (add_vote_stmt sid) ds s
    = (Inr (), s\<lparr>pd_votes := foldl (\<lambda>vs rd. add_vote sid rd vs) (pd_votes s) ds\<rparr>)"
  by (induction ds arbitrary: s) (simp_all add: add_vote_stmt_def)

lemma SaveGitRoots_ok:
  assumes "pd_faults s = []"
  shows "SaveGitRoots drs s
    = (Inr (), s\<lparr>pd_roots := foldl (\<lambda>rs dr. AList.update (fst dr) (snd dr) rs) (pd_roots s) drs\<rparr>)"
proof (cases "drs = []")
  case False
  have "bindR (pd_stmt (returnR ())) (\<lambda>_. forR upsert_root_stmt drs) s
      = (Inr (), s\<lparr>pd_roots := foldl (\<lambda>rs dr. AList.update (fst dr) (snd dr) rs) (pd_roots s) drs\<rparr>)"
    using assms by (simp add: bindR_def forR_roots_ok)
  from pd_transaction_ok [where body = "bindR (pd_stmt (returnR ())) (\<lambda>_. forR upsert_root_stmt drs)", OF assms this]
    False assms show ?thesis by (simp add: SaveGitRoots_def)
qed (simp add: SaveGitRoots_def)

lemma AddVotes_ok:
  assumes "pd_faults s = []"
  shows "AddVotes sid ds s = (Inr (), s\<lparr>pd_votes := foldl (\<lambda>vs rd. add_vote sid rd vs) (pd_votes s)
    (filter (\<lambda>rd. snd rd \<noteq> 0) ds)\<rparr>)"
proof (cases "filter (\<lambda>rd. snd rd \<noteq> 0) ds = []")
  case False
  let ?ds = "filter (\<lambda>rd. snd rd \<noteq> 0) ds"
  have "bindR (pd_stmt (returnR ())) (\<lambda>_. forR (add_vote_stmt sid) ?ds) s
      = (Inr (), s\<lparr>pd_votes := foldl (\<lambda>vs rd. add_vote sid rd vs) (pd_votes s) ?ds\<rparr>)"
    using assms by (simp add: bindR_def forR_votes_ok)
  from pd_transaction_ok [where body = "bindR (pd_stmt (returnR ())) (\<lambda>_. forR (add_vote_stmt sid) ?ds)", OF assms this]
    assms show ?thesis
    unfolding AddVotes_def Let_def if_not_P [OF False] by simp
qed (simp add: AddVotes_def)

section \<open>Stored votes and scanned lines\<close>

definition stored :: "((string \<times> string) \<times> int) list \<Rightarrow> string \<Rightarrow> string \<Rightarrow> int" where
  "stored vs sid r = (case map_of vs (sid, r) of Some n \<Rightarrow> n | None \<Rightarrow> 0)"

definition pathdb_ok :: "pathdb \<Rightarrow> bool" where
  "pathdb_ok s \<longleftrightarrow> distinct (map fst (pd_roots s)) \<and> distinct (map fst (pd_votes s)) \<and> distinct (map fst (pd_progress s))"

definition file_lines :: "filesystem \<Rightarrow> string \<Rightarrow> string list" where
  "file_lines fs f = (case ReadTranscriptLines fs f of Inr ls \<Rightarrow> ls | Inl _ \<Rightarrow> [])"

text \<open>The votes of the lines a session's files have been scanned up to.\<close>

definition part_votes :: "string \<Rightarrow> filesystem \<Rightarrow> (string \<Rightarrow> string option) \<Rightarrow> string \<Rightarrow> string \<Rightarrow> (string \<times> string) \<times> nat \<Rightarrow> int" where
  "part_votes home fs groot sid r e = (if fst (fst e) = sid
     then votes_for fs groot (ExtractTouchedPaths home (take (snd e) (file_lines fs (snd (fst e))))) r else 0)"

definition scanned_votes :: "string \<Rightarrow> filesystem \<Rightarrow> (string \<Rightarrow> string option) \<Rightarrow> pathdb \<Rightarrow> string \<Rightarrow> string \<Rightarrow> int" where
  "scanned_votes home fs groot db sid r = sum_list (map (part_votes home fs groot sid r) (pd_progress db))"

definition votes_exact :: "string \<Rightarrow> filesystem \<Rightarrow> (string \<Rightarrow> string option) \<Rightarrow> pathdb \<Rightarrow> bool" where
  "votes_exact home fs groot db \<longleftrightarrow> (\<forall>sid r. stored (pd_votes db) sid r = scanned_votes home fs groot db sid r)"

lemma stored_add_vote:
  "stored (add_vote sid rd vs) sid' r = stored vs sid' r + (if sid' = sid \<and> r = fst rd then snd rd else 0)"
  by (auto simp: stored_def add_vote_def update_conv' split: option.splits)

lemma stored_add_votes:
  "stored (foldl (\<lambda>vs rd. add_vote sid rd vs) vs ds) sid' r
    = stored vs sid' r + (if sid' = sid then sum_list (map (\<lambda>rd. if fst rd = r then snd rd else 0) ds) else 0)"
  by (induction ds arbitrary: vs) (auto simp: stored_add_vote)

lemma sum_count_of:
  "distinct (map fst ds) \<Longrightarrow> sum_list (map (\<lambda>rd. if fst rd = r then snd rd else 0) (filter (\<lambda>rd. snd rd \<noteq> 0) ds)) = count_of ds r"
proof (induction ds)
  case (Cons x ds)
  have "count_of (x # ds) r = (if fst x = r then snd x else 0) + count_of ds r"
  proof (cases "fst x = r")
    case True
    then have "map_of ds r = None" using Cons.prems by (simp add: map_of_eq_None_iff)
    with True show ?thesis by (cases x) (simp add: count_of_def)
  next
    case False
    then show ?thesis by (cases x) (simp add: count_of_def)
  qed
  with Cons show ?case by auto
qed (simp add: count_of_def)

lemma add_vote_distinct: "distinct (map fst vs) \<Longrightarrow> distinct (map fst (foldl (\<lambda>vs rd. add_vote sid rd vs) vs ds))"
  by (induction ds arbitrary: vs) (simp_all add: add_vote_def distinct_update)

lemma count_votes_of: "distinct (map fst vs) \<Longrightarrow> count_of (votes_of vs sid) r = stored vs sid r"
proof (induction vs)
  case (Cons x vs)
  obtain i q n where x: "x = ((i, q), n)" by (cases x) auto
  with Cons show ?case
    by (auto simp: votes_of_def count_of_def stored_def)
qed (simp add: votes_of_def count_of_def stored_def)

lemma votes_of_distinct: "distinct (map fst vs) \<Longrightarrow> distinct (map fst (votes_of vs sid))"
proof (induction vs)
  case (Cons x vs)
  obtain i q n where x: "x = ((i, q), n)" by (cases x) auto
  with Cons show ?case by (force simp: votes_of_def)
qed (simp add: votes_of_def)

lemma sum_update:
  fixes g :: "'k \<times> 'v \<Rightarrow> int"
  assumes "distinct (map fst xs)"
  shows "sum_list (map g (AList.update k v xs))
    = sum_list (map g xs) - (case map_of xs k of Some w \<Rightarrow> g (k, w) | None \<Rightarrow> 0) + g (k, v)"
  using assms
proof (induction xs)
  case (Cons x xs)
  obtain a b where x: "x = (a, b)" by fastforce
  show ?case
  proof (cases "a = k")
    case True
    then show ?thesis using x by simp
  next
    case False
    then show ?thesis using x Cons by (simp split: option.split)
  qed
qed simp

section \<open>A pass over the files\<close>

definition scan_inv ::
    "string \<Rightarrow> filesystem \<Rightarrow> (string \<Rightarrow> string option) \<Rightarrow> ('c \<Rightarrow> bool) \<Rightarrow> pathdb \<times> 'c \<Rightarrow> bool" where
  "scan_inv home fs groot ok s \<longleftrightarrow> pd_faults (fst s) = [] \<and> pathdb_ok (fst s) \<and> votes_exact home fs groot (fst s) \<and> ok (snd s)"

text \<open>All lines of the file have been scanned.\<close>

definition complete :: "filesystem \<Rightarrow> pathdb \<Rightarrow> string \<Rightarrow> bool" where
  "complete fs db f \<longleftrightarrow> (\<forall>sid. firstSessionID (file_lines fs f) = Some sid
     \<longrightarrow> offset_of db sid f = length (file_lines fs f))"

lemma touched_append: "ExtractTouchedPaths home (as @ bs) = ExtractTouchedPaths home as @ ExtractTouchedPaths home bs"
  by (simp add: ExtractTouchedPaths_def)

context git_resolver begin

lemma count_new_lines_ok:
  assumes "pd_faults (fst s) = []" "ok (snd s)" "count_new_lines home fs resolver sid ls s = (r, t)"
  shows "r = Inr () \<and> ok (snd t) \<and> pd_faults (fst t) = [] \<and> pd_roots (fst t) = pd_roots (fst s)
    \<and> pd_progress (fst t) = pd_progress (fst s)
    \<and> (distinct (map fst (pd_votes (fst s))) \<longrightarrow> distinct (map fst (pd_votes (fst t))))
    \<and> (\<forall>sid' q. stored (pd_votes (fst t)) sid' q = stored (pd_votes (fst s)) sid' q
         + (if sid' = sid then votes_for fs groot (ExtractTouchedPaths home ls) q else 0))"
proof -
  let ?touched = "ExtractTouchedPaths home ls"
  obtain counts c where t: "TallyGitRoots fs ?touched resolver (snd s) = (counts, c)" by (rule prod.exhaust)
  note t' = TallyGitRoots_eq [OF assms(2) t]
  have cnt: "count_of counts q = votes_for fs groot ?touched q" for q
    using t' pure_tally_count [of fs groot ?touched "[]" q] by (simp add: count_of_def)
  have dist: "distinct (map fst counts)" using t' pure_tally_wf [of "[]" fs groot ?touched] by simp
  consider (none) "ls = [] \<or> ?touched = []" | (novotes) "\<not> (ls = [] \<or> ?touched = [])" "counts = []"
    | (votes) "\<not> (ls = [] \<or> ?touched = [])" "counts \<noteq> []" by blast
  then show ?thesis
  proof cases
    case none
    then have e: "?touched = []" by (auto simp: ExtractTouchedPaths_def)
    then have "r = Inr () \<and> t = s" using assms(3) by (simp add: count_new_lines_def split: if_splits)
    then show ?thesis using assms(1,2) unfolding e by (simp add: votes_for_def)
  next
    case novotes
    then have "votes_for fs groot ?touched q = 0" for q using cnt by (simp add: count_of_def)
    moreover have "r = Inr () \<and> t = (fst s, c)" using assms(3) novotes t by (simp add: count_new_lines_def)
    ultimately show ?thesis using assms(1) t' by simp
  next
    case votes
    have "on_db (AddVotes sid counts) (fst s, c) = (r, t)"
      using assms(3) votes t by (simp add: count_new_lines_def)
    then have "r = Inr ()" and tt: "t = ((fst s)\<lparr>pd_votes := foldl (\<lambda>vs rd. add_vote sid rd vs) (pd_votes (fst s))
        (filter (\<lambda>rd. snd rd \<noteq> 0) counts)\<rparr>, c)"
      using assms(1) by (simp_all add: on_db_def AddVotes_ok)
    moreover have "ok c" using t' by blast
    ultimately show ?thesis using assms(1)
      by (simp add: add_vote_distinct stored_add_votes sum_count_of [OF dist] cnt)
  qed
qed

lemma scan_file_ok:
  assumes inv: "scan_inv home fs groot ok s" and run: "scan_file home fs resolver f s = (Inr u, t)"
  shows "scan_inv home fs groot ok t \<and> complete fs (fst t) f \<and> pd_roots (fst t) = pd_roots (fst s)
    \<and> (\<forall>f'. complete fs (fst s) f' \<longrightarrow> complete fs (fst t) f')"
proof -
  have nf: "pd_faults (fst s) = []" and wf: "pathdb_ok (fst s)" and ve: "votes_exact home fs groot (fst s)"
    and okc: "ok (snd s)" using inv by (simp_all add: scan_inv_def)
  obtain ls where ls: "ReadTranscriptLines fs f = Inr ls"
    using run by (auto simp: scan_file_def split: sum.splits)
  then have fl: "file_lines fs f = ls" by (simp add: file_lines_def)
  show ?thesis
  proof (cases "firstSessionID ls")
    case None
    with run ls inv fl show ?thesis by (simp add: scan_file_def complete_def)
  next
    case (Some sid)
    define k where "k = offset_of (fst s) sid f"
    define st where "st = (if length ls < k then length ls else k)"
    obtain q v where q: "count_new_lines home fs resolver sid (drop st ls) s = (q, v)" by (rule prod.exhaust)
    note c = count_new_lines_ok [OF nf okc q]
    have t: "t = ((fst v)\<lparr>pd_progress := AList.update (sid, f) (length ls) (pd_progress (fst v))\<rparr>, snd v)"
      using run ls Some nf q c
      by (simp add: scan_file_def bindR_def on_db_def ScanOffset_def SetScanOffset_def k_def [symmetric] st_def [symmetric] Let_def)
    let ?new = "votes_for fs groot (ExtractTouchedPaths home (drop st ls))"
    have split: "votes_for fs groot (ExtractTouchedPaths home ls) r
        = votes_for fs groot (ExtractTouchedPaths home (take k ls)) r + ?new r" for r
    proof -
      have "take k ls @ drop st ls = ls" by (simp add: st_def)
      then show ?thesis by (metis touched_append votes_for_append)
    qed
    have dp: "distinct (map fst (pd_progress (fst s)))" using wf by (simp add: pathdb_ok_def)
    have old: "(case map_of (pd_progress (fst s)) (sid, f) of Some w \<Rightarrow> part_votes home fs groot i r ((sid, f), w) | None \<Rightarrow> 0)
        = (if i = sid then votes_for fs groot (ExtractTouchedPaths home (take k ls)) r else 0)" for i r
      by (auto simp: part_votes_def k_def offset_of_def fl ExtractTouchedPaths_def votes_for_def split: option.split)
    have "stored (pd_votes (fst t)) i r = scanned_votes home fs groot (fst t) i r" for i r
    proof -
      have "scanned_votes home fs groot (fst t) i r = scanned_votes home fs groot (fst s) i r
          - (if i = sid then votes_for fs groot (ExtractTouchedPaths home (take k ls)) r else 0)
          + (if i = sid then votes_for fs groot (ExtractTouchedPaths home ls) r else 0)"
        unfolding t scanned_votes_def using c sum_update [OF dp, of "part_votes home fs groot i r" "(sid, f)" "length ls"]
        by (simp add: old) (simp add: part_votes_def fl)
      moreover have "stored (pd_votes (fst t)) i r = stored (pd_votes (fst s)) i r + (if i = sid then ?new r else 0)"
        using c t by simp
      moreover have "stored (pd_votes (fst s)) i r = scanned_votes home fs groot (fst s) i r"
        using ve by (simp add: votes_exact_def)
      ultimately show ?thesis using split [of r] by simp
    qed
    then have "votes_exact home fs groot (fst t)" by (simp add: votes_exact_def)
    moreover have "pathdb_ok (fst t)" using wf c t by (simp add: pathdb_ok_def distinct_update)
    moreover have off: "offset_of (fst t) i f' = (if (i, f') = (sid, f) then length ls else offset_of (fst s) i f')" for i f'
      using c t by (simp add: offset_of_def update_conv')
    moreover have "complete fs (fst t) f" using off fl Some by (simp add: complete_def)
    moreover have "complete fs (fst t) f'" if "complete fs (fst s) f'" for f'
      using that off fl by (auto simp: complete_def)
    ultimately show ?thesis using c t by (simp add: scan_inv_def)
  qed
qed

lemma scan_files_ok:
  "scan_inv home fs groot ok s \<Longrightarrow> forR (scan_file home fs resolver) files s = (Inr u, t)
   \<Longrightarrow> scan_inv home fs groot ok t \<and> (\<forall>f \<in> set files. complete fs (fst t) f) \<and> pd_roots (fst t) = pd_roots (fst s)
     \<and> (\<forall>f'. complete fs (fst s) f' \<longrightarrow> complete fs (fst t) f')"
proof (induction files arbitrary: s)
  case (Cons f files)
  obtain q v where q: "scan_file home fs resolver f s = (q, v)" by (rule prod.exhaust)
  with Cons.prems(2) obtain w where w: "q = Inr w" "forR (scan_file home fs resolver) files v = (Inr u, t)"
    by (auto split: sum.splits)
  note a = scan_file_ok [OF Cons.prems(1) q [unfolded w(1)]]
  from Cons.IH [OF conjunct1 [OF a] w(2)] a show ?case by auto
qed simp

lemma path_loop_ok:
  "ok (snd s) \<Longrightarrow> pd_faults (fst s) = [] \<Longrightarrow> \<exists>paths' t. path_loop all resolver rows paths s = (Inr paths', t)
     \<and> fst t = fst s \<and> ok (snd t)
     \<and> (\<forall>sid. map_of paths' sid = (case map_of paths sid of Some p \<Rightarrow> Some p
         | None \<Rightarrow> if sid \<in> ro_SessionID ` set rows
             then Some (case MajorityGitRoot (votes_of (pd_votes (fst s)) sid) of Some w \<Rightarrow> w
               | None \<Rightarrow> (case FirstCwdBearingRow all sid of Some d \<Rightarrow> cwd_root groot d | None \<Rightarrow> unknownPath))
             else None))"
proof (induction rows arbitrary: paths s)
  case Nil
  then show ?case by (auto split: option.splits)
next
  case (Cons r rows)
  let ?sid = "ro_SessionID r"
  define F where "F sid = (case MajorityGitRoot (votes_of (pd_votes (fst s)) sid) of Some w \<Rightarrow> w
    | None \<Rightarrow> (case FirstCwdBearingRow all sid of Some d \<Rightarrow> cwd_root groot d | None \<Rightarrow> unknownPath))" for sid
  show ?case
  proof (cases "map_of paths ?sid")
    case (Some p)
    obtain paths' t where run: "path_loop all resolver rows paths s = (Inr paths', t)" "fst t = fst s" "ok (snd t)"
      and m: "\<And>sid. map_of paths' sid = (case map_of paths sid of Some p \<Rightarrow> Some p
         | None \<Rightarrow> if sid \<in> ro_SessionID ` set rows then Some (F sid) else None)"
      using Cons.IH [OF Cons.prems, of paths, folded F_def] by blast
    from Some run(1) have "path_loop all resolver (r # rows) paths s = (Inr paths', t)" by simp
    with run(2,3) show ?thesis unfolding F_def [symmetric]
      by (intro exI [of _ paths'] exI [of _ t]) (auto simp: m Some split: option.split)
  next
    case None
    obtain p c where p: "resolvePathFromVoteCounts (votes_of (pd_votes (fst s)) ?sid) (FirstCwdBearingRow all ?sid) resolver (snd s) = (p, c)"
      by (rule prod.exhaust)
    note pe = resolvePath_eq [OF Cons.prems(1) p, folded F_def]
    have pF: "p = F ?sid" and okc: "ok c" using pe by (simp_all add: F_def)
    have step: "path_loop all resolver (r # rows) paths s = path_loop all resolver rows ((?sid, p) # paths) (fst s, c)"
      using None Cons.prems(2) p by (simp add: on_db_def VoteCounts_def)
    obtain paths' t where run: "path_loop all resolver rows ((?sid, p) # paths) (fst s, c) = (Inr paths', t)"
        "fst t = fst s" "ok (snd t)"
      and m: "\<And>sid. map_of paths' sid = (case map_of ((?sid, p) # paths) sid of Some p \<Rightarrow> Some p
         | None \<Rightarrow> if sid \<in> ro_SessionID ` set rows then Some (F sid) else None)"
      using Cons.IH [of "(fst s, c)" "(?sid, p) # paths", unfolded fst_conv snd_conv, OF okc Cons.prems(2), folded F_def]
      by blast
    from step run(1) have "path_loop all resolver (r # rows) paths s = (Inr paths', t)" by simp
    with run(2,3) show ?thesis unfolding F_def [symmetric]
      by (intro exI [of _ paths'] exI [of _ t]) (auto simp: m None pF split: option.split)
  qed
qed

end

section \<open>A whole scan\<close>

text \<open>Since the last scan every line scanned then is unchanged and the roots of paths are the same.\<close>

definition grown :: "filesystem \<Rightarrow> filesystem \<Rightarrow> (string \<Rightarrow> string option) \<Rightarrow> pathdb \<Rightarrow> bool" where
  "grown fs0 fs groot db \<longleftrightarrow> vote_root fs groot = vote_root fs0 groot
     \<and> (\<forall>((sid, f), n) \<in> set (pd_progress db). take n (file_lines fs f) = take n (file_lines fs0 f))"

lemma votes_exact_grown: "votes_exact home fs0 groot db \<Longrightarrow> grown fs0 fs groot db \<Longrightarrow> votes_exact home fs groot db"
proof -
  assume ve: "votes_exact home fs0 groot db" and g: "grown fs0 fs groot db"
  have vf: "votes_for fs groot ps r = votes_for fs0 groot ps r" for ps r
    using g by (simp add: votes_for_def grown_def)
  then have "part_votes home fs groot sid r e = part_votes home fs0 groot sid r e" if "e \<in> set (pd_progress db)" for sid r e
  proof -
    obtain i f n where e: "e = ((i, f), n)" by (cases e) auto
    have "take n (file_lines fs f) = take n (file_lines fs0 f)" using g that e by (auto simp: grown_def)
    with vf e show ?thesis by (simp add: part_votes_def)
  qed
  then have "scanned_votes home fs groot db sid r = scanned_votes home fs0 groot db sid r" for sid r
    unfolding scanned_votes_def by (metis (mono_tags, lifting) map_cong)
  with ve show ?thesis by (simp add: votes_exact_def)
qed

lemma seed_sound: "roots_sound groot es \<Longrightarrow> roots_sound groot (Cache_Seed es NewGitRootCache)"
  unfolding Cache_Seed_def NewGitRootCache_def
  by (rule roots_sound_foldl) (auto simp: roots_sound_def)

lemma save_roots_sound:
  assumes "roots_sound groot rs" "roots_sound groot c"
  shows "roots_sound groot (foldl (\<lambda>rs dr. AList.update (fst dr) (snd dr) rs) rs (Cache_Snapshot c))"
proof -
  have "\<forall>(d, x) \<in> set c. groot d = Some x" using assms(2) by (simp add: roots_sound_def)
  with roots_sound_foldl [OF assms(1), of c] show ?thesis by (simp add: Cache_Snapshot_def split_def)
qed

text \<open>
  C32. Scanning is incremental and exact while nothing but whole new lines is added. Suppose no statement of
  the store fails, the store was exact for the files of the last scan, since then every line it had scanned
  is unchanged (transcripts have grown by whole lines only) and every path has the git root it had. Then the
  scan leaves a store in which every vote count is again the number of touched paths on the lines scanned,
  every file is scanned to its end, the saved roots are answers of git, and each session of the rows is
  given the root its files' touched paths favour, or the fallback of its cwd, or "(unknown)". So scanning in
  pieces counts what one scan counts. Without these conditions it does not: votes and offset are saved in
  two transactions, and a last line that was still being written is not read again.
\<close>

theorem scan_votes_exact:
  assumes "pd_faults db = []" "pathdb_ok db" "votes_exact home fs0 (git_root git) db" "grown fs0 fs (git_root git) db"
    and "roots_sound (git_root git) (pd_roots db)"
    and "scanSessionPaths home fs files rows (RealGitRootResolver git) (db, w) = (Inr paths, (db', w'))"
  shows "pathdb_ok db' \<and> votes_exact home fs (git_root git) db' \<and> roots_sound (git_root git) (pd_roots db')
    \<and> (\<forall>f \<in> set files. complete fs db' f)
    \<and> (\<forall>sid \<in> ro_SessionID ` set rows. \<exists>p. map_of paths sid = Some p
         \<and> (if \<exists>r. 0 < scanned_votes home fs (git_root git) db' sid r
             then leads (scanned_votes home fs (git_root git) db' sid) p
             else p = (case FirstCwdBearingRow rows sid of Some d \<Rightarrow> cwd_root (git_root git) d | None \<Rightarrow> unknownPath)))"
proof -
  let ?g = "git_root git" and ?R = "CachedGitRootResolver (RealGitRootResolver git)"
  let ?c0 = "Cache_Seed (pd_roots db) NewGitRootCache"
  obtain q v where q: "forR (scan_file home fs ?R) files (db, (w, ?c0)) = (q, v)" by (rule prod.exhaust)
  obtain d1 w1 c1 where v: "v = (d1, (w1, c1))" by (cases v) auto
  have all: "AllGitRoots db = (Inr (pd_roots db), db)" using assms(1) by (simp add: AllGitRoots_def)
  from assms(6) q v obtain u where u: "q = Inr u"
    by (cases q) (simp_all add: scanSessionPaths_def all Let_def)
  have inv: "scan_inv home fs ?g (cache_sound git) (db, (w, ?c0))"
    using assms(1,2) votes_exact_grown [OF assms(3,4)] seed_sound [OF assms(5)]
    by (simp add: scan_inv_def cache_sound_def)
  note a = cached.scan_files_ok [OF inv q [unfolded u], unfolded v fst_conv snd_conv]
  have nf: "pd_faults d1 = []" "pathdb_ok d1" "votes_exact home fs ?g d1" "roots_sound ?g c1" "pd_roots d1 = pd_roots db"
    using a by (simp_all add: scan_inv_def cache_sound_def)
  define d2 where "d2 = d1\<lparr>pd_roots := foldl (\<lambda>rs dr. AList.update (fst dr) (snd dr) rs) (pd_roots d1) (Cache_Snapshot c1)\<rparr>"
  have save: "SaveGitRoots (Cache_Snapshot c1) d1 = (Inr (), d2)" using SaveGitRoots_ok [OF nf(1)] by (simp add: d2_def)
  have rs: "roots_sound ?g (pd_roots d2)" using save_roots_sound [OF assms(5) nf(4)] by (simp add: d2_def nf(5))
  have nf2: "pd_faults d2 = []" using nf(1) by (simp add: d2_def)
  have "cache_sound git (w1, c1)" using nf(4) by (simp add: cache_sound_def)
  with cached.path_loop_ok [of git "(d2, (w1, c1))" rows rows "[]", unfolded fst_conv snd_conv, OF _ nf2]
  obtain paths2 t where pl: "path_loop rows ?R rows [] (d2, (w1, c1)) = (Inr paths2, t)" "fst t = d2"
    and m: "\<And>sid. sid \<in> ro_SessionID ` set rows \<Longrightarrow> map_of paths2 sid
        = Some (case MajorityGitRoot (votes_of (pd_votes d2) sid) of Some w \<Rightarrow> w
               | None \<Rightarrow> (case FirstCwdBearingRow rows sid of Some d \<Rightarrow> cwd_root ?g d | None \<Rightarrow> unknownPath))"
    by auto
  have res: "paths = paths2" "db' = d2"
    using assms(6) q v u save pl by (cases t; auto simp: scanSessionPaths_def all Let_def)+
  have same: "pd_votes d2 = pd_votes d1" "pd_progress d2 = pd_progress d1" by (simp_all add: d2_def)
  have ve: "votes_exact home fs ?g d2" using nf(3) by (simp add: votes_exact_def scanned_votes_def same)
  have wf: "pathdb_ok d2" using nf(2) rs by (simp add: pathdb_ok_def same roots_sound_def)
  have comp: "\<forall>f \<in> set files. complete fs d2 f" using a by (simp add: complete_def offset_of_def same)
  have "\<exists>p. map_of paths sid = Some p
         \<and> (if \<exists>r. 0 < scanned_votes home fs ?g db' sid r then leads (scanned_votes home fs ?g db' sid) p
             else p = (case FirstCwdBearingRow rows sid of Some d \<Rightarrow> cwd_root ?g d | None \<Rightarrow> unknownPath))"
    if "sid \<in> ro_SessionID ` set rows" for sid
  proof -
    have dv: "distinct (map fst (pd_votes d2))" using wf by (simp add: pathdb_ok_def)
    have cnt: "count_of (votes_of (pd_votes d2) sid) = scanned_votes home fs ?g d2 sid"
      by (rule ext) (use ve count_votes_of [OF dv] in \<open>simp add: votes_exact_def\<close>)
    show ?thesis
      using majority_leads [OF votes_of_distinct [OF dv, of sid]] m [OF that] unfolding cnt res
      by (auto split: if_splits)
  qed
  then show ?thesis using wf ve rs comp unfolding res by blast
qed

definition sample_line :: string where
  "sample_line = json_Marshal (DObj [(''sessionId'', DStr ''s''), (''cwd'', DStr ''/c''),
     (''message'', DObj [(''id'', DStr ''m''), (''usage'', DObj [(''input_tokens'', DInt 1)]),
       (''content'', DArr [DObj [(''type'', DStr ''tool_use''), (''name'', DStr ''Read''),
          (''input'', DObj [(''file_path'', DStr ''/w/a/x.go'')])]])])])"

definition sample_home_with :: "string \<Rightarrow> filesystem" where
  "sample_home_with c = \<lparr>fs_root = DirN True [(''r'', DirN True [(''t.jsonl'', FileN True (sample_line @ [CHR 0x0A]))]),
     (''c.json'', FileN True c)], fs_cwd = []\<rparr>"

abbreviation sample_home :: filesystem where "sample_home \<equiv> sample_home_with []"

definition empty_store :: pathdb where
  "empty_store = \<lparr>pd_roots = [], pd_votes = [], pd_progress = [], pd_faults = []\<rparr>"

lemma one_text: "int_text 1 = ''1''" by code_simp

lemma sample_parse: "json_parse sample_line = Some (JObj [(''sessionId'', JStr ''s''), (''cwd'', JStr ''/c''),
     (''message'', JObj [(''id'', JStr ''m''), (''usage'', JObj [(''input_tokens'', JNum ''1'')]),
       (''content'', JArr [JObj [(''type'', JStr ''tool_use''), (''name'', JStr ''Read''),
          (''input'', JObj [(''file_path'', JStr ''/w/a/x.go'')])]])])])"
  unfolding sample_line_def
  by (subst parse_Marshal)
    (simp_all add: max_depth_def ascii_utf8_valid is_ascii_def quote_body_plain plain_char_def one_text
      del: utf8_valid.simps quote_body.simps)

lemma sample_line_ne: "sample_line \<noteq> []" by code_simp

lemma sample_read: "ReadTranscriptLines (sample_home_with c) ''/r/t.jsonl'' = Inr [sample_line]" by code_simp

lemma sample_sid: "session_of_line sample_line = Some ''s''"
  unfolding session_of_line_def unmarshal_def sample_parse option.simps bind.simps if_not_P [OF sample_line_ne]
  by code_simp

lemma sample_touched: "touched_of_line [] sample_line = [''/w/a/x.go'']"
  unfolding touched_of_line_def message_content_def unmarshal_def sample_parse option.simps bind.simps
    if_not_P [OF sample_line_ne]
  by code_simp

lemma sample_row: "usage_row sample_line = Some \<lparr>ro_MessageID = ''m'', ro_SessionID = ''s'', ro_Cwd = ''/c'',
    ro_Model = [], ro_InputTokens = 1, ro_OutputTokens = 0, ro_CacheReadInputTokens = 0,
    ro_CacheCreationInputTokens = 0, ro_Timestamp = zero_time\<rparr>"
  unfolding usage_row_def parse_record_def unmarshal_def sample_parse option.simps bind.simps
    if_not_P [OF sample_line_ne]
  by code_simp

lemma sample_tally:
  "TallyGitRoots (sample_home_with c) [''/w/a/x.go''] (CachedGitRootResolver (RealGitRootResolver sample_git)) ((), [])
    = ([(''/w/a'', 1)], ((), [(''/w/a'', ''/w/a'')]))"
  by code_simp

lemma sample_scan:
  "scanSessionPaths [] (sample_home_with c) [''/r/t.jsonl''] (ExtractUsageRows [sample_line]) (RealGitRootResolver sample_git)
     (empty_store, ()) = (Inr [(''s'', ''/w/a'')],
       (\<lparr>pd_roots = [(''/w/a'', ''/w/a'')], pd_votes = [((''s'', ''/w/a''), 1)],
         pd_progress = [((''s'', ''/r/t.jsonl''), 1)], pd_faults = []\<rparr>, ()))"
  by (simp add: scanSessionPaths_def AllGitRoots_def empty_store_def Cache_Seed_def NewGitRootCache_def
      scan_file_def sample_read sample_sid bindR_def on_db_def ScanOffset_def offset_of_def Let_def
      count_new_lines_def ExtractTouchedPaths_def sample_touched AddVotes_ok add_vote_def SetScanOffset_def
      Cache_Snapshot_def SaveGitRoots_ok ExtractUsageRows_eq List.map_filter_simps sample_row VoteCounts_def
      votes_of_def resolvePathFromVoteCounts_def MajorityGitRoot_def majority_step_def sample_tally)

lemma scan_votes_exact_witness:
  "scanned_votes [] sample_home (git_root sample_git)
     \<lparr>pd_roots = [(''/w/a'', ''/w/a'')], pd_votes = [((''s'', ''/w/a''), 1)],
       pd_progress = [((''s'', ''/r/t.jsonl''), 1)], pd_faults = []\<rparr> ''s'' ''/w/a'' = 1"
proof -
  have "votes_exact [] sample_home (git_root sample_git) \<lparr>pd_roots = [(''/w/a'', ''/w/a'')],
      pd_votes = [((''s'', ''/w/a''), 1)], pd_progress = [((''s'', ''/r/t.jsonl''), 1)], pd_faults = []\<rparr>"
    using scan_votes_exact [OF _ _ _ _ _ sample_scan [of "[]"]]
    by (simp add: empty_store_def pathdb_ok_def votes_exact_def stored_def scanned_votes_def grown_def roots_sound_def)
  then show ?thesis by (auto simp: votes_exact_def stored_def dest: spec [of _ "''s''"] split: option.splits)
qed

end
