(* ===== verification/Collector_State.thy ===== *)
theory Collector_State
  imports Collector_PathStore
begin

text \<open>
  src/internal/collector/state.go: the message ids an install has sent, in a JSON file. The Go map is a
  list with distinct elements, in the order in which \<open>Save\<close> visits them.
\<close>

type_synonym SentState = "string list"

definition sentStateFile_fields :: "string list field list" where
  "sentStateFile_fields =
     [(''sent_message_ids'', slice_field (\<lambda>v. str_field (\<lambda>x r. x) v []) (\<lambda>ids r. ids))]"

definition LoadSentState :: "filesystem \<Rightarrow> string \<Rightarrow> collect_error + SentState" where
  "LoadSentState fs path = (case os_ReadFile fs path of
     Inl err \<Rightarrow> if err = NotExist then Inr [] else Inl (OsErr err)
   | Inr raw \<Rightarrow> (case unmarshal sentStateFile_fields [] raw of
       None \<Rightarrow> Inl ParseErr
     | Some sentIDs \<Rightarrow> Inr (foldl (\<lambda>ids i. List.insert i ids) [] sentIDs)))"

definition Sent :: "SentState \<Rightarrow> string \<Rightarrow> bool" where
  "Sent st messageID \<longleftrightarrow> messageID \<in> set st"

definition MarkSent :: "string \<Rightarrow> SentState \<Rightarrow> SentState" where
  "MarkSent messageID st = List.insert messageID st"

definition FilterUnsent :: "SentState \<Rightarrow> UsageRow list \<Rightarrow> UsageRow list" where
  "FilterUnsent st rows = filter (\<lambda>r. \<not> Sent st (ro_MessageID r)) rows"

definition state_text :: "SentState \<Rightarrow> string" where
  "state_text st = json_MarshalIndent (DObj [(''sent_message_ids'', DArr (map DStr st))]) @ [CHR 0x0A]"

definition Save :: "filesystem \<Rightarrow> string \<Rightarrow> SentState \<Rightarrow> collect_error + filesystem" where
  "Save fs path st = (case os_WriteFile fs path (state_text st) of
     Inl err \<Rightarrow> Inl (OsErr err) | Inr fs' \<Rightarrow> Inr fs')"

section \<open>What is saved is loaded\<close>

lemma foldl_insert_set: "set (foldl (\<lambda>ids i. List.insert i ids) acc xs) = set acc \<union> set xs"
  by (induction xs arbitrary: acc) auto

lemma those_map_Some: "those (map (\<lambda>x. Some (f x)) xs) = Some (map f xs)"
  by (induction xs) auto

lemma state_text_parse:
  assumes "list_all utf8_valid st"
  shows "unmarshal sentStateFile_fields [] (state_text st) = Some st"
proof -
  have ok: "doc_ok max_depth (DObj [(''sent_message_ids'', DArr (map DStr st))])"
    using assms by (auto simp: max_depth_def list_all_iff is_ascii_def ascii_utf8_valid simp del: utf8_valid.simps)
  have "json_parse (state_text st) = Some (JObj [(''sent_message_ids'', JArr (map (\<lambda>i. JStr (quote_body i)) st))])"
    using parse_MarshalIndent [OF ok, of "[CHR 0x0A]"] by (simp add: state_text_def is_ws_def comp_def)
  moreover have "map (\<lambda>v. str_field (\<lambda>x r. x) v []) (map (\<lambda>i. JStr (quote_body i)) st) = map Some st"
    using assms by (simp add: str_field_def unquote_quote_body list_all_iff)
  then have "those (map (\<lambda>v. str_field (\<lambda>x r. x) v []) (map (\<lambda>i. JStr (quote_body i)) st)) = Some st"
    using those_map_Some [of id st] by (simp only: id_apply list.map_id)
  ultimately show ?thesis
    by (simp add: unmarshal_def decode_struct_def sentStateFile_fields_def slice_field_def del: map_map)
qed

text \<open>The ids a state file holds, as \<open>LoadSentState\<close> reads it.\<close>

definition sent_ids :: "filesystem \<Rightarrow> string \<Rightarrow> string set" where
  "sent_ids fs path = (case LoadSentState fs path of Inr st \<Rightarrow> set st | Inl _ \<Rightarrow> {})"

lemma decode_state_valid:
  assumes "unmarshal sentStateFile_fields [] raw = Some ids"
  shows "list_all utf8_valid ids"
proof -
  have dec: "list_all utf8_valid r'" if "decode_members sentStateFile_fields ps r = Some r'" "list_all utf8_valid r" for ps r r'
    using that
  proof (induction ps arbitrary: r)
    case (Cons p ps)
    obtain k v where p: "p = (k, v)" by fastforce
    have elem: "utf8_valid x" if "str_field (\<lambda>x r. x) v [] = Some x" for v x
      using that by (auto simp: str_field_def unquote_valid split: json.splits option.splits)
    have those: "list_all utf8_valid xs" if "those (map (\<lambda>v. str_field (\<lambda>x r. x) v []) vs) = Some xs" for vs xs
      using that by (induction vs arbitrary: xs) (auto simp: elem split: option.splits)
    show ?case
    proof (cases "foldName ''sent_message_ids'' = foldName k")
      case True
      then obtain r1 where "slice_field (\<lambda>v. str_field (\<lambda>x r. x) v []) (\<lambda>ids r. ids) v r = Some r1"
        "decode_members sentStateFile_fields ps r1 = Some r'"
        using Cons.prems(1) p by (auto simp: sentStateFile_fields_def split: option.splits)
      moreover from this(1) have "list_all utf8_valid r1"
        using those by (auto simp: slice_field_def split: json.splits)
      ultimately show ?thesis using Cons.IH by blast
    next
      case False
      then have "decode_members sentStateFile_fields ps r = Some r'"
        using Cons.prems(1) p by (simp add: sentStateFile_fields_def)
      then show ?thesis using Cons.IH Cons.prems(2) by blast
    qed
  qed simp
  obtain v where "decode_struct sentStateFile_fields v [] = Some ids"
    using assms by (auto simp: unmarshal_def split: Option.bind_splits)
  then show ?thesis using dec by (auto simp: decode_struct_def split: json.splits)
qed

lemma LoadSentState_valid: "LoadSentState fs path = Inr st \<Longrightarrow> list_all utf8_valid st"
  using decode_state_valid
  by (auto simp: LoadSentState_def list_all_iff foldl_insert_set split: sum.splits if_splits option.splits)

lemma Load_Save:
  assumes "Save fs path st = Inr fs'" "list_all utf8_valid st"
  shows "\<exists>st'. LoadSentState fs' path = Inr st' \<and> set st' = set st"
  using assms os_ReadFile_WriteFile state_text_parse [OF assms(2)]
  by (auto simp: Save_def LoadSentState_def foldl_insert_set split: sum.splits)

text \<open>
  C33. The sent-state file loses nothing: after a save that succeeds, loading gives exactly the ids that
  were saved, whatever bytes they are made of as valid UTF-8, so a row is unsent afterwards exactly when
  it was before and was not marked.
\<close>

theorem state_roundtrip:
  assumes "Save fs path (foldl (\<lambda>st i. MarkSent i st) st ids) = Inr fs'" "list_all utf8_valid (ids @ st)"
  shows "\<exists>st'. LoadSentState fs' path = Inr st'
    \<and> (\<forall>i. Sent st' i \<longleftrightarrow> Sent st i \<or> i \<in> set ids)
    \<and> FilterUnsent st' rows = filter (\<lambda>r. ro_MessageID r \<notin> set ids) (FilterUnsent st rows)"
proof -
  have s: "set (foldl (\<lambda>st i. MarkSent i st) st ids) = set st \<union> set ids"
    by (simp add: MarkSent_def foldl_insert_set)
  then have "list_all utf8_valid (foldl (\<lambda>st i. MarkSent i st) st ids)"
    using assms(2) by (auto simp: list_all_iff)
  from Load_Save [OF assms(1) this] s obtain st' where
    "LoadSentState fs' path = Inr st'" "set st' = set st \<union> set ids" by auto
  then show ?thesis by (auto simp: Sent_def FilterUnsent_def intro!: exI [of _ st'] filter_cong)
qed

lemma state_roundtrip_witness:
  "\<exists>fs' st'. Save sample_home ''/r/c.state'' [''m''] = Inr fs' \<and> LoadSentState fs' ''/r/c.state'' = Inr st' \<and> Sent st' ''m''"
proof -
  obtain fs' where s: "os_WriteFile sample_home ''/r/c.state'' (state_text [''m'']) = Inr fs'"
  proof -
    have p: "fs_path sample_home ''/r/c.state'' = [''r'', ''c.state'']" by code_simp
    show ?thesis by (rule that) (simp add: os_WriteFile_def p, simp add: sample_home_with_def)
  qed
  then have "Save sample_home ''/r/c.state'' (foldl (\<lambda>st i. MarkSent i st) [] [''m'']) = Inr fs'"
    by (simp add: Save_def MarkSent_def)
  from state_roundtrip [OF this, of "[]"] s show ?thesis
    by (auto simp: Save_def ascii_utf8_valid is_ascii_def simp del: utf8_valid.simps)
qed

end
