(* ===== verification/Collector_Config.thy ===== *)
theory Collector_Config
  imports Collector_State
begin

text \<open>
  src/internal/collector/config.go: the JSON configuration, its defaults, and the install id that is
  generated once and written back. The fresh UUID is an argument.
\<close>

text \<open>A nil slice is \<open>None\<close>.\<close>

record Collector_Config =
  cf_ScanPaths :: "ScanPath list option"
  cf_InstallID :: string
  cf_Hostname :: string
  cf_CoreURL :: string
  cf_APIKey :: string

definition ScanPath_fields :: "ScanPath field list" where
  "ScanPath_fields =
     [(''name'', str_field (\<lambda>v r. r\<lparr>sp_Name := v\<rparr>)),
      (''path'', str_field (\<lambda>v r. r\<lparr>sp_Path := v\<rparr>)),
      (''source_type'', str_field (\<lambda>v r. r\<lparr>sp_SourceType := v\<rparr>))]"

definition scan_paths_field :: "json \<Rightarrow> Collector_Config \<Rightarrow> Collector_Config option" where
  "scan_paths_field v r = (case v of
     JNull \<Rightarrow> Some (r\<lparr>cf_ScanPaths := None\<rparr>)
   | _ \<Rightarrow> slice_field (\<lambda>v. decode_struct ScanPath_fields v \<lparr>sp_Name = [], sp_Path = [], sp_SourceType = []\<rparr>)
            (\<lambda>sps r. r\<lparr>cf_ScanPaths := Some sps\<rparr>) v r)"

definition Config_fields :: "Collector_Config field list" where
  "Config_fields =
     [(''scan_paths'', scan_paths_field),
      (''install_id'', str_field (\<lambda>v r. r\<lparr>cf_InstallID := v\<rparr>)),
      (''hostname'', str_field (\<lambda>v r. r\<lparr>cf_Hostname := v\<rparr>)),
      (''core_url'', str_field (\<lambda>v r. r\<lparr>cf_CoreURL := v\<rparr>)),
      (''api_key'', str_field (\<lambda>v r. r\<lparr>cf_APIKey := v\<rparr>))]"

definition zero_config :: Collector_Config where
  "zero_config = \<lparr>cf_ScanPaths = None, cf_InstallID = [], cf_Hostname = [], cf_CoreURL = [], cf_APIKey = []\<rparr>"

text \<open>A string member that is left out when it is empty.\<close>

definition omitempty :: "string \<Rightarrow> string \<Rightarrow> (string \<times> jdoc) list" where
  "omitempty name v = (if v = [] then [] else [(name, DStr v)])"

definition ScanPath_doc :: "ScanPath \<Rightarrow> jdoc" where
  "ScanPath_doc sp = DObj ([(''name'', DStr (sp_Name sp)), (''path'', DStr (sp_Path sp))]
     @ omitempty ''source_type'' (sp_SourceType sp))"

definition Config_doc :: "Collector_Config \<Rightarrow> jdoc" where
  "Config_doc cfg = DObj
     ([(''scan_paths'', case cf_ScanPaths cfg of None \<Rightarrow> DNull | Some sps \<Rightarrow> DArr (map ScanPath_doc sps))]
      @ omitempty ''install_id'' (cf_InstallID cfg) @ omitempty ''hostname'' (cf_Hostname cfg)
      @ [(''core_url'', DStr (cf_CoreURL cfg)), (''api_key'', DStr (cf_APIKey cfg))])"

definition writeConfig :: "filesystem \<Rightarrow> string \<Rightarrow> Collector_Config \<Rightarrow> collect_error + filesystem" where
  "writeConfig fs path cfg = (case os_WriteFile fs path (json_MarshalIndent (Config_doc cfg) @ [CHR 0x0A]) of
     Inl err \<Rightarrow> Inl (OsErr err) | Inr fs' \<Rightarrow> Inr fs')"

definition ResolveHostname :: "Collector_Config \<Rightarrow> string option \<Rightarrow> string option" where
  "ResolveHostname cfg osHostname = (if cf_Hostname cfg \<noteq> [] then Some (cf_Hostname cfg) else osHostname)"

definition default_source :: "ScanPath \<Rightarrow> ScanPath" where
  "default_source sp = (if sp_SourceType sp = [] then sp\<lparr>sp_SourceType := DefaultSourceType\<rparr> else sp)"

definition LoadOrInitConfig :: "string \<Rightarrow> string \<Rightarrow> filesystem \<Rightarrow> (collect_error + Collector_Config) \<times> filesystem" where
  "LoadOrInitConfig newID path fs = (case os_ReadFile fs path of
     Inl err \<Rightarrow> (Inl (OsErr err), fs)
   | Inr raw \<Rightarrow> (case unmarshal Config_fields zero_config raw of
       None \<Rightarrow> (Inl ParseErr, fs)
     | Some cfg0 \<Rightarrow>
         let cfg = cfg0\<lparr>cf_ScanPaths := map_option (map default_source) (cf_ScanPaths cfg0)\<rparr> in
         if cf_InstallID cfg \<noteq> [] then (Inr cfg, fs)
         else let cfg' = cfg\<lparr>cf_InstallID := newID\<rparr> in
           (case writeConfig fs path cfg' of
              Inl err \<Rightarrow> (Inl err, fs)
            | Inr fs' \<Rightarrow> (Inr cfg', fs'))))"

section \<open>What is written is loaded\<close>

definition scan_path_ok :: "ScanPath \<Rightarrow> bool" where
  "scan_path_ok sp \<longleftrightarrow> utf8_valid (sp_Name sp) \<and> utf8_valid (sp_Path sp) \<and> utf8_valid (sp_SourceType sp)"

definition config_ok :: "Collector_Config \<Rightarrow> bool" where
  "config_ok cfg \<longleftrightarrow> (case cf_ScanPaths cfg of None \<Rightarrow> True | Some sps \<Rightarrow> list_all scan_path_ok sps)
     \<and> utf8_valid (cf_InstallID cfg) \<and> utf8_valid (cf_Hostname cfg) \<and> utf8_valid (cf_CoreURL cfg) \<and> utf8_valid (cf_APIKey cfg)"

lemma decode_members_inv:
  assumes "\<And>name dec v r r'. (name, dec) \<in> set flds \<Longrightarrow> dec v r = Some r' \<Longrightarrow> P r \<Longrightarrow> P r'"
  shows "decode_members flds ps r = Some r' \<Longrightarrow> P r \<Longrightarrow> P r'"
proof (induction ps arbitrary: r)
  case (Cons p ps)
  obtain k v where p: "p = (k, v)" by fastforce
  show ?case
  proof (cases "find (\<lambda>f. foldName (fst f) = foldName k) flds")
    case None
    with Cons p show ?thesis by simp
  next
    case (Some f)
    then have "f \<in> set flds" by (auto simp: find_Some_iff)
    with Some Cons p assms [of "fst f" "snd f" v r] show ?thesis by (auto split: option.splits)
  qed
qed simp

lemma decode_struct_inv:
  assumes "\<And>name dec v r r'. (name, dec) \<in> set flds \<Longrightarrow> dec v r = Some r' \<Longrightarrow> P r \<Longrightarrow> P r'"
  shows "decode_struct flds v r = Some r' \<Longrightarrow> P r \<Longrightarrow> P r'"
  using decode_members_inv [where P = P, OF assms] by (auto simp: decode_struct_def split: json.splits)

lemma str_field_valid:
  "str_field upd v r = Some r' \<Longrightarrow> r' = r \<or> (\<exists>s. utf8_valid s \<and> r' = upd s r)"
  by (auto simp: str_field_def split: json.splits option.splits dest: unquote_valid)

lemma those_mem: "those (map f xs) = Some ys \<Longrightarrow> y \<in> set ys \<Longrightarrow> \<exists>x \<in> set xs. f x = Some y"
  by (induction xs arbitrary: ys) (auto split: option.splits)

lemma scan_path_valid:
  assumes "decode_struct ScanPath_fields v \<lparr>sp_Name = [], sp_Path = [], sp_SourceType = []\<rparr> = Some sp"
  shows "scan_path_ok sp"
  by (rule decode_struct_inv [where P = scan_path_ok, OF _ assms])
    (auto simp: ScanPath_fields_def scan_path_ok_def dest!: str_field_valid)

lemma zero_config_ok: "config_ok zero_config"
  by (simp add: config_ok_def zero_config_def)

lemma config_valid:
  assumes "decode_struct Config_fields v zero_config = Some cfg"
  shows "config_ok cfg"
proof (rule decode_struct_inv [where P = config_ok, OF _ assms zero_config_ok])
  fix name dec v and r r' :: Collector_Config
  assume m: "(name, dec) \<in> set Config_fields" and d: "dec v r = Some r'" and ok: "config_ok r"
  show "config_ok r'"
  proof (cases "dec = scan_paths_field")
    case True
    with d ok those_mem scan_path_valid show ?thesis
      by (auto simp: scan_paths_field_def slice_field_def config_ok_def list_all_iff split: json.splits)
        (metis those_mem scan_path_valid)
  next
    case False
    then obtain upd where "dec = str_field upd" "upd \<in> {\<lambda>v r. r\<lparr>cf_InstallID := v\<rparr>, \<lambda>v r. r\<lparr>cf_Hostname := v\<rparr>,
        \<lambda>v r. r\<lparr>cf_CoreURL := v\<rparr>, \<lambda>v r. r\<lparr>cf_APIKey := v\<rparr>}"
      using m by (auto simp: Config_fields_def)
    with d ok show ?thesis by (auto simp: config_ok_def dest!: str_field_valid)
  qed
qed

text \<open>The members the writer produces, one by one.\<close>

lemma str_field_quote: "utf8_valid s \<Longrightarrow> str_field upd (JStr (quote_body s)) r = Some (upd s r)"
  by (simp add: str_field_def unquote_quote_body)

lemma config_members:
  "decode_members Config_fields ((''scan_paths'', v) # ps) r = Option.bind (scan_paths_field v r) (decode_members Config_fields ps)"
  "utf8_valid s \<Longrightarrow> decode_members Config_fields ((''install_id'', JStr (quote_body s)) # ps) r
    = decode_members Config_fields ps (r\<lparr>cf_InstallID := s\<rparr>)"
  "utf8_valid s \<Longrightarrow> decode_members Config_fields ((''hostname'', JStr (quote_body s)) # ps) r
    = decode_members Config_fields ps (r\<lparr>cf_Hostname := s\<rparr>)"
  "utf8_valid s \<Longrightarrow> decode_members Config_fields ((''core_url'', JStr (quote_body s)) # ps) r
    = decode_members Config_fields ps (r\<lparr>cf_CoreURL := s\<rparr>)"
  "utf8_valid s \<Longrightarrow> decode_members Config_fields ((''api_key'', JStr (quote_body s)) # ps) r
    = decode_members Config_fields ps (r\<lparr>cf_APIKey := s\<rparr>)"
proof -
  have n: "map foldName [''scan_paths'', ''install_id'', ''hostname'', ''core_url'', ''api_key'']
      = [''SCAN_PATHS'', ''INSTALL_ID'', ''HOSTNAME'', ''CORE_URL'', ''API_KEY'']" by code_simp
  show "decode_members Config_fields ((''scan_paths'', v) # ps) r = Option.bind (scan_paths_field v r) (decode_members Config_fields ps)"
    using n by (simp add: Config_fields_def del: foldName.simps split: option.split)
  show "decode_members Config_fields ((''install_id'', JStr (quote_body s)) # ps) r
    = decode_members Config_fields ps (r\<lparr>cf_InstallID := s\<rparr>)" if "utf8_valid s"
    using n that by (simp add: Config_fields_def str_field_quote del: foldName.simps utf8_valid.simps)
  show "decode_members Config_fields ((''hostname'', JStr (quote_body s)) # ps) r
    = decode_members Config_fields ps (r\<lparr>cf_Hostname := s\<rparr>)" if "utf8_valid s"
    using n that by (simp add: Config_fields_def str_field_quote del: foldName.simps utf8_valid.simps)
  show "decode_members Config_fields ((''core_url'', JStr (quote_body s)) # ps) r
    = decode_members Config_fields ps (r\<lparr>cf_CoreURL := s\<rparr>)" if "utf8_valid s"
    using n that by (simp add: Config_fields_def str_field_quote del: foldName.simps utf8_valid.simps)
  show "decode_members Config_fields ((''api_key'', JStr (quote_body s)) # ps) r
    = decode_members Config_fields ps (r\<lparr>cf_APIKey := s\<rparr>)" if "utf8_valid s"
    using n that by (simp add: Config_fields_def str_field_quote del: foldName.simps utf8_valid.simps)
qed

lemma scan_path_decode:
  assumes "scan_path_ok sp"
  shows "decode_struct ScanPath_fields (doc_value (ScanPath_doc sp)) \<lparr>sp_Name = [], sp_Path = [], sp_SourceType = []\<rparr> = Some sp"
proof -
  have n: "map foldName [''name'', ''path'', ''source_type''] = [''NAME'', ''PATH'', ''SOURCE_TYPE'']" by code_simp
  show ?thesis using n assms
    by (cases sp) (simp add: ScanPath_doc_def omitempty_def decode_struct_def ScanPath_fields_def str_field_quote
        scan_path_ok_def del: foldName.simps utf8_valid.simps)
qed

lemma Config_doc_ok: "config_ok cfg \<Longrightarrow> doc_ok max_depth (Config_doc cfg)"
proof -
  assume ok: "config_ok cfg"
  have k: "utf8_valid ''scan_paths''" "utf8_valid ''install_id''" "utf8_valid ''hostname''" "utf8_valid ''core_url''"
    "utf8_valid ''api_key''" "utf8_valid ''name''" "utf8_valid ''path''" "utf8_valid ''source_type''"
    by (rule ascii_utf8_valid; simp add: is_ascii_def)+
  have "doc_ok 8 (ScanPath_doc sp)" if "scan_path_ok sp" for sp
    using that k by (simp add: ScanPath_doc_def omitempty_def scan_path_ok_def del: utf8_valid.simps)
  then have "doc_ok 10 (Config_doc cfg)"
    using ok k by (auto simp: Config_doc_def omitempty_def config_ok_def list_all_iff simp del: utf8_valid.simps
        split: option.splits)
  then show ?thesis by (rule doc_ok_mono) (simp add: max_depth_def)
qed

lemma config_decode:
  assumes "config_ok cfg"
  shows "unmarshal Config_fields zero_config (json_MarshalIndent (Config_doc cfg) @ [CHR 0x0A]) = Some cfg"
proof -
  have p: "json_parse (json_MarshalIndent (Config_doc cfg) @ [CHR 0x0A]) = Some (doc_value (Config_doc cfg))"
    by (rule parse_MarshalIndent [OF Config_doc_ok [OF assms]]) (simp add: is_ws_def)
  have u: "utf8_valid (cf_InstallID cfg)" "utf8_valid (cf_Hostname cfg)" "utf8_valid (cf_CoreURL cfg)" "utf8_valid (cf_APIKey cfg)"
    using assms by (simp_all add: config_ok_def)
  have sp: "scan_paths_field (case cf_ScanPaths cfg of None \<Rightarrow> JNull | Some sps \<Rightarrow> JArr (map (\<lambda>sp. doc_value (ScanPath_doc sp)) sps)) r
      = Some (r\<lparr>cf_ScanPaths := cf_ScanPaths cfg\<rparr>)" for r
  proof (cases "cf_ScanPaths cfg")
    case (Some sps)
    then have "map (\<lambda>v. decode_struct ScanPath_fields v \<lparr>sp_Name = [], sp_Path = [], sp_SourceType = []\<rparr>)
        (map (\<lambda>sp. doc_value (ScanPath_doc sp)) sps) = map Some sps"
      using assms scan_path_decode by (simp add: config_ok_def list_all_iff)
    then have "those (map (\<lambda>v. decode_struct ScanPath_fields v \<lparr>sp_Name = [], sp_Path = [], sp_SourceType = []\<rparr>)
        (map (\<lambda>sp. doc_value (ScanPath_doc sp)) sps)) = Some sps"
      using those_map_Some [of id sps] by (simp only: id_apply list.map_id)
    then show ?thesis using Some by (simp add: scan_paths_field_def slice_field_def del: map_map)
  qed (simp add: scan_paths_field_def)
  have "decode_struct Config_fields (doc_value (Config_doc cfg)) zero_config = Some cfg"
    using sp u
    by (cases cfg) (simp add: Config_doc_def omitempty_def decode_struct_def config_members zero_config_def comp_def
        option.case_distrib [of doc_value] del: utf8_valid.simps decode_members.simps(2) cong: option.case_cong)
  then show ?thesis by (simp add: unmarshal_def p)
qed

lemma default_source_idem: "map_option (map default_source) (map_option (map default_source) x) = map_option (map default_source) x"
  by (cases x) (auto simp: default_source_def DefaultSourceType_def)

lemma default_source_ok: "scan_path_ok sp \<Longrightarrow> scan_path_ok (default_source sp)"
  by (simp add: scan_path_ok_def default_source_def DefaultSourceType_def ascii_utf8_valid is_ascii_def del: utf8_valid.simps)

text \<open>
  C34. The install id is minted once: after a load that succeeds the configuration has an install id and
  every later load of the file, whatever id it could mint, returns the same configuration and writes
  nothing.
\<close>

theorem install_id_stable:
  assumes "LoadOrInitConfig newID path fs = (Inr cfg, fs')" "newID \<noteq> []" "utf8_valid newID"
  shows "cf_InstallID cfg \<noteq> [] \<and> LoadOrInitConfig otherID path fs' = (Inr cfg, fs')"
proof -
  obtain raw where raw: "os_ReadFile fs path = Inr raw"
    using assms(1) by (cases "os_ReadFile fs path") (simp_all add: LoadOrInitConfig_def)
  obtain cfg0 where cfg0: "unmarshal Config_fields zero_config raw = Some cfg0"
    using assms(1) raw by (cases "unmarshal Config_fields zero_config raw") (simp_all add: LoadOrInitConfig_def)
  define cfg1 where "cfg1 = cfg0\<lparr>cf_ScanPaths := map_option (map default_source) (cf_ScanPaths cfg0)\<rparr>"
  have load: "LoadOrInitConfig i path fs = (if cf_InstallID cfg1 \<noteq> [] then (Inr cfg1, fs)
      else case writeConfig fs path (cfg1\<lparr>cf_InstallID := i\<rparr>) of
        Inl err \<Rightarrow> (Inl err, fs) | Inr fs' \<Rightarrow> (Inr (cfg1\<lparr>cf_InstallID := i\<rparr>), fs'))" for i
    unfolding LoadOrInitConfig_def raw sum.case cfg0 option.case Let_def cfg1_def [symmetric] by (rule refl)
  show ?thesis
  proof (cases "cf_InstallID cfg1 = []")
    case False
    then show ?thesis using assms(1) load [of newID] load [of otherID] by auto
  next
    case True
    define cfg2 where "cfg2 = cfg1\<lparr>cf_InstallID := newID\<rparr>"
    have w: "writeConfig fs path cfg2 = Inr fs'" "cfg = cfg2"
      using assms(1) load [of newID] True by (auto simp: cfg2_def split: sum.splits)
    then have rd: "os_ReadFile fs' path = Inr (json_MarshalIndent (Config_doc cfg2) @ [CHR 0x0A])"
      by (auto simp: writeConfig_def os_ReadFile_WriteFile split: sum.splits)
    have "config_ok cfg0" using cfg0 config_valid by (auto simp: unmarshal_def split: Option.bind_splits)
    then have "config_ok cfg2" using assms(3) default_source_ok
      by (auto simp: cfg2_def cfg1_def config_ok_def list_all_iff split: option.splits)
    then have un: "unmarshal Config_fields zero_config (json_MarshalIndent (Config_doc cfg2) @ [CHR 0x0A]) = Some cfg2"
      by (rule config_decode)
    have same: "cfg2\<lparr>cf_ScanPaths := map_option (map default_source) (cf_ScanPaths cfg2)\<rparr> = cfg2"
      unfolding cfg2_def cfg1_def by (simp add: default_source_idem del: option.map_comp)
    have "cf_InstallID cfg2 = newID" by (simp add: cfg2_def)
    then have "LoadOrInitConfig otherID path fs' = (Inr cfg2, fs')"
      using assms(2) by (simp add: LoadOrInitConfig_def rd un Let_def same)
    then show ?thesis using w(2) assms(2) \<open>cf_InstallID cfg2 = newID\<close> by simp
  qed
qed

definition sample_cfg_home :: filesystem where
  "sample_cfg_home = \<lparr>fs_root = DirN True [(''c.json'', FileN True (json_MarshalIndent (Config_doc
     \<lparr>cf_ScanPaths = Some [\<lparr>sp_Name = ''n'', sp_Path = ''~'', sp_SourceType = []\<rparr>], cf_InstallID = [], cf_Hostname = [],
       cf_CoreURL = ''http://h'', cf_APIKey = ''k''\<rparr>)))], fs_cwd = []\<rparr>"

lemma install_id_stable_witness:
  "\<exists>cfg fs'. LoadOrInitConfig ''u1'' ''/c.json'' sample_cfg_home = (Inr cfg, fs') \<and> cf_InstallID cfg = ''u1''
     \<and> LoadOrInitConfig ''u2'' ''/c.json'' fs' = (Inr cfg, fs')"
proof -
  let ?cfg = "\<lparr>cf_ScanPaths = Some [\<lparr>sp_Name = ''n'', sp_Path = ''~'', sp_SourceType = []\<rparr>], cf_InstallID = [],
    cf_Hostname = [], cf_CoreURL = ''http://h'', cf_APIKey = ''k''\<rparr>"
  have p: "fs_path sample_cfg_home ''/c.json'' = [''c.json'']" by code_simp
  have rd: "os_ReadFile sample_cfg_home ''/c.json'' = Inr (json_MarshalIndent (Config_doc ?cfg))"
    by (simp add: os_ReadFile_def os_Stat_def p) (simp add: sample_cfg_home_def)
  have ok: "config_ok ?cfg"
    by (simp add: config_ok_def scan_path_ok_def ascii_utf8_valid is_ascii_def del: utf8_valid.simps)
  have "json_parse (json_MarshalIndent (Config_doc ?cfg)) = Some (doc_value (Config_doc ?cfg))"
    using parse_MarshalIndent [OF Config_doc_ok [OF ok], of "[]"] by simp
  moreover have "json_parse (json_MarshalIndent (Config_doc ?cfg) @ [CHR 0x0A]) = Some (doc_value (Config_doc ?cfg))"
    by (rule parse_MarshalIndent [OF Config_doc_ok [OF ok]]) (simp add: is_ws_def)
  ultimately have un: "unmarshal Config_fields zero_config (json_MarshalIndent (Config_doc ?cfg)) = Some ?cfg"
    using config_decode [OF ok] by (simp add: unmarshal_def)
  have load: "\<exists>cfg fs'. LoadOrInitConfig ''u1'' ''/c.json'' sample_cfg_home = (Inr cfg, fs') \<and> cf_InstallID cfg = ''u1''"
    by (simp add: LoadOrInitConfig_def rd un Let_def writeConfig_def os_WriteFile_def p)
      (simp add: sample_cfg_home_def)
  then obtain cfg fs' where l: "LoadOrInitConfig ''u1'' ''/c.json'' sample_cfg_home = (Inr cfg, fs')" "cf_InstallID cfg = ''u1''"
    by blast
  from install_id_stable [OF l(1), of "''u2''"] l show ?thesis
    by (auto simp: ascii_utf8_valid is_ascii_def simp del: utf8_valid.simps)
qed

end
