(* ===== verification/Collector_Client.thy ===== *)
theory Collector_Client
  imports Collector_Config Collector_Pricing
begin

text \<open>
  src/internal/collector/client.go: the wire form of a batch and the upload. The HTTP transport is an
  argument: given the URL and the request it returns the status and the body of the response, or
  \<open>None\<close> when building the request, sending it or receiving the answer failed.
\<close>

section \<open>The wire form\<close>

record collector_Event =
  ce_ID :: string
  ce_SessionID :: string
  ce_Actor :: string
  ce_Path :: string
  ce_Machine :: string
  ce_Model :: string
  ce_ScanRoot :: string
  ce_InputTokens :: i64
  ce_OutputTokens :: i64
  ce_CacheReadInputTokens :: i64
  ce_CacheCreationInputTokens :: i64
  ce_Timestamp :: "time \<times> int"

record ScanRootReport =
  rep_Path :: string
  rep_Name :: string
  rep_SourceType :: string

record BatchResult =
  bt_Received :: i64
  bt_Inserted :: i64

record Client =
  cl_baseURL :: string
  cl_apiKey :: string
  cl_installID :: string
  cl_hostname :: string

definition NewClient :: "string \<Rightarrow> string \<Rightarrow> string \<Rightarrow> string \<Rightarrow> Client" where
  "NewClient coreURL apiKey installID hostname =
     \<lparr>cl_baseURL = strings_TrimRight coreURL ''/'', cl_apiKey = apiKey, cl_installID = installID, cl_hostname = hostname\<rparr>"

text \<open>A time that has no RFC 3339 form is a marshalling error.\<close>

definition Event_doc :: "collector_Event \<Rightarrow> jdoc option" where
  "Event_doc e = map_option (\<lambda>ts. DObj
     [(''id'', DStr (ce_ID e)), (''session_id'', DStr (ce_SessionID e)), (''actor'', DStr (ce_Actor e)),
      (''path'', DStr (ce_Path e)), (''machine'', DStr (ce_Machine e)), (''model'', DStr (ce_Model e)),
      (''scan_root'', DStr (ce_ScanRoot e)), (''input_tokens'', DInt (sint (ce_InputTokens e))),
      (''output_tokens'', DInt (sint (ce_OutputTokens e))),
      (''cache_read_input_tokens'', DInt (sint (ce_CacheReadInputTokens e))),
      (''cache_creation_input_tokens'', DInt (sint (ce_CacheCreationInputTokens e))),
      (''timestamp'', DStr ts)]) (format_rfc3339 (ce_Timestamp e))"

definition ScanRootReport_doc :: "ScanRootReport \<Rightarrow> jdoc" where
  "ScanRootReport_doc r = DObj [(''path'', DStr (rep_Path r)), (''name'', DStr (rep_Name r)),
     (''source_type'', DStr (rep_SourceType r))]"

definition batchRequest :: "Client \<Rightarrow> ScanRootReport list \<Rightarrow> collector_Event list \<Rightarrow> jdoc option" where
  "batchRequest c scanRoots events = map_option (\<lambda>es. DObj
     [(''install_id'', DStr (cl_installID c)), (''hostname'', DStr (cl_hostname c)),
      (''scan_roots'', DArr (map ScanRootReport_doc scanRoots)), (''events'', DArr es)])
     (those (map Event_doc events))"

definition BatchResult_fields :: "BatchResult field list" where
  "BatchResult_fields =
     [(''received'', int_field (\<lambda>v r. r\<lparr>bt_Received := v\<rparr>)),
      (''inserted'', int_field (\<lambda>v r. r\<lparr>bt_Inserted := v\<rparr>))]"

section \<open>The upload\<close>

record HttpRequest =
  hr_Method :: string
  hr_Header :: "string \<Rightarrow> string"
  hr_Body :: string

type_synonym 's transport = "string \<Rightarrow> HttpRequest \<Rightarrow> 's \<Rightarrow> (nat \<times> string) option \<times> 's"

definition batch_path :: string where "batch_path = ''/api/v1/usage-events/batch''"

definition PostBatch ::
    "Client \<Rightarrow> 's transport \<Rightarrow> ScanRootReport list \<Rightarrow> collector_Event list \<Rightarrow> ('s, collect_error, BatchResult) io"
where
  "PostBatch c httpDo scanRoots events s =
     (if events = [] then (Inr \<lparr>bt_Received = 0, bt_Inserted = 0\<rparr>, s)
      else case batchRequest c scanRoots events of
        None \<Rightarrow> (Inl EncodeErr, s)
      | Some doc \<Rightarrow>
          let req = \<lparr>hr_Method = ''POST'',
                hr_Header = (\<lambda>_. [])(''Content-Type'' := ''application/json'',
                   ''Authorization'' := ''Bearer '' @ cl_apiKey c),
                hr_Body = json_Marshal doc\<rparr> in
          (case httpDo (cl_baseURL c @ batch_path) req s of
             (None, t) \<Rightarrow> (Inl PostErr, t)
           | (Some (status, body), t) \<Rightarrow>
               if status \<noteq> 201 then (Inl PostErr, t)
               else (case Option.bind (json_first body)
                       (\<lambda>v. decode_struct BatchResult_fields v \<lparr>bt_Received = 0, bt_Inserted = 0\<rparr>) of
                  None \<Rightarrow> (Inl ParseErr, t)
                | Some result \<Rightarrow> (Inr result, t))))"

section \<open>The body is a document\<close>

lemma ascii_keys: "\<forall>k \<in> set [''id'', ''session_id'', ''actor'', ''path'', ''machine'', ''model'', ''scan_root'',
    ''input_tokens'', ''output_tokens'', ''cache_read_input_tokens'', ''cache_creation_input_tokens'', ''timestamp'',
    ''name'', ''source_type'', ''install_id'', ''hostname'', ''scan_roots'', ''events'', ''received'', ''inserted'']. utf8_valid k"
  by (simp add: ascii_utf8_valid is_ascii_def del: utf8_valid.simps)

lemma Event_doc_ok: "Event_doc e = Some d \<Longrightarrow> doc_ok 1 d"
  using ascii_keys by (auto simp: Event_doc_def simp del: utf8_valid.simps)

lemma ScanRootReport_doc_ok: "doc_ok 1 (ScanRootReport_doc r)"
  using ascii_keys by (auto simp: ScanRootReport_doc_def simp del: utf8_valid.simps)

lemma batchRequest_eq: "batchRequest c rs es = Some d \<longleftrightarrow> (\<exists>ds. those (map Event_doc es) = Some ds
    \<and> d = DObj [(''install_id'', DStr (cl_installID c)), (''hostname'', DStr (cl_hostname c)),
         (''scan_roots'', DArr (map ScanRootReport_doc rs)), (''events'', DArr ds)])"
  by (auto simp: batchRequest_def)

lemma batch_doc_ok: "batchRequest c rs es = Some d \<Longrightarrow> doc_ok max_depth d"
proof -
  assume "batchRequest c rs es = Some d"
  then obtain ds where ds: "those (map Event_doc es) = Some ds" "d = DObj
     [(''install_id'', DStr (cl_installID c)), (''hostname'', DStr (cl_hostname c)),
      (''scan_roots'', DArr (map ScanRootReport_doc rs)), (''events'', DArr ds)]"
    by (auto simp: batchRequest_eq)
  have "doc_ok 1 x" if "x \<in> set ds" for x
    using those_mem [OF ds(1) that] Event_doc_ok by auto
  then have "doc_ok 3 d"
    using ascii_keys ScanRootReport_doc_ok unfolding ds(2) by (auto simp del: utf8_valid.simps)
  then show ?thesis by (rule doc_ok_mono) (simp add: max_depth_def)
qed

end
