(* ===== verification/Collector_Run.thy ===== *)
theory Collector_Run
  imports Collector_Client
begin

text \<open>
  src/internal/collector/collector.go, \<open>Run\<close>: one invocation of the collector, from the transcripts to
  the upload and the sent state, over an uploader that is an interface (\<open>BatchPoster\<close>); its contract is
  a locale. The world a run changes is a record: the files, the path store, what git keeps, and
  the state behind the uploader.
\<close>

section \<open>Rows and events\<close>

definition unknownActor :: string where "unknownActor = ''(unknown)''"

type_synonym 's BatchPoster = "ScanRootReport list \<Rightarrow> collector_Event list \<Rightarrow> ('s, collect_error, BatchResult) io"

record RunResult =
  res_FilesScanned :: nat
  res_TotalRowsFound :: nat
  res_NewRowsFound :: nat
  res_Received :: i64
  res_Inserted :: i64
  res_EstimatedCostUS :: float64

record ('w, 's) world =
  wd_fs :: filesystem
  wd_store :: pathdb
  wd_git :: 'w
  wd_server :: 's

text \<open>The rows of all files, each with the file it was first seen in.\<close>

definition row_id :: "UsageRow \<times> ScannedFile \<Rightarrow> string" where
  "row_id rf = ro_MessageID (fst rf)"

definition add_rows :: "ScannedFile \<Rightarrow> UsageRow list \<Rightarrow> (UsageRow \<times> ScannedFile) list \<Rightarrow> (UsageRow \<times> ScannedFile) list" where
  "add_rows f rows acc = foldl (\<lambda>acc r.
     if ro_MessageID r \<in> row_id ` set acc then acc else acc @ [(r, f)]) acc rows"

fun collect_rows :: "filesystem \<Rightarrow> ScannedFile list \<Rightarrow> (UsageRow \<times> ScannedFile) list
    \<Rightarrow> os_error + (UsageRow \<times> ScannedFile) list" where
  "collect_rows fs [] acc = Inr acc"
| "collect_rows fs (f # files) acc = (case ExtractUsageRowsFromFile fs (sf_Path f) of
     Inl err \<Rightarrow> Inl err
   | Inr rows \<Rightarrow> collect_rows fs files (add_rows f rows acc))"

definition actorForSession :: "UsageRow list \<Rightarrow> string \<Rightarrow> string" where
  "actorForSession allRows sessionID = (case FirstCwdBearingRow allRows sessionID of
     Some cwd \<Rightarrow> ActorFromCwd cwd | None \<Rightarrow> unknownActor)"

text \<open>A Go map gives the zero value for a key it does not hold.\<close>

definition scan_file_of :: "(UsageRow \<times> ScannedFile) list \<Rightarrow> string \<Rightarrow> ScannedFile" where
  "scan_file_of found i = (case find (\<lambda>rf. row_id rf = i) found of
     Some rf \<Rightarrow> snd rf | None \<Rightarrow> \<lparr>sf_Path = [], sf_ScanRoot = [], sf_Name = [], sf_SourceType = []\<rparr>)"

definition make_event ::
    "Collector_Config \<Rightarrow> (UsageRow \<times> ScannedFile) list \<Rightarrow> (string \<times> string) list \<Rightarrow> UsageRow \<Rightarrow> collector_Event" where
  "make_event cfg found pathBySession r = \<lparr>ce_ID = ro_MessageID r, ce_SessionID = ro_SessionID r,
     ce_Actor = actorForSession (map fst found) (ro_SessionID r),
     ce_Path = (case map_of pathBySession (ro_SessionID r) of Some p \<Rightarrow> p | None \<Rightarrow> []),
     ce_Machine = cf_InstallID cfg, ce_Model = ro_Model r,
     ce_ScanRoot = sf_ScanRoot (scan_file_of found (ro_MessageID r)),
     ce_InputTokens = ro_InputTokens r, ce_OutputTokens = ro_OutputTokens r,
     ce_CacheReadInputTokens = ro_CacheReadInputTokens r,
     ce_CacheCreationInputTokens = ro_CacheCreationInputTokens r, ce_Timestamp = ro_Timestamp r\<rparr>"

definition add_report :: "(string \<times> ScanRootReport) list \<Rightarrow> ScannedFile \<Rightarrow> (string \<times> ScanRootReport) list" where
  "add_report reps sf = AList.update (sf_ScanRoot sf)
     \<lparr>rep_Path = sf_ScanRoot sf, rep_Name = sf_Name sf, rep_SourceType = sf_SourceType sf\<rparr> reps"

definition scan_reports :: "(UsageRow \<times> ScannedFile) list \<Rightarrow> UsageRow list \<Rightarrow> ScanRootReport list" where
  "scan_reports found newRows = sort_stable (\<lambda>a b. rep_Path a < rep_Path b)
     (map snd (foldl (\<lambda>reps r. add_report reps (scan_file_of found (ro_MessageID r))) [] newRows))"

definition estimate :: "(string \<Rightarrow> string) \<Rightarrow> UsageRow list \<Rightarrow> float64" where
  "estimate uni newRows = foldl (\<lambda>c r. f64_add c (collector_CostForUsage uni (ro_Model r) (ro_InputTokens r)
     (ro_OutputTokens r) (ro_CacheReadInputTokens r) (ro_CacheCreationInputTokens r))) 0 newRows"

section \<open>Run\<close>

text \<open>The upload and the bookkeeping after it: the second half of \<open>Run\<close>.\<close>

definition send_events ::
    "'s BatchPoster \<Rightarrow> string \<Rightarrow> SentState \<Rightarrow> ScanRootReport list \<Rightarrow> collector_Event list \<Rightarrow> RunResult
     \<Rightarrow> ('w, 's) world \<Rightarrow> RunResult \<times> collect_error option \<times> ('w, 's) world"
where
  "send_events poster statePath st scanRoots events result wd =
     (if events = [] then (result, None, wd)
      else case poster scanRoots events (wd_server wd) of
        (Inl err, t) \<Rightarrow> (result, Some err, wd\<lparr>wd_server := t\<rparr>)
      | (Inr batchResult, t) \<Rightarrow>
          let result = result\<lparr>res_Received := bt_Received batchResult, res_Inserted := bt_Inserted batchResult\<rparr>;
              st' = foldl (\<lambda>st e. MarkSent (ce_ID e) st) st events
          in (case Save (wd_fs wd) statePath st' of
                Inl err \<Rightarrow> (result, Some err, wd\<lparr>wd_server := t\<rparr>)
              | Inr fs' \<Rightarrow> (result, None, wd\<lparr>wd_fs := fs', wd_server := t\<rparr>)))"

definition Run ::
    "string \<Rightarrow> (string \<Rightarrow> string) \<Rightarrow> Collector_Config \<Rightarrow> string \<Rightarrow> 'w GitRootResolver \<Rightarrow> 's BatchPoster
     \<Rightarrow> ('w, 's) world \<Rightarrow> RunResult \<times> collect_error option \<times> ('w, 's) world"
where
  "Run home uni cfg statePath gitRootResolver poster wd =
     (let result = \<lparr>res_FilesScanned = 0, res_TotalRowsFound = 0, res_NewRowsFound = 0, res_Received = 0,
            res_Inserted = 0, res_EstimatedCostUS = 0\<rparr> in
      case FindTranscriptFiles home (wd_fs wd) (case cf_ScanPaths cfg of Some sps \<Rightarrow> sps | None \<Rightarrow> []) of
        Inl err \<Rightarrow> (result, Some (OsErr err), wd)
      | Inr files \<Rightarrow>
          let result = result\<lparr>res_FilesScanned := length files\<rparr> in
          (case collect_rows (wd_fs wd) files [] of
             Inl err \<Rightarrow> (result, Some (OsErr err), wd)
           | Inr found \<Rightarrow>
               let allRows = map fst found; result = result\<lparr>res_TotalRowsFound := length allRows\<rparr> in
               (case LoadSentState (wd_fs wd) statePath of
                  Inl err \<Rightarrow> (result, Some err, wd)
                | Inr st \<Rightarrow>
                    let newRows = FilterUnsent st allRows; result = result\<lparr>res_NewRowsFound := length newRows\<rparr> in
                    (case OpenPathStore (wd_store wd) of
                       (Inl err, db) \<Rightarrow> (result, Some err, wd\<lparr>wd_store := db\<rparr>)
                     | (Inr _, db) \<Rightarrow>
                         (case scanSessionPaths home (wd_fs wd) (map sf_Path files) allRows gitRootResolver (db, wd_git wd) of
                            (Inl err, (db, g)) \<Rightarrow> (result, Some err, wd\<lparr>wd_store := db, wd_git := g\<rparr>)
                          | (Inr pathBySession, (db, g)) \<Rightarrow>
                              send_events poster statePath st (scan_reports found newRows)
                                (map (make_event cfg found pathBySession) newRows)
                                (result\<lparr>res_EstimatedCostUS := estimate uni newRows\<rparr>)
                                (wd\<lparr>wd_store := db, wd_git := g\<rparr>))))))"

section \<open>The command\<close>

text \<open>
  src/cmd/collector/main.go. The state file and the path store stand beside the configuration; what the
  operating system answers for the host name is an argument. What the command prints is left out.
\<close>

definition statePathFor :: "string \<Rightarrow> string" where
  "statePathFor configPath = configPath @ ''.state.json''"

definition pathStorePathFor :: "string \<Rightarrow> string" where
  "pathStorePathFor configPath = configPath @ ''.pathstore.db''"

definition collector_run ::
    "string \<Rightarrow> string \<Rightarrow> (string \<Rightarrow> string) \<Rightarrow> string option \<Rightarrow> 'w GitRootResolver \<Rightarrow> 's transport \<Rightarrow> string
     \<Rightarrow> ('w, 's) world \<Rightarrow> (collect_error + RunResult) \<times> ('w, 's) world"
where
  "collector_run home newID uni osHostname gitRootResolver httpDo configPath wd =
     (case LoadOrInitConfig newID configPath (wd_fs wd) of
        (Inl err, fs) \<Rightarrow> (Inl err, wd\<lparr>wd_fs := fs\<rparr>)
      | (Inr cfg, fs) \<Rightarrow>
          let hostname = (case ResolveHostname cfg osHostname of Some h \<Rightarrow> h | None \<Rightarrow> ''unknown-host'');
              client = NewClient (cf_CoreURL cfg) (cf_APIKey cfg) (cf_InstallID cfg) hostname
          in (case Run home uni cfg (statePathFor configPath) gitRootResolver (PostBatch client httpDo) (wd\<lparr>wd_fs := fs\<rparr>) of
                (result, Some err, wd') \<Rightarrow> (Inl err, wd')
              | (result, None, wd') \<Rightarrow> (Inr result, wd')))"

text \<open>The exit status.\<close>

definition collector_main ::
    "string \<Rightarrow> string \<Rightarrow> (string \<Rightarrow> string) \<Rightarrow> string option \<Rightarrow> 'w GitRootResolver \<Rightarrow> 's transport \<Rightarrow> string
     \<Rightarrow> ('w, 's) world \<Rightarrow> nat \<times> ('w, 's) world"
where
  "collector_main home newID uni osHostname gitRootResolver httpDo configPath wd =
     (if configPath = [] then (2, wd)
      else case collector_run home newID uni osHostname gitRootResolver httpDo configPath wd of
        (Inl err, wd') \<Rightarrow> (1, wd') | (Inr result, wd') \<Rightarrow> (0, wd'))"

text \<open>Initialising the configuration leaves every other file alone, the state file among them.\<close>

lemma LoadOrInitConfig_other:
  assumes "LoadOrInitConfig newID path fs = (r, fs')"
  shows "os_ReadFile fs' (statePathFor path) = os_ReadFile fs (statePathFor path)"
proof -
  have p: "fs_path fs (statePathFor path) \<noteq> fs_path fs path"
    unfolding statePathFor_def by (rule fs_path_suffix) simp_all
  have "fs' = fs \<or> (\<exists>c s. os_ReadFile fs path = Inr c \<and> os_WriteFile fs path s = Inr fs')"
    using assms by (auto simp: LoadOrInitConfig_def writeConfig_def Let_def split: sum.splits option.splits if_splits)
  then show ?thesis using os_WriteFile_other [OF _ _ p] by auto
qed

section \<open>The rows of all files\<close>

lemma row_id_pair [simp]: "row_id (r, f) = ro_MessageID r"
  by (simp add: row_id_def)

lemma add_rows_ok:
  "distinct (map row_id acc) \<Longrightarrow> distinct (map row_id (add_rows f rows acc))
   \<and> row_id ` set (add_rows f rows acc) = row_id ` set acc \<union> ro_MessageID ` set rows
   \<and> set (add_rows f rows acc) \<subseteq> set acc \<union> (\<lambda>r. (r, f)) ` set rows"
proof (induction rows arbitrary: acc)
  case (Cons r rows)
  show ?case
  proof (cases "ro_MessageID r \<in> row_id ` set acc")
    case True
    then have "add_rows f (r # rows) acc = add_rows f rows acc" by (simp add: add_rows_def)
    with Cons.IH [OF Cons.prems] True show ?thesis by auto
  next
    case False
    then have step: "add_rows f (r # rows) acc = add_rows f rows (acc @ [(r, f)])" by (simp add: add_rows_def)
    have "distinct (map row_id (acc @ [(r, f)]))" using Cons.prems False by auto
    from Cons.IH [OF this] show ?thesis unfolding step by auto
  qed
qed (simp add: add_rows_def)

text \<open>The rows found: one for each message id in any file, as read from the files.\<close>

lemma collect_rows_ok:
  assumes "collect_rows fs files acc = Inr found" "distinct (map row_id acc)"
  shows "distinct (map row_id found)
    \<and> row_id ` set found = row_id ` set acc
        \<union> (\<Union>f \<in> set files. ro_MessageID ` set (ExtractUsageRows (file_lines fs (sf_Path f))))
    \<and> (\<forall>(r, f) \<in> set found. (r, f) \<in> set acc \<or> f \<in> set files \<and> r \<in> set (ExtractUsageRows (file_lines fs (sf_Path f))))"
  using assms
proof (induction files arbitrary: acc)
  case (Cons f files)
  obtain ls where ls: "ReadTranscriptLines fs (sf_Path f) = Inr ls"
    "collect_rows fs files (add_rows f (ExtractUsageRows ls) acc) = Inr found"
    using Cons.prems(1) by (auto simp: ExtractUsageRowsFromFile_def split: sum.splits)
  have fl: "file_lines fs (sf_Path f) = ls" by (simp add: file_lines_def ls(1))
  note a = add_rows_ok [OF Cons.prems(2), of f "ExtractUsageRows ls"]
  note ih = Cons.IH [OF ls(2) conjunct1 [OF a]]
  have "row_id ` set found = row_id ` set acc
      \<union> (\<Union>f \<in> set (f # files). ro_MessageID ` set (ExtractUsageRows (file_lines fs (sf_Path f))))"
    using a ih by (simp add: fl Un_assoc)
  moreover have "(r, g) \<in> set acc \<or> g \<in> set (f # files) \<and> r \<in> set (ExtractUsageRows (file_lines fs (sf_Path g)))"
    if "(r, g) \<in> set found" for r g
  proof -
    have "(r, g) \<in> set (add_rows f (ExtractUsageRows ls) acc) \<or> g \<in> set files \<and> r \<in> set (ExtractUsageRows (file_lines fs (sf_Path g)))"
      using ih that by blast
    then show ?thesis using a fl by auto
  qed
  ultimately show ?case using ih by blast
qed auto

section \<open>Rows have a wire form\<close>

text \<open>Every string of a row was decoded from JSON, and its time was parsed.\<close>

definition row_ok :: "UsageRow \<Rightarrow> bool" where
  "row_ok r \<longleftrightarrow> utf8_valid (ro_MessageID r) \<and> snd (ro_Timestamp r) mod 60 = 0"

lemma parse_zone: "parse_rfc3339 s = Some w \<Longrightarrow> snd w mod 60 = 0"
proof -
  have z: "q mod 60 = 0" if "get_zone x = Some q" for x q
    using that by (auto simp: get_zone_def split: if_splits list.splits Option.bind_splits)
  assume "parse_rfc3339 s = Some w"
  then show ?thesis
    by (auto simp: parse_rfc3339_def Let_def dest!: z split: Option.bind_splits prod.splits)
qed

definition record_ok :: "rawRecord \<Rightarrow> bool" where
  "record_ok r \<longleftrightarrow> (case rr_Message r of None \<Rightarrow> True | Some msg \<Rightarrow> utf8_valid (rm_ID msg))"

lemma message_valid:
  assumes "decode_struct rawMessage_fields v m = Some m'" "utf8_valid (rm_ID m)"
  shows "utf8_valid (rm_ID m')"
proof (rule decode_struct_inv [where P = "\<lambda>m. utf8_valid (rm_ID m)", OF _ assms])
  fix name dec v and r r' :: rawMessage
  assume "(name, dec) \<in> set rawMessage_fields" "dec v r = Some r'" "utf8_valid (rm_ID r)"
  then show "utf8_valid (rm_ID r')"
    by (auto simp: rawMessage_fields_def ptr_field_def simp del: utf8_valid.simps dest!: str_field_valid split: json.splits)
qed

lemma record_valid:
  assumes "parse_record line = Some r"
  shows "record_ok r"
proof -
  obtain v where v: "decode_struct rawRecord_fields v
     \<lparr>rr_UUID = [], rr_SessionID = [], rr_Cwd = [], rr_Timestamp = [], rr_Message = None\<rparr> = Some r"
    using assms by (auto simp: parse_record_def unmarshal_def split: Option.bind_splits)
  show ?thesis
  proof (rule decode_struct_inv [where P = record_ok, OF _ v])
    fix name dec v and r r' :: rawRecord
    assume m: "(name, dec) \<in> set rawRecord_fields" and d: "dec v r = Some r'" and ok: "record_ok r"
    let ?ptr = "ptr_field (decode_struct rawMessage_fields) \<lparr>rm_ID = [], rm_Model = [], rm_Usage = None\<rparr>
         rr_Message (\<lambda>v r. r\<lparr>rr_Message := v\<rparr>)"
    have ptr: "record_ok r'" if p: "?ptr v r = Some r'"
    proof (cases "v = JNull")
      case True
      with p show ?thesis by (auto simp: ptr_field_def record_ok_def)
    next
      case False
      define m0 where "m0 = (case rr_Message r of None \<Rightarrow> \<lparr>rm_ID = [], rm_Model = [], rm_Usage = None\<rparr> | Some x \<Rightarrow> x)"
      from p False obtain m' where "decode_struct rawMessage_fields v m0 = Some m'" "r' = r\<lparr>rr_Message := Some m'\<rparr>"
        unfolding m0_def by (cases v) (auto simp: ptr_field_def)
      moreover have "utf8_valid (rm_ID m0)" using ok by (auto simp: m0_def record_ok_def split: option.splits)
      ultimately show ?thesis using message_valid by (simp add: record_ok_def)
    qed
    from m d ok ptr show "record_ok r'"
      by (auto simp: rawRecord_fields_def record_ok_def dest!: str_field_valid)
  qed (simp add: record_ok_def)
qed

lemma usage_row_valid: "usage_row line = Some r \<Longrightarrow> row_ok r"
proof -
  assume "usage_row line = Some r"
  then obtain rec msg u where p: "parse_record line = Some rec" "rr_Message rec = Some msg"
    and r: "ro_MessageID r = rm_ID msg"
      "ro_Timestamp r = (case parse_rfc3339 (rr_Timestamp rec) of Some ts \<Rightarrow> ts | None \<Rightarrow> zero_time)"
    by (auto simp: usage_row_def split: if_splits option.splits)
  have "utf8_valid (rm_ID msg)" using record_valid [OF p(1)] p(2) by (simp add: record_ok_def)
  then show ?thesis using parse_zone by (auto simp: row_ok_def r zero_time_def split: option.split)
qed

lemma rows_valid: "r \<in> set (ExtractUsageRows lines) \<Longrightarrow> row_ok r"
proof -
  assume "r \<in> set (ExtractUsageRows lines)"
  then have "r \<in> set (first_by ro_MessageID (List.map_filter usage_row lines))" by (simp only: ExtractUsageRows_eq)
  from subsetD [OF first_by_subset this] show ?thesis by (auto simp: List.map_filter_def usage_row_valid)
qed

section \<open>The contract of an uploader\<close>

text \<open>What the collector relies on: an upload that reports success has left every id with the server,
  and no upload, however it ends, loses an id. The uploads \<open>post d\<close> differ in how the network behaves.\<close>

definition sendable :: "collector_Event list \<Rightarrow> bool" where
  "sendable es \<longleftrightarrow> (\<forall>e \<in> set es. utf8_valid (ce_ID e) \<and> snd (ce_Timestamp e) mod 60 = 0)"

locale batch_poster =
  fixes post :: "'d \<Rightarrow> 's BatchPoster" and stored :: "'s \<Rightarrow> string set" and ok :: "'s \<Rightarrow> bool"
  assumes success: "ok s \<Longrightarrow> sendable es \<Longrightarrow> es \<noteq> [] \<Longrightarrow> post d rs es s = (Inr r, t) \<Longrightarrow> ce_ID ` set es \<subseteq> stored t"
    and keeps: "ok s \<Longrightarrow> sendable es \<Longrightarrow> post d rs es s = (q, t) \<Longrightarrow> ok t \<and> stored s \<subseteq> stored t"

text \<open>The message ids with usage in the transcripts of a configuration.\<close>

definition message_ids :: "string \<Rightarrow> filesystem \<Rightarrow> Collector_Config \<Rightarrow> string set" where
  "message_ids home fs cfg =
     (case FindTranscriptFiles home fs (case cf_ScanPaths cfg of Some sps \<Rightarrow> sps | None \<Rightarrow> []) of
        Inl _ \<Rightarrow> {}
      | Inr files \<Rightarrow> \<Union>f \<in> set files. ro_MessageID ` set (ExtractUsageRows (file_lines fs (sf_Path f))))"

text \<open>The collector and its surroundings: runs with any configuration and any behaviour of the network,
  changes of the other files, removal of the state file, other clients of the server.\<close>

inductive reach ::
    "('d \<Rightarrow> 's BatchPoster) \<Rightarrow> ('s \<Rightarrow> string set) \<Rightarrow> ('s \<Rightarrow> bool) \<Rightarrow> string \<Rightarrow> ('w, 's) world \<Rightarrow> bool"
  for post stored ok statePath where
  fresh: "ok (wd_server wd) \<Longrightarrow> os_ReadFile (wd_fs wd) statePath = Inl NotExist \<Longrightarrow> reach post stored ok statePath wd"
| run: "reach post stored ok statePath wd
    \<Longrightarrow> Run home uni cfg statePath gitRootResolver (post d) wd = (result, err, wd') \<Longrightarrow> reach post stored ok statePath wd'"
| files: "reach post stored ok statePath wd \<Longrightarrow> os_ReadFile fs' statePath = os_ReadFile (wd_fs wd) statePath
      \<or> os_ReadFile fs' statePath = Inl NotExist
    \<Longrightarrow> reach post stored ok statePath (wd\<lparr>wd_fs := fs', wd_store := db', wd_git := g'\<rparr>)"
| server: "reach post stored ok statePath wd \<Longrightarrow> ok t \<Longrightarrow> stored (wd_server wd) \<subseteq> stored t
    \<Longrightarrow> reach post stored ok statePath (wd\<lparr>wd_server := t\<rparr>)"

lemma mark_all_set: "set (foldl (\<lambda>st e. MarkSent (ce_ID e) st) st es) = set st \<union> ce_ID ` set es"
  by (induction es arbitrary: st) (auto simp: MarkSent_def)

lemma make_event_ids: "ce_ID ` set (map (make_event cfg found paths) rs) = ro_MessageID ` set rs"
  by (auto simp: make_event_def image_iff)

lemma found_ok: "collect_rows fs files [] = Inr found \<Longrightarrow> rf \<in> set found \<Longrightarrow> row_ok (fst rf)"
  using collect_rows_ok [of fs files "[]" found] rows_valid by (cases rf) fastforce

text \<open>Up to the upload a run touches neither the files nor the server.\<close>

lemma Run_cases:
  assumes "Run home uni cfg statePath git poster wd = (result, err, wd')"
  obtains (failed) e where "err = Some e" "wd_fs wd' = wd_fs wd" "wd_server wd' = wd_server wd"
  | (sent) st found paths res1 wd1 rs where "LoadSentState (wd_fs wd) statePath = Inr st"
      "row_id ` set found = message_ids home (wd_fs wd) cfg" "\<forall>rf \<in> set found. row_ok (fst rf)"
      "wd_fs wd1 = wd_fs wd" "wd_server wd1 = wd_server wd"
      "send_events poster statePath st rs (map (make_event cfg found paths) (FilterUnsent st (map fst found))) res1 wd1
         = (result, err, wd')"
proof (cases "FindTranscriptFiles home (wd_fs wd) (case cf_ScanPaths cfg of Some sps \<Rightarrow> sps | None \<Rightarrow> [])")
  case (Inl e)
  with assms have "err = Some (OsErr e)" "wd' = wd" by (auto simp: Run_def Let_def)
  then show ?thesis using failed by simp
next
  case files: (Inr files)
  show ?thesis
  proof (cases "collect_rows (wd_fs wd) files []")
    case (Inl e)
    with assms files have "err = Some (OsErr e)" "wd' = wd" by (auto simp: Run_def Let_def)
    then show ?thesis using failed by simp
  next
    case found: (Inr found)
    have ids: "row_id ` set found = message_ids home (wd_fs wd) cfg"
      using collect_rows_ok [OF found] by (simp add: message_ids_def files)
    show ?thesis
    proof (cases "LoadSentState (wd_fs wd) statePath")
      case (Inl e)
      with assms files found have "err = Some e" "wd' = wd" by (auto simp: Run_def Let_def)
      then show ?thesis using failed by simp
    next
      case st: (Inr st)
      obtain q db where op: "OpenPathStore (wd_store wd) = (q, db)" by (rule prod.exhaust)
      obtain p db2 g where sc: "scanSessionPaths home (wd_fs wd) (map sf_Path files) (map fst found) git (db, wd_git wd) = (p, (db2, g))"
        by (metis prod_cases3)
      show ?thesis
      proof (cases q)
        case (Inl e)
        with assms files found st op have "err = Some e" "wd' = wd\<lparr>wd_store := db\<rparr>" by (auto simp: Run_def Let_def)
        then show ?thesis using failed by simp
      next
        case q: (Inr u)
        show ?thesis
        proof (cases p)
          case (Inl e)
          with assms files found st op q sc have "err = Some e" "wd' = wd\<lparr>wd_store := db2, wd_git := g\<rparr>"
            by (auto simp: Run_def Let_def)
          then show ?thesis using failed by simp
        next
          case (Inr paths)
          show ?thesis
            by (rule sent [OF st ids])
              (use assms files found st op q sc Inr found_ok [OF found] in \<open>auto simp: Run_def Let_def\<close>)
        qed
      qed
    qed
  qed
qed

text \<open>What a run does, whatever the network does to it.\<close>

context batch_poster
begin

lemma Run_sound:
  assumes "Run home uni cfg statePath git (post d) wd = (result, err, wd')"
    and ok: "ok (wd_server wd)" and sent: "sent_ids (wd_fs wd) statePath \<subseteq> stored (wd_server wd)"
  shows "ok (wd_server wd') \<and> stored (wd_server wd) \<subseteq> stored (wd_server wd')
    \<and> sent_ids (wd_fs wd') statePath \<subseteq> stored (wd_server wd')
    \<and> (err = None \<longrightarrow> message_ids home (wd_fs wd) cfg \<subseteq> stored (wd_server wd'))"
  using assms(1)
proof (cases rule: Run_cases)
  case failed
  then show ?thesis using ok sent by simp
next
  case (sent st found paths res1 wd1 rs)
  define rows where "rows = FilterUnsent st (map fst found)"
  define es where "es = map (make_event cfg found paths) rows"
  have st: "list_all utf8_valid st" "set st = sent_ids (wd_fs wd) statePath"
    using LoadSentState_valid [OF sent(1)] by (simp_all add: sent_ids_def sent(1))
  have ids: "ce_ID ` set es = message_ids home (wd_fs wd) cfg - set st"
    unfolding es_def make_event_ids rows_def sent(2) [symmetric]
    by (auto simp: FilterUnsent_def Sent_def row_id_def)
  have can: "sendable es"
    using sent(3) by (auto simp: sendable_def es_def rows_def make_event_def FilterUnsent_def row_ok_def)
  note call = sent(6) [folded rows_def, folded es_def]
  show ?thesis
  proof (cases "es = []")
    case True
    then have "wd_fs wd' = wd_fs wd" "wd_server wd' = wd_server wd"
      using call sent(4,5) by (auto simp: send_events_def)
    moreover have "message_ids home (wd_fs wd) cfg \<subseteq> sent_ids (wd_fs wd) statePath" using True ids st(2) by auto
    ultimately show ?thesis using ok \<open>sent_ids _ _ \<subseteq> _\<close> by auto
  next
    case False
    obtain q t where post: "post d rs es (wd_server wd1) = (q, t)" by fastforce
    have keep: "ok t" "stored (wd_server wd) \<subseteq> stored t"
      using keeps [OF _ can, of "wd_server wd" d rs q t] post ok by (simp_all add: sent)
    show ?thesis
    proof (cases q)
      case (Inl e)
      then have "err = Some e" "wd_fs wd' = wd_fs wd" "wd_server wd' = t"
        using call False post sent(4,5) by (auto simp: send_events_def)
      then show ?thesis using keep \<open>sent_ids _ _ \<subseteq> _\<close> by auto
    next
      case (Inr b)
      have new: "ce_ID ` set es \<subseteq> stored t"
        using success [OF _ can False, of "wd_server wd" d rs b t] post Inr ok by (simp add: sent)
      define st' where "st' = foldl (\<lambda>st e. MarkSent (ce_ID e) st) st es"
      have st': "set st' = set st \<union> ce_ID ` set es" by (simp add: st'_def mark_all_set)
      have val: "list_all utf8_valid st'"
        using st(1) can st' by (auto simp: list_all_iff sendable_def)
      show ?thesis
      proof (cases "Save (wd_fs wd) statePath st'")
        case (Inl e)
        then have "err = Some e" "wd_fs wd' = wd_fs wd" "wd_server wd' = t"
          using call False post \<open>q = _\<close> sent(4,5) by (auto simp: send_events_def Let_def st'_def [symmetric])
        then show ?thesis using keep \<open>sent_ids _ _ \<subseteq> _\<close> by auto
      next
        case saved: (Inr fs')
        then have wd': "err = None" "wd_fs wd' = fs'" "wd_server wd' = t"
          using call False post \<open>q = _\<close> by (auto simp: send_events_def sent Let_def st'_def [symmetric])
        obtain st2 where "LoadSentState fs' statePath = Inr st2" "set st2 = set st'"
          using Load_Save [OF saved val] by blast
        then have "sent_ids fs' statePath = set st \<union> ce_ID ` set es" by (simp add: sent_ids_def st')
        moreover have "set st \<subseteq> stored t" using \<open>sent_ids _ _ \<subseteq> _\<close> keep(2) st(2) by blast
        ultimately show ?thesis using keep new ids by (auto simp: wd')
      qed
    qed
  qed
qed

lemma reach_sound:
  "reach post stored ok statePath wd
    \<Longrightarrow> ok (wd_server wd) \<and> sent_ids (wd_fs wd) statePath \<subseteq> stored (wd_server wd)"
proof (induction rule: reach.induct)
  case (run wd home uni cfg git d result err wd')
  then show ?case using Run_sound by blast
next
  case (files wd fs' db' g')
  then show ?case by (auto simp: sent_ids_def LoadSentState_def)
qed (auto simp: sent_ids_def LoadSentState_def)

end

end
