(* ===== verification/Collector_Upload.thy ===== *)
theory Collector_Upload
  imports Collector_Run Public_API
begin

text \<open>
  The collector and the server together: the batch of internal/collector/client.go is what
  internal/transport/publicapi decodes, and the uploader of the collector is the endpoint
  POST /api/v1/usage-events/batch behind a network that may lose a request or a response. This
  interprets the uploader's contract, and with it no message is lost and none is stored twice.
\<close>

section \<open>The wire\<close>

definition wire_event :: "collector_Event \<Rightarrow> UsageEventInput" where
  "wire_event e = \<lparr>ue_Actor = to_utf8 (ce_Actor e), ue_CacheCreationInputTokens = ce_CacheCreationInputTokens e,
     ue_CacheReadInputTokens = ce_CacheReadInputTokens e, ue_Id = to_utf8 (ce_ID e),
     ue_InputTokens = ce_InputTokens e, ue_Machine = to_utf8 (ce_Machine e), ue_Model = to_utf8 (ce_Model e),
     ue_OutputTokens = ce_OutputTokens e, ue_Path = to_utf8 (ce_Path e), ue_ScanRoot = to_utf8 (ce_ScanRoot e),
     ue_SessionId = to_utf8 (ce_SessionID e), ue_Timestamp = ce_Timestamp e\<rparr>"

definition wire_root :: "ScanRootReport \<Rightarrow> UpsertScanRootInput" where
  "wire_root r = \<lparr>usr_Path = to_utf8 (rep_Path r), usr_Name = to_utf8 (rep_Name r),
     usr_SourceType = to_utf8 (rep_SourceType r)\<rparr>"

lemma wire_names: "map foldName [''id'', ''session_id'', ''actor'', ''path'', ''machine'', ''model'', ''scan_root'',
    ''input_tokens'', ''output_tokens'', ''cache_read_input_tokens'', ''cache_creation_input_tokens'', ''timestamp'',
    ''name'', ''source_type'', ''install_id'', ''hostname'', ''scan_roots'', ''events'', ''received'', ''inserted'']
  = [''ID'', ''SESSION_ID'', ''ACTOR'', ''PATH'', ''MACHINE'', ''MODEL'', ''SCAN_ROOT'',
    ''INPUT_TOKENS'', ''OUTPUT_TOKENS'', ''CACHE_READ_INPUT_TOKENS'', ''CACHE_CREATION_INPUT_TOKENS'', ''TIMESTAMP'',
    ''NAME'', ''SOURCE_TYPE'', ''INSTALL_ID'', ''HOSTNAME'', ''SCAN_ROOTS'', ''EVENTS'', ''RECEIVED'', ''INSERTED'']"
  by code_simp

lemma str_field_any: "str_field upd (JStr (quote_body s)) r = Some (upd (to_utf8 s) r)"
  by (simp add: str_field_def unquote_quote_any)

lemma int_field_text: "int_field upd (JNum (int_text (sint (w :: i64)))) r = Some (upd w r)"
  by (simp add: int_field_def)

lemma event_decode:
  assumes "Event_doc e = Some d" "snd (ce_Timestamp e) mod 60 = 0"
  shows "decode_struct UsageEventInput_fields (doc_value d) zero_event = Some (wire_event e)"
proof -
  obtain ts where ts: "format_rfc3339 (ce_Timestamp e) = Some ts" using assms(1) by (auto simp: Event_doc_def)
  note d = assms(1) [unfolded Event_doc_def ts option.map option.inject, symmetric]
  show ?thesis
    unfolding d using wire_names
    by (simp add: decode_struct_def UsageEventInput_fields_def str_field_any int_field_text
        time_field_quote [OF ts assms(2)] wire_event_def zero_event_def del: foldName.simps quote_body.simps)
qed

lemma root_decode:
  "decode_struct ScanRootInput_fields (doc_value (ScanRootReport_doc r))
     \<lparr>usr_Path = [], usr_Name = [], usr_SourceType = []\<rparr> = Some (wire_root r)"
  using wire_names
  by (simp add: ScanRootReport_doc_def decode_struct_def ScanRootInput_fields_def str_field_any wire_root_def
      del: foldName.simps quote_body.simps)

text \<open>The body a batch is sent as, and the request the server makes of it.\<close>

definition wire_batch :: "Client \<Rightarrow> ScanRootReport list \<Rightarrow> collector_Event list \<Rightarrow> IngestUsageEventsBatchRequest" where
  "wire_batch c rs es = \<lparr>br_Events = map wire_event es, br_Hostname = to_utf8 (cl_hostname c),
     br_InstallId = to_utf8 (cl_installID c), br_ScanRoots = map wire_root rs\<rparr>"

definition server_request :: "string \<Rightarrow> HttpRequest \<Rightarrow> Request" where
  "server_request path req = \<lparr>rq_Method = hr_Method req, rq_Path = path, rq_Query = [], rq_Header = hr_Header req,
     rq_Cookie = (\<lambda>_. None), rq_Body = Some (hr_Body req)\<rparr>"

lemma batch_decode:
  assumes "batchRequest c rs es = Some d" "list_all (\<lambda>e. snd (ce_Timestamp e) mod 60 = 0) es"
  shows "decode_struct BatchRequest_fields (doc_value d)
     \<lparr>br_Events = [], br_Hostname = [], br_InstallId = [], br_ScanRoots = []\<rparr> = Some (wire_batch c rs es)"
proof -
  obtain ds where ds: "those (map Event_doc es) = Some ds" and d: "d = DObj
     [(''install_id'', DStr (cl_installID c)), (''hostname'', DStr (cl_hostname c)),
      (''scan_roots'', DArr (map ScanRootReport_doc rs)), (''events'', DArr ds)]"
    using assms(1) by (auto simp: batchRequest_eq)
  have "those (map (\<lambda>v. decode_struct UsageEventInput_fields v zero_event) (map doc_value ds)) = Some (map wire_event es)"
    using ds assms(2) event_decode by (induction es arbitrary: ds) (auto split: option.splits)
  moreover have "those (map (\<lambda>v. decode_struct ScanRootInput_fields v \<lparr>usr_Path = [], usr_Name = [], usr_SourceType = []\<rparr>)
      (map doc_value (map ScanRootReport_doc rs))) = Some (map wire_root rs)"
    using root_decode by (induction rs) auto
  ultimately show ?thesis
    unfolding d using wire_names
    by (simp add: decode_struct_def BatchRequest_fields_def str_field_any slice_field_def wire_batch_def
        del: foldName.simps quote_body.simps map_map)
qed

lemma wire_bind:
  assumes "batchRequest c rs es = Some d" "list_all (\<lambda>e. snd (ce_Timestamp e) mod 60 = 0) es"
    and "hr_Body req = json_Marshal d"
  shows "ShouldBindJSON (server_request path req) = Some (wire_batch c rs es)"
  using json_first_parse [OF parse_Marshal [OF batch_doc_ok [OF assms(1)]]] batch_decode [OF assms(1,2)]
  by (simp add: ShouldBindJSON_def server_request_def assms(3))

text \<open>
  C6. The two sides agree on the wire: whatever the strings of a batch are made of, the server decodes
  the body the collector sends to exactly that batch, every count in its own field, every timestamp to
  the nanosecond, every string as it was with invalid UTF-8 replaced.
\<close>

theorem wire_roundtrip:
  assumes "batchRequest c rs es = Some d" "list_all (\<lambda>e. snd (ce_Timestamp e) mod 60 = 0) es"
    and "hr_Body req = json_Marshal d"
  shows "ShouldBindJSON (server_request path req) = Some (wire_batch c rs es)"
  using assms by (rule wire_bind)

section \<open>The network\<close>

text \<open>What the server is as it answers one request (its clocks, identifiers, credentials), and what the
  network does to the exchange. The validator and gin's answer to an unknown route are the same for all.\<close>

datatype delivery = RequestLost | Delivered | ResponseLost

record serving =
  sv_env :: Env
  sv_users :: "string \<times> time"
  sv_keys :: "engine \<times> string \<times> time"
  sv_usage :: "engine \<times> (float64 \<Rightarrow> i64)"
  sv_delivery :: delivery

definition serve :: "validator \<Rightarrow> (Request \<Rightarrow> Response) \<Rightarrow> serving \<Rightarrow> Request \<Rightarrow> db \<Rightarrow> Response \<times> db" where
  "serve valid unm sv = api_v1 ((sv_env sv)\<lparr>en_valid := valid, en_unmatched := unm\<rparr>)
     (NewUserRepo (fst (sv_users sv)) (snd (sv_users sv)))
     (NewAPIKeyRepo (fst (sv_keys sv)) (fst (snd (sv_keys sv))) (snd (snd (sv_keys sv))))
     (NewRepo (fst (sv_usage sv)) (snd (sv_usage sv)))"

text \<open>How a body is written matters to the collector for the receipt only.\<close>

definition response_text :: "(body \<Rightarrow> string) \<Rightarrow> body \<Rightarrow> string" where
  "response_text other b = (case b of
     IngestBody received inserted \<Rightarrow>
       json_Marshal (DObj [(''inserted'', DInt (sint inserted)), (''received'', DInt (sint received))])
   | _ \<Rightarrow> other b)"

definition network ::
    "validator \<Rightarrow> (Request \<Rightarrow> Response) \<Rightarrow> (body \<Rightarrow> string) \<Rightarrow> string \<Rightarrow> serving \<Rightarrow> db transport"
where
  "network valid unm other base sv url req s =
     (if sv_delivery sv = RequestLost \<or> \<not> strings_HasPrefix url base then (None, s)
      else let (rs, t) = serve valid unm sv (server_request (strings_TrimPrefix url base) req) s in
        (if sv_delivery sv = ResponseLost then None else Some (rs_Status rs, response_text other (rs_Body rs)), t))"

text \<open>The uploader of a client against the server at \<open>base\<close>.\<close>

definition upload ::
    "validator \<Rightarrow> (Request \<Rightarrow> Response) \<Rightarrow> (body \<Rightarrow> string) \<Rightarrow> string \<Rightarrow> Client \<times> serving \<Rightarrow> db BatchPoster"
where
  "upload valid unm other base d = PostBatch (fst d) (network valid unm other base (snd d))"

definition stored_ids :: "db \<Rightarrow> string set" where
  "stored_ids s = event_ids (usage_events s)"

text \<open>Neither the validator nor gin answers 201 by itself.\<close>

definition server_ok :: "validator \<Rightarrow> (Request \<Rightarrow> Response) \<Rightarrow> db \<Rightarrow> bool" where
  "server_ok valid unm s \<longleftrightarrow> usage_db_ok s \<and> (\<forall>rq message st. valid rq = Some (message, st) \<longrightarrow> st \<noteq> 201)
     \<and> (\<forall>rq. rs_Status (unm rq) \<noteq> 201)"

lemma wire_ids:
  "sendable es \<Longrightarrow> event_ids (map (toEvent uni \<circ> toIngestEvent) (br_Events (wire_batch c rs es))) = ce_ID ` set es"
  by (force simp: wire_batch_def sendable_def toEvent_def toIngestEvent_def wire_event_def to_utf8_id image_iff
      simp del: to_utf8.simps utf8_valid.simps)

text \<open>One exchange with the server, for a request the collector builds.\<close>

lemma serve_post:
  assumes "serve valid unm sv (server_request path \<lparr>hr_Method = ''POST'', hr_Header = h, hr_Body = json_Marshal d\<rparr>) s = (rs, t)"
    and "server_ok valid unm s" "sendable es" "batchRequest c roots es = Some d"
  shows "server_ok valid unm t \<and> stored_ids s \<subseteq> stored_ids t
    \<and> (rs_Status rs = 201 \<longrightarrow> stored_ids t = stored_ids s \<union> ce_ID ` set es
        \<and> rs_Body rs = IngestBody (of_nat (length es)) (of_nat (card (ce_ID ` set es - stored_ids s))))"
proof -
  let ?rq = "server_request path \<lparr>hr_Method = ''POST'', hr_Header = h, hr_Body = json_Marshal d\<rparr>"
  have z: "list_all (\<lambda>e. snd (ce_Timestamp e) mod 60 = 0) es" using assms(3) by (simp add: sendable_def list_all_iff)
  have bind: "ShouldBindJSON ?rq = Some (wire_batch c roots es)"
    by (rule wire_bind [OF assms(4) z]) simp
  show ?thesis
  proof (cases "path = batch_path")
    case True
    have route: "api_route ?rq = Some OpIngest" by (simp add: api_route_def server_request_def True batch_path_def)
    note r = ingest_response [OF assms(1) [unfolded serve_def] route]
    let ?uni = "en_uni ((sv_env sv)\<lparr>en_valid := valid, en_unmatched := unm\<rparr>)"
    let ?new = "ingest_new (event_ids (usage_events s)) (map (toEvent ?uni \<circ> toIngestEvent) (br_Events (wire_batch c roots es)))"
    have v: "\<forall>message st. valid ?rq = Some (message, st) \<longrightarrow> st \<noteq> 201" "usage_db_ok s"
      using assms(2) by (simp_all add: server_ok_def)
    have ids: "event_ids ?new = ce_ID ` set es - stored_ids s"
      unfolding ingest_new_ids wire_ids [OF assms(3)] stored_ids_def ..
    have len: "length ?new = card (ce_ID ` set es - stored_ids s)"
      using distinct_card [OF ingest_new_distinct, of "event_ids (usage_events s)" "map (toEvent ?uni \<circ> toIngestEvent) (br_Events (wire_batch c roots es))"] ids
      by (simp only: set_map length_map)
    note r = ingest_response [OF assms(1) [unfolded serve_def] route]
    have t: "usage_db_ok t" using r v by (cases "rs_Status rs = 201") (simp_all add: )
    show ?thesis
    proof (cases "rs_Status rs = 201")
      case True
      then have e: "usage_events t = usage_events s @ ?new"
        "rs_Body rs = IngestBody (of_nat (length (br_Events (wire_batch c roots es))))
             (of_nat (length (usage_events t) - length (usage_events s)))"
        using r v(1) bind by auto
      have "stored_ids t = stored_ids s \<union> ce_ID ` set es"
        using ids by (simp add: stored_ids_def e(1) image_Un)
      moreover have "rs_Body rs = IngestBody (of_nat (length es)) (of_nat (card (ce_ID ` set es - stored_ids s)))"
        unfolding e(2) e(1) len [symmetric] by (simp add: wire_batch_def)
      ultimately show ?thesis using t assms(2) by (simp add: server_ok_def)
    next
      case False
      then show ?thesis using r v t assms(2) by (simp add: server_ok_def stored_ids_def)
    qed
  next
    case False
    have "api_route ?rq = None" using False by (simp add: api_route_def server_request_def batch_path_def)
    then have "rs = unm ?rq" "t = s" using assms(1) by (simp_all add: serve_def api_v1_def)
    then show ?thesis using assms(2) by (simp add: server_ok_def)
  qed
qed

text \<open>The receipt is read back as the counts the server reports.\<close>

lemma receipt_decode:
  "Option.bind (json_first (response_text other (IngestBody r i)))
     (\<lambda>v. decode_struct BatchResult_fields v \<lparr>bt_Received = 0, bt_Inserted = 0\<rparr>)
   = Some \<lparr>bt_Received = r, bt_Inserted = i\<rparr>"
proof -
  have ok: "doc_ok max_depth (DObj [(''inserted'', DInt (sint i)), (''received'', DInt (sint r))])"
    using ascii_keys by (simp add: max_depth_def del: utf8_valid.simps)
  show ?thesis
    using wire_names unfolding response_text_def
    by (simp add: json_first_parse [OF parse_Marshal [OF ok]] decode_struct_def BatchResult_fields_def int_field_text
        del: foldName.simps)
qed

lemma upload_run:
  assumes "upload valid unm other base d roots es s = (q, t)" "server_ok valid unm s" "sendable es" "es \<noteq> []"
  shows "server_ok valid unm t \<and> stored_ids s \<subseteq> stored_ids t
    \<and> (\<forall>r. q = Inr r \<longrightarrow> stored_ids t = stored_ids s \<union> ce_ID ` set es
        \<and> r = \<lparr>bt_Received = of_nat (length es), bt_Inserted = of_nat (card (ce_ID ` set es - stored_ids s))\<rparr>)"
proof (cases "batchRequest (fst d) roots es")
  case None
  with assms show ?thesis by (auto simp: upload_def PostBatch_def)
next
  case (Some doc)
  define h where "h = (\<lambda>_. [])(''Content-Type'' := ''application/json'',
                   ''Authorization'' := ''Bearer '' @ cl_apiKey (fst d))"
  define url where "url = cl_baseURL (fst d) @ batch_path"
  define rq where "rq = \<lparr>hr_Method = ''POST'', hr_Header = h, hr_Body = json_Marshal doc\<rparr>"
  obtain resp u where net: "network valid unm other base (snd d) url rq s = (resp, u)" by fastforce
  have call: "(q, t) = (case resp of None \<Rightarrow> (Inl PostErr, u)
     | Some (status, body) \<Rightarrow> if status \<noteq> 201 then (Inl PostErr, u)
         else (case Option.bind (json_first body)
                 (\<lambda>v. decode_struct BatchResult_fields v \<lparr>bt_Received = 0, bt_Inserted = 0\<rparr>) of
                 None \<Rightarrow> (Inl ParseErr, u) | Some r \<Rightarrow> (Inr r, u)))"
    using assms(1,4) net unfolding rq_def h_def url_def by (cases resp) (auto simp: upload_def PostBatch_def Some)
  show ?thesis
  proof (cases "sv_delivery (snd d) = RequestLost \<or> \<not> strings_HasPrefix url base")
    case True
    then have "resp = None" "u = s" using net by (auto simp: network_def)
    then show ?thesis using call assms(2) by auto
  next
    case False
    obtain rs v where srv: "serve valid unm (snd d) (server_request (strings_TrimPrefix url base) rq) s = (rs, v)" by fastforce
    note x = serve_post [OF srv [unfolded rq_def] assms(2,3) Some]
    have n: "u = v" "resp = (if sv_delivery (snd d) = ResponseLost then None
        else Some (rs_Status rs, response_text other (rs_Body rs)))"
      using net False srv by (auto simp: network_def)
    show ?thesis
    proof (cases "sv_delivery (snd d) = ResponseLost \<or> rs_Status rs \<noteq> 201")
      case True
      then have "(\<exists>e. q = Inl e) \<and> t = v" using call n by (auto split: if_splits)
      then show ?thesis using x by auto
    next
      case False
      then have "q = Inr \<lparr>bt_Received = of_nat (length es), bt_Inserted = of_nat (card (ce_ID ` set es - stored_ids s))\<rparr> \<and> t = v"
        using call n x receipt_decode by auto
      then show ?thesis using x False by auto
    qed
  qed
qed

interpretation uploader: batch_poster "upload valid unm other base" stored_ids "server_ok valid unm"
  for valid unm other base
proof
  show "ce_ID ` set es \<subseteq> stored_ids t"
    if "server_ok valid unm s" "sendable es" "es \<noteq> []" "upload valid unm other base d rs es s = (Inr r, t)" for s es d rs r t
    using upload_run [OF that(4,1,2,3)] by auto
  show "server_ok valid unm t \<and> stored_ids s \<subseteq> stored_ids t"
    if "server_ok valid unm s" "sendable es" "upload valid unm other base d rs es s = (q, t)" for s es d rs q t
    using that upload_run [OF that(3,1,2)] by (cases "es = []") (auto simp: upload_def PostBatch_def)
qed

section \<open>No message is lost, none is stored twice\<close>

lemma stored_once: "usage_db_ok s \<Longrightarrow> i \<in> stored_ids s \<Longrightarrow> \<exists>!e. e \<in> set (usage_events s) \<and> ev_ID e = i"
  by (auto simp: usage_db_ok_def stored_ids_def distinct_map inj_on_def)

text \<open>One invocation of the command is a step of the collector.\<close>

lemma collector_run_step:
  assumes "collector_run home newID uni osHostname git (network valid unm other base sv) configPath wd = (r, wd')"
    and "reach (upload valid unm other base) stored_ids (server_ok valid unm) (statePathFor configPath) wd"
  shows "reach (upload valid unm other base) stored_ids (server_ok valid unm) (statePathFor configPath) wd'
    \<and> (\<forall>res cfg fs. r = Inr res \<longrightarrow> LoadOrInitConfig newID configPath (wd_fs wd) = (Inr cfg, fs)
        \<longrightarrow> message_ids home fs cfg \<subseteq> stored_ids (wd_server wd'))"
proof -
  obtain q fs where load: "LoadOrInitConfig newID configPath (wd_fs wd) = (q, fs)" by fastforce
  let ?wd = "wd\<lparr>wd_fs := fs\<rparr>"
  have "reach (upload valid unm other base) stored_ids (server_ok valid unm) (statePathFor configPath)
      (wd\<lparr>wd_fs := fs, wd_store := wd_store wd, wd_git := wd_git wd\<rparr>)"
    by (rule reach.files [OF assms(2) disjI1]) (rule LoadOrInitConfig_other [OF load])
  then have start: "reach (upload valid unm other base) stored_ids (server_ok valid unm) (statePathFor configPath) ?wd"
    by simp
  show ?thesis
  proof (cases q)
    case (Inl e)
    then show ?thesis using assms(1) load start by (auto simp: collector_run_def)
  next
    case (Inr cfg)
    define cl where "cl = NewClient (cf_CoreURL cfg) (cf_APIKey cfg) (cf_InstallID cfg)
      (case ResolveHostname cfg osHostname of Some h \<Rightarrow> h | None \<Rightarrow> ''unknown-host'')"
    obtain result err wd2 where run: "Run home uni cfg (statePathFor configPath) git (upload valid unm other base (cl, sv)) ?wd
        = (result, err, wd2)"
      by (metis prod_cases3)
    have r: "wd' = wd2" "r = (case err of Some e \<Rightarrow> Inl e | None \<Rightarrow> Inr result)"
      using assms(1) run by (auto simp: collector_run_def load Inr Let_def upload_def cl_def [symmetric] split: option.splits)
    have ok_sent: "server_ok valid unm (wd_server ?wd)" "sent_ids (wd_fs ?wd) (statePathFor configPath) \<subseteq> stored_ids (wd_server ?wd)"
      using uploader.reach_sound [OF start] by simp_all
    note s = uploader.Run_sound [OF run ok_sent]
    show ?thesis using reach.run [OF start run] s r load Inr by (auto split: option.splits)
  qed
qed

text \<open>
  C5. The sent state never claims too much. In every state that runs of the collector with any
  configuration, crashes of the network before or after the server has stored a batch, failing
  statements on the server, changes to the files and other clients can lead to, every id the state
  file marks as sent is stored by the server, exactly once.
\<close>

theorem sent_is_stored:
  assumes "reach (upload valid unm other base) stored_ids (server_ok valid unm) statePath wd"
    and "i \<in> sent_ids (wd_fs wd) statePath"
  shows "\<exists>!e. e \<in> set (usage_events (wd_server wd)) \<and> ev_ID e = i"
  using uploader.reach_sound [OF assms(1)] assms(2) by (intro stored_once) (auto simp: server_ok_def)

text \<open>
  C4. End to end delivery: when an invocation of the command succeeds, in any state the collector can
  be in, then every message with usage in the transcripts below the configured roots is stored by the
  server, exactly once, whether this run sent it, an earlier one did, or an earlier one tried and lost
  the answer; and the state it leaves is again such a state.
\<close>

theorem collector_delivers:
  assumes "reach (upload valid unm other base) stored_ids (server_ok valid unm) (statePathFor configPath) wd"
    and "collector_run home newID uni osHostname git (network valid unm other base sv) configPath wd = (Inr res, wd')"
    and "LoadOrInitConfig newID configPath (wd_fs wd) = (Inr cfg, fs)" and "i \<in> message_ids home fs cfg"
  shows "(\<exists>!e. e \<in> set (usage_events (wd_server wd')) \<and> ev_ID e = i)
    \<and> reach (upload valid unm other base) stored_ids (server_ok valid unm) (statePathFor configPath) wd'"
proof -
  note s = collector_run_step [OF assms(2,1)]
  then have "i \<in> stored_ids (wd_server wd')" "server_ok valid unm (wd_server wd')"
    using assms(3,4) uploader.reach_sound by blast+
  then show ?thesis using s by (intro conjI stored_once) (auto simp: server_ok_def)
qed

section \<open>A run\<close>

definition sample_config :: Collector_Config where
  "sample_config = \<lparr>cf_ScanPaths = Some [\<lparr>sp_Name = ''n'', sp_Path = ''/r'', sp_SourceType = ''claude_code''\<rparr>],
     cf_InstallID = ''m1'', cf_Hostname = ''box'', cf_CoreURL = ''http://h/'', cf_APIKey = ''tpl_x''\<rparr>"

abbreviation sample_start :: filesystem where
  "sample_start \<equiv> sample_home_with (json_MarshalIndent (Config_doc sample_config))"

definition sample_world :: "(unit, db) world" where
  "sample_world = \<lparr>wd_fs = sample_start, wd_store = empty_store, wd_git = (), wd_server = sample_idb\<rparr>"

definition sample_serving :: serving where
  "sample_serving = \<lparr>sv_env = sample_env, sv_users = (''new-u'', 10), sv_keys = (plain_engine, ''new-k'', 10),
     sv_usage = (plain_engine, \<lambda>_. 0), sv_delivery = Delivered\<rparr>"

abbreviation sample_unmatched :: "Request \<Rightarrow> Response" where "sample_unmatched \<equiv> \<lambda>_. respond 404 NoBody"

lemma sample_load: "LoadOrInitConfig u ''/c.json'' sample_start = (Inr sample_config, sample_start)"
proof -
  have p: "fs_path (sample_home_with c) ''/c.json'' = [''c.json'']" for c by code_simp
  have rd: "os_ReadFile sample_start ''/c.json'' = Inr (json_MarshalIndent (Config_doc sample_config))"
    by (simp add: os_ReadFile_def os_Stat_def p) (simp add: sample_home_with_def)
  have ok: "config_ok sample_config"
    by (simp add: sample_config_def config_ok_def scan_path_ok_def ascii_utf8_valid is_ascii_def del: utf8_valid.simps)
  have "unmarshal Config_fields zero_config (json_MarshalIndent (Config_doc sample_config)) = Some sample_config"
    using parse_MarshalIndent [OF Config_doc_ok [OF ok], of "[]"] parse_MarshalIndent [OF Config_doc_ok [OF ok], of "[CHR 0x0A]"]
      config_decode [OF ok] by (simp add: unmarshal_def is_ws_def)
  moreover have "sample_config\<lparr>cf_ScanPaths := map_option (map default_source) (cf_ScanPaths sample_config)\<rparr> = sample_config"
    "cf_InstallID sample_config \<noteq> []" by (simp_all add: sample_config_def default_source_def)
  ultimately show ?thesis by (simp add: LoadOrInitConfig_def rd Let_def)
qed

abbreviation sample_file :: ScannedFile where
  "sample_file \<equiv> \<lparr>sf_Path = ''/r/t.jsonl'', sf_ScanRoot = ''/r'', sf_Name = ''n'', sf_SourceType = ''claude_code''\<rparr>"

lemma sample_files: "FindTranscriptFiles [] (sample_home_with c) [\<lparr>sp_Name = ''n'', sp_Path = ''/r'', sp_SourceType = ''claude_code''\<rparr>]
    = Inr [sample_file]"
  by code_simp

lemma first_by_sample: "ExtractUsageRows [sample_line] = [the (usage_row sample_line)]"
  by (simp add: ExtractUsageRows_eq List.map_filter_simps sample_row)

lemma sample_rows: "collect_rows (sample_home_with c) [sample_file] []
    = Inr (map (\<lambda>r. (r, sample_file)) (ExtractUsageRows [sample_line]))"
  by (simp add: ExtractUsageRowsFromFile_def sample_read ExtractUsageRows_eq List.map_filter_simps sample_row add_rows_def)

lemma sample_unsent: "LoadSentState (sample_home_with c) ''/c.json.state.json'' = Inr []"
  "os_ReadFile (sample_home_with c) ''/c.json.state.json'' = Inl NotExist"
  by code_simp+

lemma sample_ids: "message_ids [] (sample_home_with c) sample_config = {''m''}"
  by (simp add: message_ids_def sample_config_def sample_files file_lines_def sample_read first_by_sample sample_row
      del: FindTranscriptFiles.simps)

lemma sample_reach: "reach (upload (\<lambda>_. None) sample_unmatched other base) stored_ids
    (server_ok (\<lambda>_. None) sample_unmatched) (statePathFor ''/c.json'') sample_world"
  by (rule reach.fresh) (simp_all add: sample_world_def sample_unsent statePathFor_def server_ok_def sample_idb_with_def usage_db_ok_def empty_db_def)

lemma roots_no_faults:
  "faults s = [] \<Longrightarrow> \<exists>t. UpsertScanRoots (NewRepo g conv) i rs now s = (Inr (), t) \<and> faults t = []"
  by (induction rs arbitrary: s) (simp_all add: UpsertScanRoots_def NewRepo_def Repo_UpsertScanRoot_def
      db_UpsertScanRoot_def stmt_no_faults)

text \<open>A batch is accepted by the server of the sample, whose statements all succeed.\<close>

lemma sample_serve:
  assumes "batchRequest c roots es = Some d" "list_all (\<lambda>e. snd (ce_Timestamp e) mod 60 = 0) es"
    and "h ''Authorization'' = ''Bearer tpl_x''" "h ''X-Actor'' = []"
  shows "\<exists>inserted t. serve (\<lambda>_. None) sample_unmatched sample_serving
      (server_request batch_path \<lparr>hr_Method = ''POST'', hr_Header = h, hr_Body = json_Marshal d\<rparr>) sample_idb
    = (respond 201 (IngestBody (of_nat (length es)) inserted), t)"
proof -
  let ?rq = "server_request batch_path \<lparr>hr_Method = ''POST'', hr_Header = h, hr_Body = json_Marshal d\<rparr>"
  have env: "sample_env\<lparr>en_valid := \<lambda>_. None, en_unmatched := sample_unmatched\<rparr> = sample_env"
    by (simp add: sample_env_def)
  have "\<not> forbidden_name (\<lambda>s. s) ''install_id''" "\<not> forbidden_name (\<lambda>s. s) ''hostname''"
    "\<not> forbidden_name (\<lambda>s. s) ''scan_roots''" "\<not> forbidden_name (\<lambda>s. s) ''events''" by code_simp+
  then have guard: "\<not> hasForbiddenBodyField (\<lambda>s. s) ?rq"
    using assms(1) parse_Marshal [OF batch_doc_ok [OF assms(1)]]
    by (auto simp: hasForbiddenBodyField_def server_request_def batchRequest_eq)
  have route: "api_route ?rq = Some OpIngest" by (simp add: api_route_def server_request_def batch_path_def)
  have bind: "ShouldBindJSON ?rq = Some (wire_batch c roots es)" by (rule wire_bind [OF assms(1,2)]) simp
  have "serve (\<lambda>_. None) sample_unmatched sample_serving ?rq sample_idb
      = IngestUsageEventsBatch sample_usage (\<lambda>s. s) (5, 0) (6, 0) ?rq (Some (userFromRow sample_user)) sample_idb"
    using guard route sample_resolves assms(3,4)
    by (simp add: serve_def sample_serving_def env api_v1_def RejectActorFields_def RequireActor_def RequestValidator_def
        api_handler_def) (simp add: sample_env_def server_request_def forbiddenActorHeader_def RequestValidator_def)
  moreover obtain s1 where "Service_UpsertMachine sample_usage (br_InstallId (wire_batch c roots es))
      (br_Hostname (wire_batch c roots es)) (5, 0) sample_idb = (Inr (), s1)" "faults s1 = []"
    using sample_idb_facts(1)
    by (simp add: Service_UpsertMachine_def NewRepo_def Repo_UpsertMachine_def db_UpsertMachine_def io_simps)
  moreover obtain s2 where "UpsertScanRoots sample_usage (br_InstallId (wire_batch c roots es))
      (br_ScanRoots (wire_batch c roots es)) (6, 0) s1 = (Inr (), s2)" "faults s2 = []"
    using roots_no_faults [OF \<open>faults s1 = []\<close>] by blast
  moreover obtain k t where "IngestBatch sample_usage (\<lambda>s. s) (map toIngestEvent (br_Events (wire_batch c roots es))) s2
      = (Inr (length es, k), t)"
    using ingest_succeeds [OF \<open>faults s2 = []\<close>, of plain_engine "\<lambda>_. 0" "\<lambda>s. s"
      "map toIngestEvent (br_Events (wire_batch c roots es))"] by (auto simp: wire_batch_def)
  ultimately show ?thesis by (simp add: IngestUsageEventsBatch_def bind)
qed


definition sample_event :: collector_Event where
  "sample_event = make_event sample_config (map (\<lambda>r. (r, sample_file)) (ExtractUsageRows [sample_line])) [(''s'', ''/w/a'')]
     (the (usage_row sample_line))"

lemma sample_event_fields: "ce_ID sample_event = ''m''" "ce_Timestamp sample_event = zero_time"
  by (simp_all add: sample_event_def make_event_def sample_row)

lemma sample_run:
  "\<exists>res wd'. collector_run [] ''u'' (\<lambda>s. s) None (RealGitRootResolver sample_git)
      (network (\<lambda>_. None) sample_unmatched other ''http://h'' sample_serving) ''/c.json'' sample_world = (Inr res, wd')
    \<and> sent_ids (wd_fs wd') ''/c.json.state.json'' = {''m''}"
proof -
  define cl where "cl = NewClient (cf_CoreURL sample_config) (cf_APIKey sample_config) (cf_InstallID sample_config) ''box''"
  have base: "cl_baseURL cl = ''http://h''" "cl_apiKey cl = ''tpl_x''"
    unfolding cl_def NewClient_def sample_config_def Collector_Config.simps Client.simps by code_simp+
  define roots where "roots = scan_reports (map (\<lambda>r. (r, sample_file)) (ExtractUsageRows [sample_line])) (ExtractUsageRows [sample_line])"
  have "format_rfc3339 zero_time \<noteq> None" by code_simp
  then obtain d where d: "batchRequest cl roots [sample_event] = Some d"
    by (auto simp: batchRequest_def Event_doc_def sample_event_fields)
  obtain k t where srv: "serve (\<lambda>_. None) sample_unmatched sample_serving
      (server_request batch_path \<lparr>hr_Method = ''POST'', hr_Header = (\<lambda>_. [])(''Content-Type'' := ''application/json'',
          ''Authorization'' := ''Bearer '' @ cl_apiKey cl), hr_Body = json_Marshal d\<rparr>) sample_idb
    = (respond 201 (IngestBody (of_nat (length [sample_event])) k), t)"
    using sample_serve [OF d, of "(\<lambda>_. [])(''Content-Type'' := ''application/json'', ''Authorization'' := ''Bearer '' @ cl_apiKey cl)"]
    by (auto simp: sample_event_fields zero_time_def base)
  have dl: "sv_delivery sample_serving = Delivered" by (simp add: sample_serving_def)
  have post: "PostBatch cl (network (\<lambda>_. None) sample_unmatched other ''http://h'' sample_serving) roots [sample_event] sample_idb
      = (Inr \<lparr>bt_Received = of_nat (length [sample_event]), bt_Inserted = k\<rparr>, t)"
    using srv receipt_decode [of other "of_nat (length [sample_event])" k]
    by (simp add: PostBatch_def d base network_def Let_def dl strings_HasPrefix_def strings_TrimPrefix_def)
  obtain fs' where save: "Save sample_start ''/c.json.state.json'' [''m''] = Inr fs'" 
  proof -
    have p: "fs_path (sample_home_with c) ''/c.json.state.json'' = [''c.json.state.json'']" for c by code_simp
    show ?thesis by (rule that) (simp add: Save_def os_WriteFile_def p, simp add: sample_home_with_def)
  qed
  have "list_all utf8_valid [''m'']" by code_simp
  then have ids: "sent_ids fs' ''/c.json.state.json'' = {''m''}"
  proof -
    assume "list_all utf8_valid [''m'']"
    from Load_Save [OF save this] obtain st' where "LoadSentState fs' ''/c.json.state.json'' = Inr st'" "set st' = set [''m'']"
      by blast
    then show ?thesis by (simp only: sent_ids_def sum.case list.set)
  qed
  have rows: "ExtractUsageRows [sample_line] = [the (usage_row sample_line)]" by (rule first_by_sample)
  have mid: "ro_MessageID (the (usage_row sample_line)) = ''m''" by (simp add: sample_row)
  have send: "send_events (PostBatch cl (network (\<lambda>_. None) sample_unmatched other ''http://h'' sample_serving))
      ''/c.json.state.json'' [] roots [sample_event] res0 \<lparr>wd_fs = sample_start, wd_store = db, wd_git = (), wd_server = sample_idb\<rparr>
    = (res0\<lparr>res_Received := of_nat (length [sample_event]), res_Inserted := k\<rparr>, None,
       \<lparr>wd_fs = fs', wd_store = db, wd_git = (), wd_server = t\<rparr>)" for res0 db
    using save by (simp add: send_events_def post Let_def MarkSent_def sample_event_fields)
  have parts: "cf_ScanPaths sample_config = Some [\<lparr>sp_Name = ''n'', sp_Path = ''/r'', sp_SourceType = ''claude_code''\<rparr>]"
    by (simp add: sample_config_def)
  have unsent: "FilterUnsent [] [the (usage_row sample_line)] = [the (usage_row sample_line)]" by (simp add: FilterUnsent_def Sent_def)
  have ev: "make_event sample_config [(the (usage_row sample_line), sample_file)] [(''s'', ''/w/a'')] (the (usage_row sample_line))
      = sample_event" by (simp add: sample_event_def rows)
  have ro: "scan_reports [(the (usage_row sample_line), sample_file)] [the (usage_row sample_line)] = roots"
    by (simp add: roots_def rows)
  have opened: "OpenPathStore empty_store = (Inr (), empty_store)" by code_simp
  have "\<exists>res wd'. Run [] (\<lambda>s. s) sample_config ''/c.json.state.json'' (RealGitRootResolver sample_git)
      (PostBatch cl (network (\<lambda>_. None) sample_unmatched other ''http://h'' sample_serving)) sample_world
      = (res, None, wd') \<and> wd_fs wd' = fs'"
    by (simp add: sample_scan [unfolded rows] Run_def Let_def sample_world_def parts sample_files sample_rows rows sample_unsent unsent opened
        ev ro send
        del: FindTranscriptFiles.simps collect_rows.simps)
  moreover have "statePathFor ''/c.json'' = ''/c.json.state.json''" by (simp add: statePathFor_def)
  moreover have "ResolveHostname sample_config None = Some ''box''" by (simp add: ResolveHostname_def sample_config_def)
  ultimately show ?thesis
    using ids by (auto simp: collector_run_def sample_world_def sample_load Let_def cl_def [symmetric])
qed

theorem wire_roundtrip_witness:
  "\<exists>d. batchRequest \<lparr>cl_baseURL = [], cl_apiKey = [], cl_installID = ''m1'', cl_hostname = [CHR 0xFF]\<rparr> [] [sample_event] = Some d
     \<and> ShouldBindJSON (server_request [] \<lparr>hr_Method = [], hr_Header = (\<lambda>_. []), hr_Body = json_Marshal d\<rparr>)
       = Some \<lparr>br_Events = [wire_event sample_event], br_Hostname = utf8_encode rune_error, br_InstallId = ''m1'',
           br_ScanRoots = []\<rparr>"
proof -
  let ?c = "\<lparr>cl_baseURL = [], cl_apiKey = [], cl_installID = ''m1'', cl_hostname = [CHR 0xFF]\<rparr>"
  have "format_rfc3339 zero_time \<noteq> None" by code_simp
  then obtain d where d: "batchRequest ?c [] [sample_event] = Some d"
    by (auto simp: batchRequest_def Event_doc_def sample_event_fields)
  have m: "to_utf8 ''m1'' = ''m1''" by (rule to_utf8_id) (simp add: ascii_utf8_valid is_ascii_def del: utf8_valid.simps)
  have "utf8_len [CHR 0xFF] = 0" by (simp add: utf8_len_def utf8_first_def)
  then have h: "to_utf8 [CHR 0xFF] = utf8_encode rune_error" by (simp add: Let_def)
  have z: "list_all (\<lambda>e. snd (ce_Timestamp e) mod 60 = 0) [sample_event]" by (simp add: sample_event_fields zero_time_def)
  from wire_roundtrip [OF d z, of "\<lparr>hr_Method = [], hr_Header = (\<lambda>_. []), hr_Body = json_Marshal d\<rparr>" "[]"]
  show ?thesis by (intro exI [of _ d] conjI d) (simp only: wire_batch_def Client.simps HttpRequest.simps m h list.map simp_thms)
qed

theorem sent_is_stored_witness:
  "\<exists>wd. sent_ids (wd_fs wd) (statePathFor ''/c.json'') = {''m''}
     \<and> reach (upload (\<lambda>_. None) sample_unmatched (\<lambda>_. []) ''http://h'') stored_ids
         (server_ok (\<lambda>_. None) sample_unmatched) (statePathFor ''/c.json'') (wd :: (unit, db) world)
     \<and> (\<exists>!e. e \<in> set (usage_events (wd_server wd)) \<and> ev_ID e = ''m'')"
proof -
  obtain res wd where run: "collector_run [] ''u'' (\<lambda>s. s) None (RealGitRootResolver sample_git)
      (network (\<lambda>_. None) sample_unmatched (\<lambda>_. []) ''http://h'' sample_serving) ''/c.json'' sample_world = (Inr res, wd)"
    and ids: "sent_ids (wd_fs wd) ''/c.json.state.json'' = {''m''}"
    using sample_run by blast
  have r: "reach (upload (\<lambda>_. None) sample_unmatched (\<lambda>_. []) ''http://h'') stored_ids
      (server_ok (\<lambda>_. None) sample_unmatched) (statePathFor ''/c.json'') wd"
    using collector_run_step [OF run sample_reach] by blast
  have i: "sent_ids (wd_fs wd) (statePathFor ''/c.json'') = {''m''}" using ids by (simp add: statePathFor_def)
  with sent_is_stored [OF r, of "''m''"] r show ?thesis by blast
qed

theorem collector_delivers_witness:
  "\<exists>res wd. collector_run [] ''u'' (\<lambda>s. s) None (RealGitRootResolver sample_git)
      (network (\<lambda>_. None) sample_unmatched (\<lambda>_. []) ''http://h'' sample_serving) ''/c.json'' sample_world = (Inr res, wd)
     \<and> (\<exists>!e. e \<in> set (usage_events (wd_server wd)) \<and> ev_ID e = ''m'')"
proof -
  obtain res wd where run: "collector_run [] ''u'' (\<lambda>s. s) None (RealGitRootResolver sample_git)
      (network (\<lambda>_. None) sample_unmatched (\<lambda>_. []) ''http://h'' sample_serving) ''/c.json'' sample_world = (Inr res, wd)"
    using sample_run by blast
  have "LoadOrInitConfig ''u'' ''/c.json'' (wd_fs sample_world) = (Inr sample_config, sample_start)"
    by (simp add: sample_world_def sample_load)
  from collector_delivers [OF sample_reach run this, of "''m''"] run show ?thesis by (auto simp: sample_ids)
qed

end
