(* ===== verification/Server.thy ===== *)
theory Server
  imports Bff_API GoPath
begin

text \<open>
  src/cmd/server/main.go (wiring and dispatch), src/cmd/server/spa.go (the embedded single-page
  application) and src/internal/platform (middleware.go, server.go's router): the whole HTTP surface of
  the server, from a request to the response and the database it leaves. Of net/http the dispatch of
  ServeMux and the file server are modelled as far as they are used; gin's trailing-slash redirect, what
  it answers where no route matches, and how a redirect writes a path as a URL are arguments. The path
  of a request stands for itself: percent-encoded paths, conditional and range requests are left out,
  and so are the log lines.
\<close>

section \<open>The middlewares of platform\<close>

record Served =
  sd_Response :: Response
  sd_Header :: "(string \<times> string) list"

definition plain :: "Response \<Rightarrow> Served" where
  "plain r = \<lparr>sd_Response = r, sd_Header = []\<rparr>"

type_synonym 's chain = "Request \<Rightarrow> 's \<Rightarrow> Served \<times> 's"

definition lift_chain :: "(Request \<Rightarrow> 's \<Rightarrow> Response \<times> 's) \<Rightarrow> 's chain" where
  "lift_chain h rq s = (case h rq s of (r, t) \<Rightarrow> (plain r, t))"

definition RequestIDHeader :: string where "RequestIDHeader = ''X-Request-ID''"

text \<open>\<open>fresh\<close> is the new UUID. The header set here is kept by whatever answers.\<close>

definition RequestID :: "string \<Rightarrow> 's chain \<Rightarrow> 's chain" where
  "RequestID fresh nxt rq s =
     (let i = (if rq_Header rq RequestIDHeader = [] then fresh else rq_Header rq RequestIDHeader) in
      case nxt rq s of (r, t) \<Rightarrow> (r\<lparr>sd_Header := (RequestIDHeader, i) # sd_Header r\<rparr>, t))"

text \<open>A panic becomes a 500; what the database did before it stays done.\<close>

definition Recovery :: "'s chain \<Rightarrow> 's chain" where
  "Recovery nxt rq s = (case nxt rq s of (r, t) \<Rightarrow>
     (if rs_Body (sd_Response r) = Panic then r\<lparr>sd_Response := (sd_Response r)\<lparr>rs_Status := 500, rs_Body := NoBody\<rparr>\<rparr> else r, t))"

definition healthz :: "'s chain" where
  "healthz rq s = (plain (respond 200 (StatusBody ''ok'')), s)"

definition healthz_route :: "Request \<Rightarrow> bool" where
  "healthz_route rq \<longleftrightarrow> rq_Method rq = ''GET'' \<and> rq_Path rq = ''/healthz''"

text \<open>An engine of \<open>NewRouter\<close>: its own health check, the routes registered on it, and the handler of
  requests without a route, all behind the middlewares; gin's redirect to a path that differs from a
  route by a trailing slash comes before them.\<close>

definition NewRouter ::
    "string \<Rightarrow> (Request \<Rightarrow> Response option) \<Rightarrow> (Request \<Rightarrow> 's chain option) \<Rightarrow> 's chain \<Rightarrow> 's chain" where
  "NewRouter fresh slash_redirect routes noRoute rq s =
     (if healthz_route rq then RequestID fresh (Recovery healthz) rq s
      else case routes rq of
        Some handler \<Rightarrow> RequestID fresh (Recovery handler) rq s
      | None \<Rightarrow> (case slash_redirect rq of
            Some r \<Rightarrow> (plain r, s)
          | None \<Rightarrow> RequestID fresh (Recovery noRoute) rq s))"

section \<open>The single-page application\<close>

definition assetsPrefix :: string where "assetsPrefix = ''/assets/''"

text \<open>\<open>fs.ValidPath\<close> and \<open>fs.Stat\<close>.\<close>

definition ValidPath :: "string \<Rightarrow> bool" where
  "ValidPath p \<longleftrightarrow> utf8_valid p \<and> (p = ''.'' \<or> list_all (\<lambda>e. e \<noteq> [] \<and> e \<noteq> ''.'' \<and> e \<noteq> ''..'') (split_on (CHR ''/'') p))"

definition fs_Stat :: "fnode \<Rightarrow> string \<Rightarrow> os_error + fnode" where
  "fs_Stat web p = (if \<not> ValidPath p then Inl NotExist
     else fs_find web (if p = ''.'' then [] else split_on (CHR ''/'') p))"

text \<open>The name a rooted path has in the file system.\<close>

definition web_name :: "string \<Rightarrow> string" where
  "web_name urlPath = (let p = strings_TrimPrefix urlPath ''/'' in if p = [] then ''.'' else p)"

definition isRealFile :: "fnode \<Rightarrow> string \<Rightarrow> bool" where
  "isRealFile web urlPath = (case fs_Stat web (web_name urlPath) of
     Inl _ \<Rightarrow> False | Inr n \<Rightarrow> \<not> IsDir n)"

text \<open>\<open>http.FileServer\<close>; \<open>loc\<close> completes the target of a redirect with the query of the request. The
  listing of a directory is written without setting a status, so it goes out under \<open>preset\<close>, the status
  the response writer already has.\<close>

definition local_redirect :: "(string \<Rightarrow> string) \<Rightarrow> string \<Rightarrow> Response" where
  "local_redirect loc newPath = (respond 301 NoBody)\<lparr>rs_Location := Some (loc newPath)\<rparr>"

definition notFoundPage :: Response where
  "notFoundPage = respond 404 (TextBody (''404 page not found'' @ [CHR 0x0A]))"

definition FileServer :: "nat \<Rightarrow> fnode \<Rightarrow> (string \<Rightarrow> string) \<Rightarrow> string \<Rightarrow> Response" where
  "FileServer preset web loc urlPath =
     (let upath = (if strings_HasPrefix urlPath ''/'' then urlPath else CHR ''/'' # urlPath) in
      if strings_HasSuffix upath ''/index.html'' then local_redirect loc ''./''
      else let name = web_name (filepath_Clean upath) in
        case fs_Stat web name of
          Inl _ \<Rightarrow> notFoundPage
        | Inr (FileN _ c) \<Rightarrow>
            if strings_HasSuffix upath ''/'' then local_redirect loc (''../'' @ filepath_Base upath)
            else respond 200 (FileBody c)
        | Inr (DirN _ entries) \<Rightarrow>
            if \<not> strings_HasSuffix upath ''/'' then local_redirect loc (filepath_Base upath @ ''/'')
            else (case map_of entries ''index.html'' of
                Some (FileN _ c) \<Rightarrow> respond 200 (FileBody c)
              | Some (DirN _ es) \<Rightarrow> respond preset (ListingBody (map fst (sort_stable name_less es)))
              | None \<Rightarrow> respond preset (ListingBody (map fst (sort_stable name_less entries)))))"

definition newSPAHandler :: "nat \<Rightarrow> fnode \<Rightarrow> (string \<Rightarrow> string) \<Rightarrow> 's chain" where
  "newSPAHandler preset web loc rq s =
     (let path = rq_Path rq in
      if strings_HasPrefix path assetsPrefix then
        (if isRealFile web path then
           (\<lparr>sd_Response = FileServer preset web loc path,
             sd_Header = [(''Cache-Control'', ''public, max-age=31536000, immutable'')]\<rparr>, s)
         else (plain notFoundPage, s))
      else
        (\<lparr>sd_Response = FileServer preset web loc (if isRealFile web path then path else ''/''),
          sd_Header = [(''Cache-Control'', ''no-cache'')]\<rparr>, s))"

text \<open>The handler of requests the engine of the browser surface has no route for; gin calls it with the
  status 404 set.\<close>

definition bff_noRoute :: "fnode \<Rightarrow> (string \<Rightarrow> string) \<Rightarrow> 's chain" where
  "bff_noRoute web loc rq s =
     (if strings_HasPrefix (rq_Path rq) ''/api/bff/'' then
        (plain (respond 404 (NewErrorEnvelope ''not_found'' ''no such route'' [])), s)
      else newSPAHandler 404 web loc rq s)"

section \<open>Wiring\<close>

text \<open>What the process builds once: the two verifiers, each only with its settings, and the secret of the
  cookies, drawn afresh when none is set.\<close>

record Wiring =
  wi_cfg :: Config
  wi_jwt :: JWTVerifier
  wi_idVerifier :: JWTVerifier
  wi_secret :: string

definition optional_verifier ::
    "(string \<Rightarrow> string \<Rightarrow> go_error + (string \<Rightarrow> go_error + string)) \<Rightarrow> string \<Rightarrow> string \<Rightarrow> go_error + JWTVerifier" where
  "optional_verifier newVerifier issuer audience =
     (if issuer \<noteq> [] \<and> audience \<noteq> [] then
        (case newVerifier issuer audience of Inl err \<Rightarrow> Inl err | Inr v \<Rightarrow> Inr (Some v))
      else Inr None)"

definition session_secret :: "Config \<Rightarrow> go_error + string \<Rightarrow> go_error + string" where
  "session_secret cfg rnd = (if cf_SessionSecret cfg = [] then rand_Read 32 rnd else Inr (cf_SessionSecret cfg))"

definition buildWiring ::
    "(string \<Rightarrow> string \<Rightarrow> go_error + (string \<Rightarrow> go_error + string)) \<Rightarrow> go_error + string \<Rightarrow> Config \<Rightarrow> go_error + Wiring"
where
  "buildWiring newVerifier rnd cfg =
     (case optional_verifier newVerifier (cf_SSOIssuer cfg) (cf_AuthAudience cfg) of
        Inl err \<Rightarrow> Inl (Wrap ''building JWT verifier'' err)
      | Inr jwt \<Rightarrow>
          (case session_secret cfg rnd of
             Inl err \<Rightarrow> Inl (Wrap ''generating ephemeral session secret'' err)
           | Inr secret \<Rightarrow>
               (case optional_verifier newVerifier (cf_SSOIssuer cfg) (cf_SSOClientID cfg) of
                  Inl err \<Rightarrow> Inl (Wrap ''building bff id-token verifier'' err)
                | Inr idv \<Rightarrow> Inr \<lparr>wi_cfg = cfg, wi_jwt = jwt, wi_idVerifier = idv, wi_secret = secret\<rparr>)))"

text \<open>What the surroundings answer while one request is served: clocks, fresh values, third-party code.\<close>

record Moment =
  mo_env :: Env
  mo_bff :: BffEnv
  mo_signer_now :: wtime
  mo_users :: "string \<times> time"
  mo_keys :: "string \<times> time"
  mo_engine :: engine
  mo_conv :: "float64 \<Rightarrow> i64"
  mo_oauth :: OAuth2
  mo_rest_ok :: "string \<Rightarrow> bool"
  mo_pkce :: string
  mo_rnd :: "go_error + string"
  mo_fresh :: string
  mo_slash :: "Request \<Rightarrow> Response option"
  mo_mux_status :: nat
  mo_loc :: "Request \<Rightarrow> string \<Rightarrow> string"

definition moment_users :: "Moment \<Rightarrow> db UserRepo" where
  "moment_users m = (case mo_users m of (uuid, now) \<Rightarrow> NewUserRepo uuid now)"

definition moment_keys :: "Moment \<Rightarrow> db APIKeyRepo" where
  "moment_keys m = (case mo_keys m of (uuid, now) \<Rightarrow> NewAPIKeyRepo (mo_engine m) uuid now)"

definition moment_usage :: "Moment \<Rightarrow> db Repository" where
  "moment_usage m = NewRepo (mo_engine m) (mo_conv m)"

definition signer_of :: "Wiring \<Rightarrow> Moment \<Rightarrow> Signer" where
  "signer_of w m = \<lparr>sg_secret = wi_secret w, sg_now = mo_signer_now m\<rparr>"

definition api_routes :: "Wiring \<Rightarrow> Moment \<Rightarrow> Request \<Rightarrow> db chain option" where
  "api_routes w m rq = (case api_route rq of
     None \<Rightarrow> None
   | Some _ \<Rightarrow> Some (lift_chain (api_v1 ((mo_env m)\<lparr>en_jwt := wi_jwt w\<rparr>) (moment_users m) (moment_keys m) (moment_usage m))))"

definition bff_routes :: "Wiring \<Rightarrow> Moment \<Rightarrow> Request \<Rightarrow> db chain option" where
  "bff_routes w m rq =
     (if rq_Method rq = ''GET'' \<and> rq_Path rq = ''/login'' then
        Some (lift_chain (\<lambda>rq s. (NewLoginHandler (mo_oauth m) (mo_rest_ok m) (wi_cfg w) (signer_of w m) (mo_pkce m) (mo_rnd m), s)))
      else if rq_Method rq = ''GET'' \<and> rq_Path rq = ''/callback'' then
        Some (lift_chain (NewCallbackHandler (mo_oauth m) (mo_rest_ok m) (wi_cfg w) (signer_of w m) (wi_idVerifier w) (moment_users m)))
      else (case bff_route rq of
         None \<Rightarrow> None
       | Some op \<Rightarrow> Some (lift_chain (api_bff ((mo_bff m)\<lparr>be_signer := signer_of w m\<rparr>)
           (moment_users m) (moment_keys m) (moment_usage m) op))))"

definition apiRouter :: "Wiring \<Rightarrow> Moment \<Rightarrow> db chain" where
  "apiRouter w m = NewRouter (mo_fresh m) (mo_slash m) (api_routes w m)
     (\<lambda>rq s. (plain (en_unmatched (mo_env m) rq), s))"

definition bffRouter :: "fnode \<Rightarrow> Wiring \<Rightarrow> Moment \<Rightarrow> db chain" where
  "bffRouter web w m = NewRouter (mo_fresh m) (mo_slash m) (bff_routes w m)
     (\<lambda>rq. bff_noRoute web (mo_loc m rq) rq)"

section \<open>Dispatch\<close>

text \<open>\<open>cleanPath\<close> of net/http keeps a trailing slash.\<close>

definition cleanPath :: "string \<Rightarrow> string" where
  "cleanPath p =
     (if p = [] then ''/''
      else let q = (if strings_HasPrefix p ''/'' then p else CHR ''/'' # p); np = filepath_Clean q in
        if strings_HasSuffix q ''/'' \<and> np \<noteq> ''/'' then np @ ''/'' else np)"

definition api_pattern :: "string \<Rightarrow> bool" where
  "api_pattern path \<longleftrightarrow> path = ''/healthz'' \<or> strings_HasPrefix path ''/api/v1/''"

text \<open>The status of its redirects depends on the release of Go.\<close>

definition mux_redirect :: "Moment \<Rightarrow> Request \<Rightarrow> string \<Rightarrow> Response" where
  "mux_redirect m rq path = (respond (mo_mux_status m) NoBody)\<lparr>rs_Location := Some (mo_loc m rq path)\<rparr>"

text \<open>The mux of \<open>buildHandler\<close>: a path that is not clean, or is a registered tree but for its last slash,
  is redirected; CONNECT requests are not cleaned.\<close>

definition serve_mux :: "fnode \<Rightarrow> Wiring \<Rightarrow> Moment \<Rightarrow> db chain" where
  "serve_mux web w m rq s =
     (let path = (if rq_Method rq = ''CONNECT'' then rq_Path rq else cleanPath (rq_Path rq)) in
      if path = ''/api/v1'' then (plain (mux_redirect m rq ''/api/v1/''), s)
      else if path \<noteq> rq_Path rq then (plain (mux_redirect m rq path), s)
      else if api_pattern path then apiRouter w m rq s
      else bffRouter web w m rq s)"

section \<open>What a request can do\<close>

text \<open>The only change of a key is its revocation; events are only appended.\<close>

definition key_kept :: "ApiKeyRow \<Rightarrow> ApiKeyRow \<Rightarrow> bool" where
  "key_kept k k' \<longleftrightarrow> k' = k \<or> (k_RevokedAt k = None \<and> (\<exists>now. k' = k\<lparr>k_RevokedAt := Some now\<rparr>))"

definition history :: "db \<Rightarrow> db \<Rightarrow> bool" where
  "history s t \<longleftrightarrow> users t = users s \<and> list_all2 key_kept (api_keys s) (api_keys t)
     \<and> (\<exists>new. usage_events t = usage_events s @ new)"

definition db_ok :: "db \<Rightarrow> bool" where
  "db_ok s \<longleftrightarrow> identity_db_ok s \<and> usage_db_ok s"

lemma key_kept_refl [simp]: "key_kept k k"
  by (simp add: key_kept_def)

lemma key_kept_ids: "key_kept k k' \<Longrightarrow> k_ID k' = k_ID k \<and> k_KeyHash k' = k_KeyHash k \<and> k_UserID k' = k_UserID k"
  by (auto simp: key_kept_def)

lemma key_kept_trans: "key_kept a b \<Longrightarrow> key_kept b c \<Longrightarrow> key_kept a c"
  by (auto simp: key_kept_def)

lemma keys_kept_refl [simp]: "list_all2 key_kept ks ks"
  by (simp add: list_all2_refl)

lemma history_trans:
  assumes "history s t" "history t u"
  shows "history s u"
proof -
  have "list_all2 key_kept (api_keys s) (api_keys u)"
    using list_all2_trans [of key_kept key_kept key_kept] key_kept_trans assms unfolding history_def by blast
  then show ?thesis using assms by (auto simp: history_def)
qed

lemma history_same: "same_tables s t \<Longrightarrow> history s t"
  by (simp add: history_def same_tables_eq)

lemma history_identity: "same_identity s t \<Longrightarrow> usage_events t = usage_events s @ new \<Longrightarrow> history s t"
  by (auto simp: history_def same_identity_def)

lemma history_revoke:
  assumes "identity_db_ok s" "same_but_keys s t" "api_keys t = revoke_row i now (api_keys s)"
    and "\<exists>k \<in> set (api_keys s). k_ID k = i \<and> k_RevokedAt k = None"
  shows "history s t"
proof -
  have d: "distinct (map k_ID (api_keys s))" using assms(1) by (simp add: identity_db_ok_def keys_ok_def)
  have kept: "key_kept k (if k_ID k = i then k\<lparr>k_RevokedAt := Some now\<rparr> else k)" if "k \<in> set (api_keys s)" for k
  proof -
    have "k_RevokedAt k = None" if "k_ID k = i"
      using assms(4) d \<open>k \<in> set (api_keys s)\<close> that by (auto simp: distinct_map inj_on_def)
    then show ?thesis by (auto simp: key_kept_def)
  qed
  have "list_all2 key_kept (api_keys s) (api_keys t)"
    unfolding assms(3) revoke_row_def list_all2_map2 by (intro list.rel_refl_strong kept)
  then show ?thesis using same_but_keys_eq [OF assms(2)] by (simp add: history_def)
qed

lemma keys_kept_map: "list_all2 key_kept ks ks' \<Longrightarrow> map k_ID ks' = map k_ID ks \<and> map k_KeyHash ks' = map k_KeyHash ks"
  by (induction rule: list_all2_induct) (auto dest: key_kept_ids)

lemma history_identity_ok: "history s t \<Longrightarrow> identity_db_ok s \<Longrightarrow> identity_db_ok t"
  using keys_kept_map by (auto simp: history_def identity_db_ok_def keys_ok_def)

lemma history_found:
  assumes "history s t" "k \<in> set (api_keys s)"
  obtains k' where "k' \<in> set (api_keys t)" "key_kept k k'"
proof -
  obtain i where "i < length (api_keys s)" "k = api_keys s ! i" using assms(2) by (auto simp: in_set_conv_nth)
  with assms(1) have "api_keys t ! i \<in> set (api_keys t)" "key_kept k (api_keys t ! i)"
    by (simp_all add: history_def list_all2_conv_all_nth)
  then show ?thesis by (rule that)
qed

text \<open>Each surface, and with them every request.\<close>

lemma usage_db_ok_keys: "same_but_keys s t \<Longrightarrow> usage_db_ok t \<longleftrightarrow> usage_db_ok s"
  by (simp add: usage_db_ok_def same_but_keys_eq)

lemma api_v1_history:
  assumes "api_v1 e (NewUserRepo uuid n) (NewAPIKeyRepo g uuid' now) (NewRepo g conv) rq s = (rs, t)" "db_ok s"
  shows "history s t \<and> db_ok t"
  using assms(1)
proof (cases rule: api_v1_chain)
  case (handled op user u)
  have u: "history s u" "identity_db_ok u" "usage_db_ok u"
    using handled(2) assms(2) by (simp_all add: history_same db_ok_def identity_db_ok_same usage_db_ok_same)
  have "history u t \<and> usage_db_ok t"
  proof (cases "op = OpIngest")
    case True
    have run: "IngestUsageEventsBatch (NewRepo g conv) (en_uni e) (en_now1 e) (en_now2 e) rq (Some user) u = (rs, t)"
      using handled(6) True by (simp add: api_handler_def)
    note r = Ingest_run [OF run]
    have "\<exists>new. usage_events t = usage_events u @ new" using r by (cases "rs_Status rs = 201") auto
    then show ?thesis using r u(3) history_identity by blast
  next
    case False
    from api_handler_run [OF handled(6) u(2)] False
    consider "same_tables u t" | i where "same_but_keys u t" "\<exists>k \<in> set (api_keys u). k_ID k = i \<and> k_RevokedAt k = None"
      "api_keys t = revoke_row i now (api_keys u)" by blast
    then show ?thesis
    proof cases
      case 1
      then show ?thesis using u(3) by (simp add: history_same usage_db_ok_same)
    next
      case 2
      then show ?thesis using history_revoke [OF u(2) 2(1,3,2)] u(3) by (simp add: usage_db_ok_keys)
    qed
  qed
  then show ?thesis using u history_trans history_identity_ok unfolding db_ok_def by blast
qed (use assms(2) in \<open>simp_all add: history_same db_ok_def identity_db_ok_same usage_db_ok_same\<close>)

lemma api_bff_history:
  assumes "api_bff e (NewUserRepo uuid n) (NewAPIKeyRepo g uuid' now) (NewRepo g' conv) op rq s = (rs, t)" "db_ok s"
  shows "history s t \<and> db_ok t"
proof -
  have ok: "identity_db_ok s" "usage_db_ok s" using assms(2) by (simp_all add: db_ok_def)
  from bff_run [OF assms(1) ok(1)] consider "same_tables s t"
    | i where "same_but_keys s t" "\<exists>k \<in> set (api_keys s). k_ID k = i \<and> k_RevokedAt k = None"
      "api_keys t = revoke_row i now (api_keys s)" by auto
  then show ?thesis
  proof cases
    case 1
    then show ?thesis using ok by (simp add: history_same db_ok_def identity_db_ok_same usage_db_ok_same)
  next
    case 2
    have "history s t" by (rule history_revoke [OF ok(1) 2(1,3,2)])
    then show ?thesis using ok history_identity_ok usage_db_ok_keys [OF 2(1)] by (simp add: db_ok_def)
  qed
qed

lemma callback_history:
  assumes "NewCallbackHandler oauth rest_ok cfg signer idVerifier (NewUserRepo uuid n) rq s = (rs, t)"
    and "db_ok s"
  shows "history s t \<and> db_ok t"
proof -
  have "same_tables s t" using assms(1) by (cases rule: callback_cases) (use callback_owner_run in blast)+
  then show ?thesis using assms(2) by (simp add: history_same db_ok_def identity_db_ok_same usage_db_ok_same)
qed

text \<open>A handler that keeps the database keeps it behind the middlewares.\<close>

definition safe :: "db chain \<Rightarrow> bool" where
  "safe h \<longleftrightarrow> (\<forall>rq s r t. h rq s = (r, t) \<longrightarrow> db_ok s \<longrightarrow> history s t \<and> db_ok t)"

lemma safeD: "safe h \<Longrightarrow> h rq s = (r, t) \<Longrightarrow> db_ok s \<Longrightarrow> history s t \<and> db_ok t"
  by (simp add: safe_def)

lemma safe_keep: "(\<And>rq s. snd (h rq s) = s) \<Longrightarrow> safe h"
  by (metis safe_def snd_conv history_same same_tables_refl)

lemma safe_lift: "(\<And>rq s r t. h rq s = (r, t) \<Longrightarrow> db_ok s \<Longrightarrow> history s t \<and> db_ok t) \<Longrightarrow> safe (lift_chain h)"
  by (auto simp: safe_def lift_chain_def split: prod.splits)

lemma safe_middlewares: "safe h \<Longrightarrow> safe (RequestID fresh (Recovery h))"
  by (auto simp: safe_def RequestID_def Recovery_def Let_def split: prod.splits)

lemma safe_router:
  assumes "\<And>rq h. routes rq = Some h \<Longrightarrow> safe h" "safe noRoute"
  shows "safe (NewRouter fresh slash routes noRoute)"
proof -
  have "safe healthz" by (rule safe_keep) (simp add: healthz_def)
  note m = safe_middlewares [OF this, of fresh] safe_middlewares [OF assms(1), of _ _ fresh] safe_middlewares [OF assms(2), of fresh]
  show ?thesis
    unfolding safe_def NewRouter_def
    by (auto split: if_splits option.splits dest: m [THEN safeD] simp: history_same)
qed

lemma safe_api: "safe (apiRouter w m)"
  unfolding apiRouter_def
proof (rule safe_router)
  show "safe h" if "api_routes w m rq = Some h" for rq h
    using that api_v1_history
    by (auto simp: api_routes_def moment_users_def moment_keys_def moment_usage_def intro!: safe_lift
        split: option.splits prod.splits)
qed (simp add: safe_keep)

lemma safe_bff: "safe (bffRouter web w m)"
  unfolding bffRouter_def
proof (rule safe_router)
  show "safe h" if "bff_routes w m rq = Some h" for rq h
  proof -
    have "safe (lift_chain (\<lambda>rq s. (NewLoginHandler (mo_oauth m) (mo_rest_ok m) (wi_cfg w) (signer_of w m) (mo_pkce m) (mo_rnd m), s)))"
      by (rule safe_keep) (simp add: lift_chain_def)
    moreover have "safe (lift_chain (NewCallbackHandler (mo_oauth m) (mo_rest_ok m) (wi_cfg w) (signer_of w m) (wi_idVerifier w) (moment_users m)))"
      using callback_history by (auto intro!: safe_lift simp: moment_users_def split: prod.splits)
    moreover have "safe (lift_chain (api_bff e (moment_users m) (moment_keys m) (moment_usage m) op))" for e op
      using api_bff_history
      by (auto intro!: safe_lift simp: moment_users_def moment_keys_def moment_usage_def split: prod.splits)
    ultimately show ?thesis using that by (auto simp: bff_routes_def split: if_splits option.splits)
  qed
qed (rule safe_keep, simp add: bff_noRoute_def newSPAHandler_def Let_def)

lemma safe_serve: "safe (serve_mux web w m)"
proof -
  have "history s t \<and> db_ok t" if "serve_mux web w m rq s = (r, t)" "db_ok s" for rq s r t
    using that safeD [OF safe_api, of w m rq s r t] safeD [OF safe_bff, of web w m rq s r t]
    by (auto simp: serve_mux_def Let_def history_same split: if_splits)
  then show ?thesis by (simp add: safe_def)
qed

section \<open>Properties\<close>

text \<open>A server over time: requests one after the other, by processes of any wiring (it may have been
  restarted with other settings), each met by any surroundings and any failing statements.\<close>

inductive serves :: "db \<Rightarrow> db \<Rightarrow> bool" where
  start: "serves s s"
| request: "serves s t \<Longrightarrow> serve_mux web w m rq t = (r, u) \<Longrightarrow> serves s (u\<lparr>faults := fs\<rparr>)"

lemma faults_only: "same_tables s (s\<lparr>faults := fs\<rparr>)"
  by (simp add: same_tables_def)

lemma serves_history: "serves s t \<Longrightarrow> db_ok s \<Longrightarrow> history s t \<and> db_ok t"
proof (induction rule: serves.induct)
  case (start s)
  then show ?case by (simp add: history_same)
next
  case (request s t web w m rq r u fs)
  have "history t u \<and> db_ok u" using safeD [OF safe_serve request(2)] request by blast
  moreover have "history u (u\<lparr>faults := fs\<rparr>)" by (rule history_same [OF faults_only])
  ultimately show ?case
    using request faults_only [of u fs] history_trans
    by (metis db_ok_def identity_db_ok_same usage_db_ok_same)
qed

text \<open>
  C19. What the server does to its data in the long run. However many requests it serves, whatever they
  are, whatever fails and however often it is restarted with other settings: the tables stay well-formed
  (ids, handles, digests and subjects unique), no user is created or changed, no key is created and the
  only change to one is that a live key becomes revoked, and events are only appended.
\<close>

theorem server_history:
  assumes "serves s t" "db_ok s"
  shows "db_ok t \<and> users t = users s
    \<and> list_all2 (\<lambda>k k'. k' = k \<or> (k_RevokedAt k = None \<and> (\<exists>now. k' = k\<lparr>k_RevokedAt := Some now\<rparr>))) (api_keys s) (api_keys t)
    \<and> (\<exists>new. usage_events t = usage_events s @ new)"
  using serves_history [OF assms] unfolding history_def key_kept_def by blast

lemma serve_api:
  assumes "api_route rq = Some op" "serve_mux web w m rq s = (r, t)"
  shows "(\<exists>p. sd_Response r = mux_redirect m rq p \<and> t = s)
    \<or> (\<exists>r0. api_v1 ((mo_env m)\<lparr>en_jwt := wi_jwt w\<rparr>) (moment_users m) (moment_keys m) (moment_usage m) rq s = (r0, t)
        \<and> (rs_Body r0 \<noteq> Panic \<longrightarrow> sd_Response r = r0))"
proof -
  have route: "rq_Method rq \<noteq> ''CONNECT''" "rq_Path rq \<noteq> ''/api/v1''" "\<not> healthz_route rq"
    "strings_HasPrefix (rq_Path rq) ''/api/v1/''"
    using assms(1)
    by (auto simp: api_route_def healthz_route_def path_param_def strings_HasPrefix_def Let_def split: if_splits)
      (auto dest: arg_cong [where f = "take 8"])
  obtain r0 u where r0: "api_v1 ((mo_env m)\<lparr>en_jwt := wi_jwt w\<rparr>) (moment_users m) (moment_keys m) (moment_usage m) rq s = (r0, u)"
    by fastforce
  show ?thesis
  proof (cases "cleanPath (rq_Path rq) = rq_Path rq")
    case True
    then have "(r, t) = RequestID (mo_fresh m) (Recovery (lift_chain
        (api_v1 ((mo_env m)\<lparr>en_jwt := wi_jwt w\<rparr>) (moment_users m) (moment_keys m) (moment_usage m)))) rq s"
      using assms route by (simp add: serve_mux_def Let_def api_pattern_def apiRouter_def NewRouter_def api_routes_def)
    then have "t = u \<and> (rs_Body r0 \<noteq> Panic \<longrightarrow> sd_Response r = r0)"
      by (auto simp: RequestID_def Recovery_def lift_chain_def r0 plain_def Let_def)
    then show ?thesis using r0 by blast
  next
    case False
    then show ?thesis using assms(2) route by (auto simp: serve_mux_def Let_def plain_def split: if_splits)
  qed
qed

text \<open>
  C20. A revoked key is dead for good, across both surfaces: once the row of a token's digest is revoked
  (by its holder over /api/v1, by the owner over /api/bff, or by a rotation), no later request to
  /api/v1 that presents the token is handled, whatever the server served in between: it gets the 401
  (or the 400 for a declared actor, or the redirect to its clean path) and nothing changes.
\<close>

theorem revoked_for_good:
  assumes "serves s t" "db_ok s" "k \<in> set (api_keys s)" "k_RevokedAt k \<noteq> None" "k_KeyHash k = HashAPIKey token"
    and "bearerToken (rq_Header rq ''Authorization'') = Some token" "api_route rq = Some op"
    and "serve_mux web w m rq t = (r, u)"
  shows "same_tables t u
    \<and> (sd_Response r \<in> {respond 401 unauthorizedBody, abortActorFieldPresent} \<or> (\<exists>p. sd_Response r = mux_redirect m rq p))"
proof -
  have h: "history s t" "db_ok t" using serves_history [OF assms(1,2)] by simp_all
  obtain k' where k': "k' \<in> set (api_keys t)" "key_kept k k'" by (rule history_found [OF h(1) assms(3)])
  have dead: "k_RevokedAt k' \<noteq> None" "k_KeyHash k' = HashAPIKey token"
    using k'(2) assms(4,5) by (auto simp: key_kept_def)
  have "distinct (map k_KeyHash (api_keys t))" using h(2) by (simp add: db_ok_def identity_db_ok_def keys_ok_def)
  then have found: "find_key_hash t (HashAPIKey token) = Some k'"
    unfolding find_key_hash_def by (rule find_unique) (use k'(1) dead(2) in simp_all)
  from serve_api [OF assms(7,8)] show ?thesis
  proof (elim disjE exE conjE)
    fix r0
    assume run: "api_v1 ((mo_env m)\<lparr>en_jwt := wi_jwt w\<rparr>) (moment_users m) (moment_keys m) (moment_usage m) rq t = (r0, u)"
      and r0: "rs_Body r0 \<noteq> Panic \<longrightarrow> sd_Response r = r0"
    obtain a b where ub: "moment_users m = NewUserRepo a b" by (cases "mo_users m") (simp add: moment_users_def)
    obtain c d where kd: "moment_keys m = NewAPIKeyRepo (mo_engine m) c d" by (cases "mo_keys m") (simp add: moment_keys_def)
    have no: "ResolveActor (NewUserRepo a b) (NewAPIKeyRepo (mo_engine m) c d) j n (rq_Header rq ''Authorization'') t \<noteq> (Inr user, v)" for j n user v
      using dead_key_refused [OF found disjI1 [OF dead(1)] assms(6), of a b "mo_engine m" c d j n] by auto
    from run [unfolded ub kd] show ?thesis
      by (cases rule: api_v1_chain)
        (use assms(7) r0 no in \<open>auto simp: abortActorFieldPresent_def unauthorizedBody_def NewErrorEnvelope_def\<close>)
  qed auto
qed


lemma HasPrefix_slash: "strings_HasPrefix p ''/'' \<longleftrightarrow> (\<exists>x. p = CHR ''/'' # x)"
  by (cases p) (auto simp: strings_HasPrefix_def)

lemma HasSuffix_slash: "strings_HasSuffix p ''/'' \<longleftrightarrow> p \<noteq> [] \<and> last p = CHR ''/''"
proof (cases p rule: rev_cases)
  case (snoc q c)
  then show ?thesis by (simp add: strings_HasSuffix_def)
qed (simp add: strings_HasSuffix_def)












section \<open>Redirects\<close>

lemma join_on_last: "es \<noteq> [] \<Longrightarrow> \<forall>e \<in> set es. plain_elem e \<Longrightarrow> join_on c es \<noteq> [] \<and> last (join_on c es) \<noteq> CHR ''/''"
  by (induction c es rule: join_on.induct) (auto simp: plain_elem_def dest: last_in_set)

lemma Clean_rooted_id:
  assumes "strings_HasPrefix p ''/''"
  shows "filepath_Clean (filepath_Clean p) = filepath_Clean p"
    and "filepath_Clean (filepath_Clean p @ ''/'') = filepath_Clean p"
    and "strings_HasSuffix (filepath_Clean p) ''/'' \<Longrightarrow> filepath_Clean p = ''/''"
proof -
  note e = path_elems_Clean [OF assms]
  have c: "filepath_Clean q = CHR ''/'' # join_on (CHR ''/'') (path_elems q)" if "strings_HasPrefix q ''/''" for q
    using that by (auto simp: filepath_Clean_def Let_def HasPrefix_slash)
  show "filepath_Clean (filepath_Clean p) = filepath_Clean p" using e c [OF assms] c by simp
  have pre: "strings_HasPrefix (filepath_Clean p @ ''/'') ''/''" using e by (auto simp: HasPrefix_slash)
  have "path_elems (filepath_Clean p @ ''/'') = path_elems (filepath_Clean p)"
    using e pre by (simp add: path_elems_def split_on_append clean_step_def)
  then show "filepath_Clean (filepath_Clean p @ ''/'') = filepath_Clean p" using e c [OF assms] c [OF pre] by simp
  show "filepath_Clean p = ''/''" if "strings_HasSuffix (filepath_Clean p) ''/''"
    using that join_on_last [OF _ path_elems_plain [OF assms], of "CHR ''/''"]
    by (cases "path_elems p = []") (auto simp: c [OF assms] HasSuffix_slash split: if_splits)
qed

lemma cleanPath_idem: "cleanPath (cleanPath p) = cleanPath p"
proof (cases "p = []")
  case True
  have "cleanPath ''/'' = ''/''" by code_simp
  then show ?thesis using True by (simp add: cleanPath_def)
next
  case False
  define q where "q = (if strings_HasPrefix p ''/'' then p else CHR ''/'' # p)"
  have q: "strings_HasPrefix q ''/''" by (simp add: q_def HasPrefix_slash)
  have p: "cleanPath p = (if strings_HasSuffix q ''/'' \<and> filepath_Clean q \<noteq> ''/'' then filepath_Clean q @ ''/'' else filepath_Clean q)"
    using False by (simp add: cleanPath_def q_def Let_def)
  have rooted: "cleanPath x = (if strings_HasSuffix x ''/'' \<and> filepath_Clean x \<noteq> ''/'' then filepath_Clean x @ ''/'' else filepath_Clean x)"
    if "strings_HasPrefix x ''/''" for x
    using that by (auto simp: cleanPath_def Let_def HasPrefix_slash)
  have n: "strings_HasPrefix (filepath_Clean q) ''/''" "strings_HasPrefix (filepath_Clean q @ ''/'') ''/''"
    using path_elems_Clean [OF q] by (auto simp: HasPrefix_slash)
  have suffix: "strings_HasSuffix (filepath_Clean q @ ''/'') ''/''" by (simp add: HasSuffix_slash)
  note id = Clean_rooted_id [OF q] and fixed = rooted [OF n(1)] and slashed = rooted [OF n(2)]
  show ?thesis
  proof (cases "strings_HasSuffix q ''/'' \<and> filepath_Clean q \<noteq> ''/''")
    case True
    then show ?thesis using slashed suffix id(2) by (simp add: p)
  next
    case False
    then have "cleanPath p = filepath_Clean q" using p by simp
    moreover have "cleanPath (filepath_Clean q) = filepath_Clean q"
      using id(3) unfolding fixed id(1) by auto
    ultimately show ?thesis by simp
  qed
qed

definition landing :: "string \<Rightarrow> string" where
  "landing p = (if cleanPath p = ''/api/v1'' then ''/api/v1/'' else cleanPath p)"

text \<open>
  No redirect loop: the mux hands a request to one of its two engines or redirects it to the cleaned
  path, and the request of a client that follows is handed to an engine, whatever the path was and
  whatever the database became.
\<close>

lemma redirects_end:
  assumes "rq_Method rq \<noteq> ''CONNECT''"
  shows "serve_mux web w m rq s = (if landing (rq_Path rq) \<noteq> rq_Path rq then (plain (mux_redirect m rq (landing (rq_Path rq))), s)
      else if api_pattern (rq_Path rq) then apiRouter w m rq s else bffRouter web w m rq s)
    \<and> landing (landing (rq_Path rq)) = landing (rq_Path rq)"
proof -
  have api: "cleanPath ''/api/v1/'' = ''/api/v1/''" "cleanPath ''/api/v1'' = ''/api/v1''" "api_pattern ''/api/v1/''" by code_simp+
  have "landing (landing (rq_Path rq)) = landing (rq_Path rq)"
    by (simp add: landing_def api cleanPath_idem)
  moreover have "landing p = p \<longleftrightarrow> cleanPath p = p \<and> p \<noteq> ''/api/v1''" for p
    using api by (auto simp: landing_def)
  ultimately show ?thesis
    using assms by (auto simp: serve_mux_def Let_def landing_def)
qed

section \<open>Dormant seams\<close>

text \<open>Without an issuer the process starts, builds no verifier, accepts no JWT and no owner login.\<close>

lemma dormant:
  assumes "cf_SSOIssuer cfg = []" "buildWiring newVerifier rnd cfg = Inr w"
  shows "wi_jwt w = None \<and> wi_idVerifier w = None \<and> wi_cfg w = cfg \<and> \<not> configured (wi_cfg w)"
  using assms by (auto simp: buildWiring_def optional_verifier_def configured_def split: sum.splits)

lemma starts_without_sso:
  "cf_SSOIssuer cfg = [] \<Longrightarrow> rnd = Inr x \<Longrightarrow> \<exists>w. buildWiring newVerifier rnd cfg = Inr w"
  by (simp add: buildWiring_def optional_verifier_def session_secret_def rand_Read_def)

section \<open>Concrete requests\<close>

definition sample_wiring :: Wiring where
  "sample_wiring = \<lparr>wi_cfg = sample_cfg, wi_jwt = None, wi_idVerifier = None, wi_secret = ''k''\<rparr>"

definition sample_moment :: Moment where
  "sample_moment = \<lparr>mo_env = sample_env, mo_bff = sample_bff_env, mo_signer_now = (0, 0), mo_users = (''new-u'', 10),
     mo_keys = (''new-k'', 10), mo_engine = plain_engine, mo_conv = (\<lambda>_. 0), mo_oauth = sample_oauth,
     mo_rest_ok = (\<lambda>_. True), mo_pkce = [], mo_rnd = Inr [], mo_fresh = ''r1'', mo_slash = (\<lambda>_. None),
     mo_mux_status = 307, mo_loc = (\<lambda>_ p. p)\<rparr>"

definition sample_web :: fnode where
  "sample_web = DirN True [(''assets'', DirN True [(''a.js'', FileN True ''js'')]), (''index.html'', FileN True ''page'')]"

lemma sample_db_ok: "db_ok sample_idb"
  using sample_idb_facts(2) by (simp add: db_ok_def usage_db_ok_def sample_idb_with_def empty_db_def)

lemma sample_moment_repos: "moment_users sample_moment = sample_users" "moment_keys sample_moment = sample_keys"
  "moment_usage sample_moment = sample_usage" "(mo_env sample_moment)\<lparr>en_jwt := wi_jwt sample_wiring\<rparr> = sample_env"
  by (simp_all add: sample_moment_def moment_users_def moment_keys_def moment_usage_def sample_env_def sample_wiring_def)

lemma sample_clean: "cleanPath ''/api/v1/keys/k1'' = ''/api/v1/keys/k1''" "cleanPath ''/api/v1/me'' = ''/api/v1/me''"
  "cleanPath ''/settings'' = ''/settings''" "api_pattern ''/api/v1/keys/k1''" "api_pattern ''/api/v1/me''" "\<not> api_pattern ''/settings''"
  by code_simp+

lemma sample_revoked:
  obtains r t where "serve_mux sample_web sample_wiring sample_moment (sample_rq ''DELETE'' ''/api/v1/keys/k1'' []) sample_idb = (r, t)"
    "sd_Response r = respond 204 NoBody" "sd_Header r = [(RequestIDHeader, ''r1'')]"
    "api_keys t = [(sample_key (HashAPIKey ''tpl_x''))\<lparr>k_RevokedAt := Some 10\<rparr>]"
proof -
  let ?rq = "sample_rq ''DELETE'' ''/api/v1/keys/k1'' []"
  obtain t where t: "api_v1 sample_env sample_users sample_keys sample_usage ?rq sample_idb = (respond 204 NoBody, t)"
    "api_keys t = [(sample_key (HashAPIKey ''tpl_x''))\<lparr>k_RevokedAt := Some 10\<rparr>]"
    using sample_revoke by blast
  have rq: "rq_Method ?rq = ''DELETE''" "rq_Path ?rq = ''/api/v1/keys/k1''" "rq_Header ?rq RequestIDHeader = []"
    by (simp_all add: sample_rq_def RequestIDHeader_def)
  show ?thesis
    by (rule that [of "\<lparr>sd_Response = respond 204 NoBody, sd_Header = [(RequestIDHeader, ''r1'')]\<rparr>" t])
      (simp_all add: serve_mux_def rq sample_clean apiRouter_def NewRouter_def healthz_route_def api_routes_def
        sample_routes(1) sample_moment_repos RequestID_def Recovery_def lift_chain_def t plain_def,
       simp add: sample_moment_def)
qed

theorem server_history_witness:
  "\<exists>t. serves sample_idb t \<and> db_ok t \<and> users t = users sample_idb
     \<and> api_keys t = [(sample_key (HashAPIKey ''tpl_x''))\<lparr>k_RevokedAt := Some 10\<rparr>]"
proof -
  obtain r t where t: "serve_mux sample_web sample_wiring sample_moment (sample_rq ''DELETE'' ''/api/v1/keys/k1'' []) sample_idb = (r, t)"
    "api_keys t = [(sample_key (HashAPIKey ''tpl_x''))\<lparr>k_RevokedAt := Some 10\<rparr>]"
    by (rule sample_revoked)
  have s: "serves sample_idb (t\<lparr>faults := []\<rparr>)" by (rule serves.request [OF serves.start t(1)])
  from server_history [OF s sample_db_ok] s t(2) show ?thesis by (intro exI [of _ "t\<lparr>faults := []\<rparr>"]) simp
qed

theorem revoked_for_good_witness:
  "\<exists>t r u. serves sample_idb t
     \<and> serve_mux sample_web sample_wiring sample_moment (sample_rq ''GET'' ''/api/v1/me'' []) t = (r, u) \<and> same_tables t u"
proof -
  obtain r t where t: "serve_mux sample_web sample_wiring sample_moment (sample_rq ''DELETE'' ''/api/v1/keys/k1'' []) sample_idb = (r, t)"
    "api_keys t = [(sample_key (HashAPIKey ''tpl_x''))\<lparr>k_RevokedAt := Some 10\<rparr>]"
    by (rule sample_revoked)
  have s: "serves sample_idb (t\<lparr>faults := []\<rparr>)" by (rule serves.request [OF serves.start t(1)])
  obtain r2 u where u: "serve_mux sample_web sample_wiring sample_moment (sample_rq ''GET'' ''/api/v1/me'' []) (t\<lparr>faults := []\<rparr>) = (r2, u)"
    by fastforce
  have ok: "db_ok (t\<lparr>faults := []\<rparr>)" using serves_history [OF s sample_db_ok] by blast
  have route: "api_route (sample_rq ''GET'' ''/api/v1/me'' []) = Some OpGetMe" by (simp add: api_route_def sample_rq_def)
  from revoked_for_good [OF serves.start ok _ _ _ _ route u, of "(sample_key (HashAPIKey ''tpl_x''))\<lparr>k_RevokedAt := Some 10\<rparr>" "''tpl_x''"]
  have "same_tables (t\<lparr>faults := []\<rparr>) u" using t(2) sample_token by (simp add: sample_rq_def sample_key_def)
  then show ?thesis using s u by blast
qed


lemma redirects_end_witness:
  "landing ''/x/../settings'' = ''/settings''
   \<and> serve_mux sample_web sample_wiring sample_moment (sample_rq ''GET'' ''/x/../settings'' []) sample_idb
     = (plain (mux_redirect sample_moment (sample_rq ''GET'' ''/x/../settings'' []) ''/settings''), sample_idb)
   \<and> landing ''/settings'' = ''/settings''"
proof -
  have rq: "rq_Method (sample_rq ''GET'' ''/x/../settings'' []) = ''GET''" "rq_Path (sample_rq ''GET'' ''/x/../settings'' []) = ''/x/../settings''"
    by (simp_all add: sample_rq_def)
  have l: "landing ''/x/../settings'' = ''/settings''" by code_simp
  have get: "rq_Method (sample_rq ''GET'' ''/x/../settings'' []) \<noteq> ''CONNECT''" by (simp add: rq)
  show ?thesis using redirects_end [OF get] by (simp add: rq l del: rq(2) [symmetric])
qed

end
