(* ===== verification/Commands.thy ===== *)
theory Commands
  imports Identity_Service GoPath
begin

text \<open>
  src/cmd/seed/main.go and src/cmd/issue-key (main.go, keyfile.go): the commands that write the identity
  tables and the key files an agent reads its key from. The database is already opened and migrated; the
  home directory, the random bytes and the clock are arguments; the bash resolver script is the text of
  the source, and \<open>resolver_run\<close> is what that script does when it is run; file modes are
  left out, and of what a command prints only the key is kept.
\<close>

section \<open>seed\<close>

definition ownerHandle :: string where "ownerHandle = ''owner''"

record seedResult =
  se_user :: User
  se_alreadyExisted :: bool

definition seedOwner :: "'s UserRepo \<Rightarrow> string \<Rightarrow> ('s, go_error, seedResult) io" where
  "seedOwner repo ssoSubject s =
     (if ssoSubject = [] then (Inl (TextErr ''SEED_OWNER_SSO_SUBJECT is not set''), s)
      else case GetUserBySSOSubject repo ssoSubject s of
        (Inr existing, t) \<Rightarrow> (Inr \<lparr>se_user = existing, se_alreadyExisted = True\<rparr>, t)
      | (Inl err, t) \<Rightarrow>
          if \<not> errors_Is err ErrNotFound then (Inl (Wrap ''looking up existing owner by sso_subject'' err), t)
          else (case CreateUser repo ownerHandle ''owner'' (Some ssoSubject) t of
              (Inl err, u) \<Rightarrow> (Inl (Wrap ''creating owner row'' err), u)
            | (Inr created, u) \<Rightarrow> (Inr \<lparr>se_user = created, se_alreadyExisted = False\<rparr>, u)))"

section \<open>Key files\<close>

definition myTokenBaseDir :: "string \<Rightarrow> os_error + string" where
  "myTokenBaseDir home = (if home = [] then Inl NotExist else Inr (filepath_Join [home, ''.my-token'']))"

definition writeKeyFile :: "string \<Rightarrow> string \<Rightarrow> string \<Rightarrow> (filesystem, os_error, string) io" where
  "writeKeyFile baseDir handle rawKey fs =
     (let keysDir = filepath_Join [baseDir, ''keys''] in
      case os_MkdirAll fs keysDir of
        Inl err \<Rightarrow> (Inl err, fs)
      | Inr fs1 \<Rightarrow>
          (let path = filepath_Join [keysDir, handle] in
           case os_WriteFile fs1 path rawKey of
             Inl err \<Rightarrow> (Inl err, fs1) | Inr fs2 \<Rightarrow> (Inr path, fs2)))"

text \<open>The resolver script, line by line; every line ends in a newline.\<close>

definition resolverScript :: string where
  "resolverScript = concat (map (\<lambda>line. line @ [CHR 0x0A])
   [''#!/usr/bin/env bash'',
    ''set -euo pipefail'',
    ''# Resolves this service's agent API key without ever putting the value into'',
    ''# an agent's own context. Invoke it via shell expansion so the value flows'',
    ''# straight into the request and is never echoed, logged, or read into an'',
    ''# LLM's context window (see _rules/_contract/INVARIANTS.md, I14):'',
    ''#'',
    ''#   curl -H \"Authorization: Bearer $(~/.my-token/bin/key)\" ...'',
    ''#'',
    ''# Call it with NO ARGUMENT wherever the environment already says which crew'',
    ''# this is, which is the documented form and the only one a skill should show.'',
    ''# Resolution order: explicit argument, then MY_TOKEN_CREW, then'',
    ''# TYP_CREW_NAME.'',
    ''#'',
    ''# The last one is host-specific on purpose. This service and its companion'',
    ''# skill know only MY_TOKEN_CREW; mapping that to whatever a particular'',
    ''# host calls a crew belongs in this resolver, which is a host-side artifact'',
    ''# rather than part of the app. Moving to a host that names crews differently'',
    ''# is a one-line edit here and touches nothing else. Without it there is'',
    ''# nowhere per-crew to set MY_TOKEN_CREW at all on a host where every crew'',
    ''# shares one HOME.'',
    [],
    ''# An argument that is PRESENT BUT EMPTY is a mistake, not an omission '' @ [CHR 0xE2, CHR 0x80, CHR 0x94] @ '' it is'',
    ''# almost always \"$SOME_VAR\" where the variable is unset. Bash's ${1:-...}'',
    ''# treats that identically to no argument at all and falls through to the'',
    ''# environment, so the call succeeds, returns the caller's own key, and looks'',
    ''# right. That is how a documented-but-wrong invocation once survived'',
    ''# undetected on my-task's own host: a skill showed key \"$MY_TASK_CREW\",'',
    ''# MY_TASK_CREW was set nowhere, and the accidental fallthrough made a'',
    ''# forbidden form work anyway (found by tiana, reading the guide cold).'',
    ''# Refuse it here too, before a fork of this template repeats the same'',
    ''# mistake on a host of its own.'',
    ''if [ \"$#\" -gt 0 ] && [ -z \"$1\" ]; then'',
    ''  echo \"key: an argument was given but is empty '' @ [CHR 0xE2, CHR 0x80, CHR 0x94] @ '' a variable in it is unset.\" >&2'',
    ''  echo \"     If you meant 'this crew', pass no argument at all: '' @ [CHR 0x5C] @ ''$(~/.my-token/bin/key)\" >&2'',
    ''  exit 1'',
    ''fi'',
    [],
    ''CREW=\"${1-${MY_TOKEN_CREW:-${TYP_CREW_NAME:-}}}\"'',
    ''if [ -z \"$CREW\" ]; then'',
    ''  echo \"usage: key <crew>   (or set MY_TOKEN_CREW)\" >&2'',
    ''  exit 1'',
    ''fi'',
    [],
    ''KEY_FILE=\"$HOME/.my-token/keys/$CREW\"'',
    ''if [ ! -f \"$KEY_FILE\" ]; then'',
    ''  echo \"no key file for crew '$CREW' at $KEY_FILE\" >&2'',
    ''  exit 1'',
    ''fi'',
    [],
    ''# 0600 on the key file above is a rule, not an isolation guarantee: every'',
    ''# crew on a shared-uid host can read every other crew's key file regardless'',
    ''# of the mode bit. It exists so a deliberate widening of that mode is'',
    ''# visible in a diff, not to keep this file private from anything running as'',
    ''# the same user.'',
    ''cat \"$KEY_FILE\"''])"

definition ensureKeyResolver :: "string \<Rightarrow> (filesystem, os_error, string) io" where
  "ensureKeyResolver baseDir fs =
     (let binDir = filepath_Join [baseDir, ''bin''] in
      case os_MkdirAll fs binDir of
        Inl err \<Rightarrow> (Inl err, fs)
      | Inr fs1 \<Rightarrow>
          (let path = filepath_Join [binDir, ''key''];
               write = (case os_WriteFile fs1 path resolverScript of Inl err \<Rightarrow> (Inl err, fs1) | Inr fs2 \<Rightarrow> (Inr path, fs2))
           in case os_ReadFile fs1 path of
             Inr existing \<Rightarrow> if existing = resolverScript then (Inr path, fs1) else write
           | Inl err \<Rightarrow> if err \<noteq> NotExist then (Inl err, fs1) else write))"

text \<open>What the resolver script does when it is run: \<open>arg\<close> is its first argument, if any, and an unset variable
  is empty; the exit status and what goes to the standard output. Running the file bin/key is defined only
  while it holds that script.\<close>

definition resolver_run :: "string \<Rightarrow> string option \<Rightarrow> string \<Rightarrow> string \<Rightarrow> filesystem \<Rightarrow> nat \<times> string" where
  "resolver_run home arg my_token_crew typ_crew_name fs =
     (if arg = Some [] then (1, [])
      else let crew = (case arg of Some a \<Rightarrow> a | None \<Rightarrow> if my_token_crew \<noteq> [] then my_token_crew else typ_crew_name) in
        if crew = [] then (1, [])
        else (case os_ReadFile fs (home @ ''/.my-token/keys/'' @ crew) of
            Inl _ \<Rightarrow> (1, []) | Inr key \<Rightarrow> (0, key)))"

definition exec_key :: "string \<Rightarrow> string option \<Rightarrow> string \<Rightarrow> string \<Rightarrow> filesystem \<Rightarrow> (nat \<times> string) option" where
  "exec_key home arg my_token_crew typ_crew_name fs = (case os_ReadFile fs (home @ ''/.my-token/bin/key'') of
     Inl _ \<Rightarrow> None
   | Inr script \<Rightarrow> if script = resolverScript then Some (resolver_run home arg my_token_crew typ_crew_name fs) else None)"

section \<open>issue-key\<close>

datatype command_error = ServiceErr go_error | HomeErr os_error | KeyFileErr os_error | ResolverErr os_error

definition persistKeyAndResolver :: "string \<Rightarrow> string \<Rightarrow> string \<Rightarrow> (filesystem, command_error, unit) io" where
  "persistKeyAndResolver home handle rawKey fs =
     (case myTokenBaseDir home of
        Inl err \<Rightarrow> (Inl (HomeErr err), fs)
      | Inr base \<Rightarrow>
          (case writeKeyFile base handle rawKey fs of
             (Inl err, fs1) \<Rightarrow> (Inl (KeyFileErr err), fs1)
           | (Inr _, fs1) \<Rightarrow>
               (case ensureKeyResolver base fs1 of
                  (Inl err, fs2) \<Rightarrow> (Inl (ResolverErr err), fs2)
                | (Inr _, fs2) \<Rightarrow> (Inr (), fs2))))"

text \<open>The raw key that is printed when the command succeeds.\<close>

definition persist_new ::
    "string \<Rightarrow> string \<Rightarrow> go_error + string \<Rightarrow> 's \<times> filesystem \<Rightarrow> (command_error + string) \<times> 's \<times> filesystem" where
  "persist_new home handle r st =
     (case r of
        Inl err \<Rightarrow> (Inl (ServiceErr err), st)
      | Inr rawKey \<Rightarrow>
          (case persistKeyAndResolver home handle rawKey (snd st) of
             (Inl err, fs) \<Rightarrow> (Inl err, (fst st, fs)) | (Inr _, fs) \<Rightarrow> (Inr rawKey, (fst st, fs))))"

definition issue_key_run ::
    "string \<Rightarrow> 's UserRepo \<Rightarrow> 's APIKeyRepo \<Rightarrow> go_error + string \<Rightarrow> time \<Rightarrow> string \<Rightarrow> 's \<times> filesystem
     \<Rightarrow> (command_error + string) \<times> 's \<times> filesystem"
where
  "issue_key_run home usrs keys rnd now handle st =
     (case IssueAPIKeyForHandle usrs keys rnd now handle (fst st) of
        (r, t) \<Rightarrow> persist_new home handle (case r of Inl err \<Rightarrow> Inl err | Inr result \<Rightarrow> Inr (iss_RawKey result)) (t, snd st))"

definition runRotate ::
    "string \<Rightarrow> 's UserRepo \<Rightarrow> 's APIKeyRepo \<Rightarrow> go_error + string \<Rightarrow> time \<Rightarrow> string \<Rightarrow> 's \<times> filesystem
     \<Rightarrow> (command_error + string) \<times> 's \<times> filesystem"
where
  "runRotate home usrs keys rnd now handle st =
     (case Rotate usrs keys rnd now handle (fst st) of
        (r, t) \<Rightarrow> persist_new home handle (case r of Inl err \<Rightarrow> Inl err | Inr result \<Rightarrow> Inr (rot_RawKey result)) (t, snd st))"

text \<open>The exit status and what it prints.\<close>

definition issue_key_main ::
    "string \<Rightarrow> 's UserRepo \<Rightarrow> 's APIKeyRepo \<Rightarrow> go_error + string \<Rightarrow> time \<Rightarrow> bool \<Rightarrow> string \<Rightarrow> 's \<times> filesystem
     \<Rightarrow> (nat \<times> string option) \<times> 's \<times> filesystem"
where
  "issue_key_main home usrs keys rnd now rot handle st =
     (if handle = [] then ((2, None), st)
      else case (if rot then runRotate home usrs keys rnd now handle st
                 else issue_key_run home usrs keys rnd now handle st) of
        (Inl err, st') \<Rightarrow> ((1, None), st') | (Inr rawKey, st') \<Rightarrow> ((0, Some rawKey), st'))"

section \<open>Files\<close>

definition key_path :: "string \<Rightarrow> string \<Rightarrow> string list" where
  "key_path home handle = path_elems home @ [''.my-token'', ''keys'', handle]"

definition resolver_path :: "string \<Rightarrow> string list" where
  "resolver_path home = path_elems home @ [''.my-token'', ''bin'', ''key'']"

lemma plain_names: "plain_elem ''.my-token''" "plain_elem ''keys''" "plain_elem ''bin''" "plain_elem ''key''"
  by (simp_all add: plain_elem_def)

lemma fs_path_rooted: "strings_HasPrefix p ''/'' \<Longrightarrow> fs_path fs p = path_elems p"
  by (simp add: fs_path_def)

lemma base_paths:
  assumes "strings_HasPrefix home ''/''" "plain_elem handle" "myTokenBaseDir home = Inr base"
  shows "fs_path fs (filepath_Join [filepath_Join [base, ''keys''], handle]) = key_path home handle"
    and "fs_path fs (filepath_Join [filepath_Join [base, ''bin''], ''key'']) = resolver_path home"
proof -
  have b: "path_elems base = path_elems home @ [''.my-token''] \<and> strings_HasPrefix base ''/''"
    using assms(3) path_elems_Join [OF assms(1) plain_names(1)] by (auto simp: myTokenBaseDir_def split: if_splits)
  note k = path_elems_Join [OF conjunct2 [OF b] plain_names(2)] and d = path_elems_Join [OF conjunct2 [OF b] plain_names(3)]
  show "fs_path fs (filepath_Join [filepath_Join [base, ''keys''], handle]) = key_path home handle"
    using path_elems_Join [OF conjunct2 [OF k] assms(2)] k b by (simp add: fs_path_rooted key_path_def)
  show "fs_path fs (filepath_Join [filepath_Join [base, ''bin''], ''key'']) = resolver_path home"
    using path_elems_Join [OF conjunct2 [OF d] plain_names(4)] d b by (simp add: fs_path_rooted resolver_path_def)
qed

lemma path_elems_snoc:
  assumes "strings_HasPrefix p ''/''" "plain_elem e"
  shows "path_elems (p @ CHR ''/'' # e) = path_elems p @ [e]"
proof -
  have "strings_HasPrefix (p @ CHR ''/'' # e) ''/''" using assms(1) by (cases p) (auto simp: strings_HasPrefix_def)
  then show ?thesis using assms by (simp add: path_elems_def split_on_append split_on_none plain_elem_def clean_step_plain)
qed

lemma WriteFile_find: "os_WriteFile fs p s = Inr fs' \<Longrightarrow> fs_find (fs_root fs') (fs_path fs p) = Inr (FileN True s)"
  by (auto simp: os_WriteFile_def dest!: fs_write_find split: if_splits sum.splits)

lemma WriteFile_keeps:
  "os_WriteFile fs p s = Inr fs' \<Longrightarrow> fs_find (fs_root fs) q = Inr (FileN r c) \<Longrightarrow> q \<noteq> fs_path fs p
    \<Longrightarrow> fs_find (fs_root fs') q = Inr (FileN r c)"
  by (auto simp: os_WriteFile_def dest: fs_write_keeps split: if_splits sum.splits)

lemma MkdirAll_keeps:
  "os_MkdirAll fs p = Inr fs' \<Longrightarrow> fs_find (fs_root fs) q = Inr (FileN r c) \<Longrightarrow> fs_find (fs_root fs') q = Inr (FileN r c)"
  by (auto simp: os_MkdirAll_def dest: fs_mkdirs_keeps split: sum.splits)

text \<open>After a run both files are there, and every other file is as it was.\<close>

lemma persist_ok:
  assumes "persistKeyAndResolver home handle raw fs = (Inr (), fs')"
    and "strings_HasPrefix home ''/''" "plain_elem handle"
  shows "fs_find (fs_root fs') (key_path home handle) = Inr (FileN True raw)
    \<and> fs_find (fs_root fs') (resolver_path home) = Inr (FileN True resolverScript)
    \<and> (\<forall>q r c. fs_find (fs_root fs) q = Inr (FileN r c) \<longrightarrow> q \<notin> {key_path home handle, resolver_path home}
        \<longrightarrow> fs_find (fs_root fs') q = Inr (FileN r c))"
proof -
  obtain base where base: "myTokenBaseDir home = Inr base" using assms(1) by (auto simp: persistKeyAndResolver_def split: sum.splits)
  note paths = base_paths [OF assms(2,3) base]
  obtain p fs1 where w: "writeKeyFile base handle raw fs = (Inr p, fs1)"
    using assms(1) by (auto simp: persistKeyAndResolver_def base split: prod.splits sum.splits)
  obtain p2 where e: "ensureKeyResolver base fs1 = (Inr p2, fs')"
    using assms(1) by (auto simp: persistKeyAndResolver_def base w split: prod.splits sum.splits)
  obtain fsa where a: "os_MkdirAll fs (filepath_Join [base, ''keys'']) = Inr fsa"
    "os_WriteFile fsa (filepath_Join [filepath_Join [base, ''keys''], handle]) raw = Inr fs1"
    using w by (auto simp: writeKeyFile_def Let_def split: sum.splits)
  note key = WriteFile_find [OF a(2), unfolded paths(1)]
  obtain fsb where b: "os_MkdirAll fs1 (filepath_Join [base, ''bin'']) = Inr fsb"
    "(os_ReadFile fsb (filepath_Join [filepath_Join [base, ''bin''], ''key'']) = Inr resolverScript \<and> fs' = fsb)
     \<or> os_WriteFile fsb (filepath_Join [filepath_Join [base, ''bin''], ''key'']) resolverScript = Inr fs'"
    using e by (auto simp: ensureKeyResolver_def Let_def split: sum.splits if_splits)
  have ne: "key_path home handle \<noteq> resolver_path home" by (simp add: key_path_def resolver_path_def)
  have keep: "fs_find (fs_root fs') q = Inr (FileN r c)"
    if "fs_find (fs_root fs1) q = Inr (FileN r c)" "q \<noteq> resolver_path home" for q r c
    using b(2) MkdirAll_keeps [OF b(1) that(1)] WriteFile_keeps [of fsb _ resolverScript fs' q r c] that(2) paths(2) by auto
  have "fs_find (fs_root fs') (resolver_path home) = Inr (FileN True resolverScript)"
    using b(2)
  proof
    assume r: "os_ReadFile fsb (filepath_Join [filepath_Join [base, ''bin''], ''key'']) = Inr resolverScript \<and> fs' = fsb"
    then have "os_ReadFile fs' (filepath_Join [filepath_Join [base, ''bin''], ''key'']) = Inr resolverScript" by simp
    then show ?thesis
      unfolding os_ReadFile_node paths(2) by (auto simp: node_read_def split: if_splits sum.splits fnode.splits)
  next
    assume "os_WriteFile fsb (filepath_Join [filepath_Join [base, ''bin''], ''key'']) resolverScript = Inr fs'"
    from WriteFile_find [OF this] show ?thesis unfolding paths(2) .
  qed
  moreover have "fs_find (fs_root fs') (key_path home handle) = Inr (FileN True raw)" by (rule keep [OF key ne])
  moreover have "fs_find (fs_root fs') q = Inr (FileN r c)"
    if "fs_find (fs_root fs) q = Inr (FileN r c)" "q \<notin> {key_path home handle, resolver_path home}" for q r c
    using keep WriteFile_keeps [OF a(2) MkdirAll_keeps [OF a(1) that(1)]] that(2) paths(1) by auto
  ultimately show ?thesis by blast
qed

text \<open>The script then prints that key for this handle, however it learns the handle.\<close>

lemma below_home:
  assumes "strings_HasPrefix home ''/''" "plain_elem d" "plain_elem e"
  shows "fs_path fs (home @ ''/.my-token/'' @ d @ CHR ''/'' # e) = path_elems home @ [''.my-token'', d, e]"
proof -
  obtain h where h: "home = CHR ''/'' # h" using assms(1) by (cases home) (auto simp: strings_HasPrefix_def)
  have pre: "strings_HasPrefix (home @ x) ''/''" for x by (simp add: h strings_HasPrefix_def)
  define p where "p = home @ CHR ''/'' # ''.my-token''"
  define q where "q = p @ CHR ''/'' # d"
  have rooted: "strings_HasPrefix p ''/''" "strings_HasPrefix q ''/''"
    using pre by (simp_all only: p_def q_def append_assoc)
  have "path_elems q = path_elems p @ [d]" "path_elems p = path_elems home @ [''.my-token'']"
    unfolding p_def q_def using path_elems_snoc plain_names assms rooted(1) [unfolded p_def] by blast+
  then have "path_elems (q @ CHR ''/'' # e) = path_elems home @ [''.my-token'', d, e]"
    using path_elems_snoc [OF rooted(2) assms(3)] by simp
  moreover have "q @ CHR ''/'' # e = home @ ''/.my-token/'' @ d @ CHR ''/'' # e" by (simp add: q_def p_def)
  ultimately show ?thesis using fs_path_rooted [OF pre] by metis
qed

lemma resolver_reads:
  assumes "fs_find (fs_root fs) (key_path home handle) = Inr (FileN True raw)"
    and "fs_find (fs_root fs) (resolver_path home) = Inr (FileN True resolverScript)"
    and "strings_HasPrefix home ''/''" "plain_elem handle"
  shows "exec_key home (Some handle) mine typ fs = Some (0, raw)" and "exec_key home None handle typ fs = Some (0, raw)"
    and "exec_key home None [] handle fs = Some (0, raw)"
proof -
  have "os_ReadFile fs (home @ ''/.my-token/keys/'' @ handle) = Inr raw"
    using assms(1) below_home [OF assms(3) plain_names(2) assms(4), of fs]
    by (simp add: os_ReadFile_node node_read_def key_path_def)
  moreover have "os_ReadFile fs (home @ ''/.my-token/bin/key'') = Inr resolverScript"
    using assms(2) below_home [OF assms(3) plain_names(3,4), of fs]
    by (simp add: os_ReadFile_node node_read_def resolver_path_def)
  moreover have "handle \<noteq> []" using assms(4) by (simp add: plain_elem_def)
  ultimately show "exec_key home (Some handle) mine typ fs = Some (0, raw)" "exec_key home None handle typ fs = Some (0, raw)"
    "exec_key home None [] handle fs = Some (0, raw)"
    by (simp_all add: exec_key_def resolver_run_def)
qed

section \<open>Properties\<close>

lemma find_snoc: "find P xs = None \<Longrightarrow> P x \<Longrightarrow> find P (xs @ [x]) = Some x"
  by (induction xs) (auto split: if_splits)

lemma new_key_row:
  assumes "issue_key_main home (NewUserRepo uuid n) (NewAPIKeyRepo g uuid' now) rnd now rot handle (s, fs)
      = ((0, Some raw), (t, fs'))"
    and "identity_db_ok s" "engine_ok g"
  shows "\<exists>k \<in> set (api_keys t). k_KeyHash k = HashAPIKey raw \<and> k_RevokedAt k = None
      \<and> k_ExpiresAt k = now + 90 * 24 * hour \<and> (rot \<longrightarrow> live_keys t (k_UserID k) = [k])"
proof (cases rot)
  case True
  then obtain res where r: "Rotate (NewUserRepo uuid n) (NewAPIKeyRepo g uuid' now) rnd now handle s = (Inr res, t)"
    and raw: "raw = rot_RawKey res"
    using assms(1) by (auto simp: issue_key_main_def runRotate_def persist_new_def split: if_splits prod.splits sum.splits)
  have "\<exists>k. k \<in> set (api_keys t) \<and> k_KeyHash k = HashAPIKey (rot_RawKey res) \<and> k_RevokedAt k = None
      \<and> k_ExpiresAt k = now + 90 * 24 * hour \<and> live_keys t (k_UserID k) = [k]"
    using rotate_run [OF r assms(2,3)] by auto
  then show ?thesis using raw by blast
next
  case False
  then obtain res where r: "IssueAPIKeyForHandle (NewUserRepo uuid n) (NewAPIKeyRepo g uuid' now) rnd now handle s = (Inr res, t)"
    and raw: "raw = iss_RawKey res"
    using assms(1) by (auto simp: issue_key_main_def issue_key_run_def persist_new_def split: if_splits prod.splits sum.splits)
  then obtain user :: User and u key where
      c: "Repo_CreateAPIKey uuid' now (usr_ID user) (HashAPIKey raw) (take 12 raw) (now + apiKeyTTL) u = (Inr key, t)"
    by (auto simp: IssueAPIKeyForHandle_def NewAPIKeyRepo_def apiKeyPrefixLength_def elim!: bindR_okE
        split: sum.splits prod.splits)
  then show ?thesis
    by (cases rule: CreateAPIKey_cases) (auto simp: apiKeyTTL_def False)
qed

text \<open>
  C38. What issue-key leaves behind, for an absolute home directory and a handle that is a plain file name
  (no separator and no dot name): when the command succeeds, the file <home>/.my-token/keys/<handle>
  holds exactly the raw key it printed, <home>/.my-token/bin/key is the resolver script and, run with this
  handle as its argument, in MY_TOKEN_CREW, or alone in TYP_CREW_NAME, prints that key; no other file has
  changed, and the digest of that key is the digest of a live row good for 90 days, the only live one of its
  user after a rotation.
\<close>

theorem issued_key_file:
  assumes "issue_key_main home (NewUserRepo uuid n) (NewAPIKeyRepo g uuid' now) rnd now rot handle (s, fs)
      = ((0, Some raw), (t, fs'))"
    and "identity_db_ok s" "engine_ok g" "strings_HasPrefix home ''/''" "plain_elem handle"
  shows "fs_find (fs_root fs') (key_path home handle) = Inr (FileN True raw)
    \<and> fs_find (fs_root fs') (resolver_path home) = Inr (FileN True resolverScript)
    \<and> exec_key home (Some handle) mine typ fs' = Some (0, raw) \<and> exec_key home None handle typ fs' = Some (0, raw)
    \<and> exec_key home None [] handle fs' = Some (0, raw)
    \<and> (\<forall>q r c. fs_find (fs_root fs) q = Inr (FileN r c) \<longrightarrow> q \<notin> {key_path home handle, resolver_path home}
        \<longrightarrow> fs_find (fs_root fs') q = Inr (FileN r c))
    \<and> (\<exists>k \<in> set (api_keys t). k_KeyHash k = HashAPIKey raw \<and> k_RevokedAt k = None
        \<and> k_ExpiresAt k = now + 90 * 24 * hour \<and> (rot \<longrightarrow> live_keys t (k_UserID k) = [k]))"
proof -
  have "persistKeyAndResolver home handle raw fs = (Inr (), fs')"
    using assms(1) by (auto simp: issue_key_main_def runRotate_def issue_key_run_def persist_new_def
        split: if_splits prod.splits sum.splits)
  note files = persist_ok [OF this assms(4,5)]
  show ?thesis
    using files new_key_row [OF assms(1-3)] resolver_reads [OF conjunct1 [OF files] conjunct1 [OF conjunct2 [OF files]] assms(4,5)]
    by (intro conjI) blast+
qed

text \<open>
  C39. Seeding is idempotent: a run that succeeds adds at most the owner's row, and every later run for
  the same subject on the data it left finds that row, changes nothing and says so, whatever ids and
  clocks it would have used; an empty subject is refused.
\<close>

theorem seed_idempotent:
  assumes "seedOwner (NewUserRepo uuid now) sub s = (Inr res, t)" "identity_db_ok s" "faults t = []"
  shows "seedOwner (NewUserRepo uuid' now') sub t = (Inr (res\<lparr>se_alreadyExisted := True\<rparr>), t)
    \<and> sub \<noteq> [] \<and> identity_db_ok t \<and> api_keys t = api_keys s
    \<and> (if se_alreadyExisted res then users t = users s
       else \<exists>row. users t = users s @ [row] \<and> u_Role row = ''owner'' \<and> u_Active row \<and> u_SsoSubject row = Some sub)"
proof -
  have ne: "sub \<noteq> []" using assms(1) by (auto simp: seedOwner_def)
  obtain q u where q: "Repo_GetUserBySSOSubject sub s = (q, u)" by fastforce
  note found = GetUserBySSOSubject_runs [OF q]
  have again: "seedOwner (NewUserRepo uuid' now') sub t = (Inr \<lparr>se_user = userFromRow row, se_alreadyExisted = True\<rparr>, t)"
    if "find_user_sub t sub = Some row" for row
    using that lookups_no_faults(3) [OF assms(3), of sub] ne by (simp add: seedOwner_def NewUserRepo_def)
  show ?thesis
  proof (cases q)
    case (Inr user)
    then obtain row where row: "find_user_sub s sub = Some row" "user = userFromRow row"
      using found by (auto simp: lookup_result_def split: option.splits)
    have "res = \<lparr>se_user = user, se_alreadyExisted = True\<rparr>" "same_tables s t"
      using assms(1) q Inr ne found by (simp_all add: seedOwner_def NewUserRepo_def)
    then show ?thesis
      using again [of row] row ne assms(2) by (simp add: find_user_sub_def same_tables_eq identity_db_ok_same)
  next
    case (Inl e)
    then have e: "e = ErrNotFound" "find_user_sub s sub = None" "same_tables s u"
      using assms(1) q ne found by (auto simp: seedOwner_def NewUserRepo_def lookup_result_def split: if_splits option.splits)
    obtain p v where c: "Repo_CreateUser uuid now ownerHandle ''owner'' (Some sub) u = (p, v)" by fastforce
    then obtain user where p: "p = Inr user" "v = t" "res = \<lparr>se_user = user, se_alreadyExisted = False\<rparr>"
      using assms(1) q Inl e ne by (auto simp: seedOwner_def NewUserRepo_def split: sum.splits)
    have ok: "identity_db_ok t" using CreateUser_inv [OF c] assms(2) e(3) p(2) by (simp add: identity_db_ok_same)
    from c show ?thesis
    proof (cases rule: CreateUser_cases)
      case (ok s' row)
      have t: "users t = users s @ [row]" "api_keys t = api_keys s" using ok e(3) p(2) by (simp_all add: same_tables_eq)
      have "find (\<lambda>u. u_SsoSubject u = Some sub) (users s) = None" using e(2) by (simp add: find_user_sub_def)
      then have "find_user_sub t sub = Some row" using ok(1) by (simp add: find_user_sub_def t(1) find_snoc)
      from again [OF this] show ?thesis using ok p t ne \<open>identity_db_ok t\<close> by auto
    qed (simp add: p)
  qed
qed

section \<open>Concrete runs\<close>

definition sample_disk :: filesystem where
  "sample_disk = \<lparr>fs_root = DirN True [(''h'', DirN True [])], fs_cwd = []\<rparr>"

lemma sample_persist: "persistKeyAndResolver ''/h'' ''BOT'' raw sample_disk
  = (Inr (), \<lparr>fs_root = DirN True [(''h'', DirN True [(''.my-token'', DirN True [(''keys'', DirN True [(''BOT'', FileN True raw)]),
      (''bin'', DirN True [(''key'', FileN True resolverScript)])])])], fs_cwd = []\<rparr>)"
  by code_simp

theorem issued_key_file_witness:
  "\<exists>raw t fs'. issue_key_main ''/h'' sample_users sample_keys (Inr ''abc'') 10 False ''BOT'' (sample_idb_x, sample_disk)
      = ((0, Some raw), (t, fs'))
    \<and> fs_find (fs_root fs') (key_path ''/h'' ''BOT'') = Inr (FileN True raw) \<and> exec_key ''/h'' None ''BOT'' [] fs' = Some (0, raw)"
proof -
  obtain res t where run: "IssueAPIKeyForHandle sample_users sample_keys (Inr ''abc'') 10 ''BOT'' sample_idb_x = (Inr res, t)"
    using sample_issue by blast
  then obtain fs' where main: "issue_key_main ''/h'' sample_users sample_keys (Inr ''abc'') 10 False ''BOT'' (sample_idb_x, sample_disk)
      = ((0, Some (iss_RawKey res)), (t, fs'))"
    by (simp add: issue_key_main_def issue_key_run_def persist_new_def sample_persist)
  have "strings_HasPrefix ''/h'' ''/''" "plain_elem ''BOT''" by code_simp+
  from issued_key_file [OF main sample_idb_facts(2) plain_engine_ok this] main show ?thesis by blast
qed

theorem seed_idempotent_witness:
  "\<exists>res t. seedOwner sample_users ''sub-1'' sample_idb_x = (Inr res, t)
     \<and> seedOwner (NewUserRepo ''other'' 99) ''sub-1'' t = (Inr (res\<lparr>se_alreadyExisted := True\<rparr>), t)
     \<and> map u_Role (users t) = [''agent'', ''owner'']"
proof -
  have n: "nocase ''Bot'' \<noteq> nocase ''owner''" by code_simp
  obtain res t where run: "seedOwner sample_users ''sub-1'' sample_idb_x = (Inr res, t)" "faults t = []"
      "se_alreadyExisted res = False"
    using sample_idb_facts(1) n
    by (simp add: seedOwner_def NewUserRepo_def lookups_no_faults find_user_sub_def sample_idb_tables sample_user_def
        Repo_CreateUser_def db_CreateUser_def stmt_no_faults user_conflict_def ownerHandle_def bindR_def)
  from seed_idempotent [OF run(1) sample_idb_facts(2) run(2), of "''other''" 99] run
  show ?thesis by (auto simp: sample_idb_tables sample_user_def)
qed

end
