(* ===== verification/Table_Isolation.thy ===== *)
theory Table_Isolation
  imports GoPath
begin

text \<open>
  src/internal/dbquery/tableisolation.go: the check that a file of SQL queries names only tables of its
  own module. The regular expressions are written out as scanners; an assertion that fails is a value,
  and a check returns the failures it reports. The grants, an empty list in this repository that its
  tests replace, are an argument.
\<close>

section \<open>Ownership\<close>

definition TableOwnership :: "string \<Rightarrow> string option" where
  "TableOwnership = map_of [(''users'', ''identity''), (''api_keys'', ''identity''), (''usage_events'', ''usage''),
     (''machines'', ''usage''), (''scan_roots'', ''usage'')]"

record ReadOnlyGrant =
  gr_File :: string
  gr_Table :: string

definition ReadOnlyGrants :: "ReadOnlyGrant list" where "ReadOnlyGrants = []"

definition grantedReadOnly :: "ReadOnlyGrant list \<Rightarrow> string \<Rightarrow> string \<Rightarrow> bool" where
  "grantedReadOnly grants file table \<longleftrightarrow> list_ex (\<lambda>g. gr_File g = file \<and> gr_Table g = table) grants"

section \<open>Scanning\<close>

text \<open>\<open>--[^\n]*\<close>, every match removed.\<close>

function stripSQLLineComments :: "string \<Rightarrow> string" where
  "stripSQLLineComments [] = []"
| "stripSQLLineComments (c # s) =
     (if c = CHR ''-'' \<and> s \<noteq> [] \<and> hd s = CHR ''-'' then stripSQLLineComments (dropWhile (\<lambda>x. x \<noteq> CHR 0x0A) (tl s))
      else c # stripSQLLineComments s)"
  by pat_completeness auto
termination
  by (relation "measure length") (auto intro!: le_less_trans [OF length_dropWhile_le])

definition word_char :: "char \<Rightarrow> bool" where
  "word_char c \<longleftrightarrow> (let n = of_char c :: nat in (48 \<le> n \<and> n \<le> 57) \<or> (65 \<le> n \<and> n \<le> 90) \<or> (97 \<le> n \<and> n \<le> 122) \<or> n = 95)"

definition re_blank :: "char \<Rightarrow> bool" where
  "re_blank c \<longleftrightarrow> (of_char c :: nat) \<in> {9, 10, 12, 13, 32}"

definition ident_start :: "char \<Rightarrow> bool" where
  "ident_start c \<longleftrightarrow> word_char c \<and> \<not> (48 \<le> (of_char c :: nat) \<and> (of_char c :: nat) \<le> 57)"

definition sql_keywords :: "string list" where
  "sql_keywords = [''FROM'', ''INTO'', ''UPDATE'', ''JOIN'']"

text \<open>A keyword in any letter case at the start of a text, with a word boundary after it.\<close>

definition keyword_here :: "string \<Rightarrow> string option" where
  "keyword_here s = find (\<lambda>kw. map ascii_upper (take (length kw) s) = kw
     \<and> (length s = length kw \<or> \<not> word_char (s ! length kw))) sql_keywords"

text \<open>All matches of \<open>(?i)\b(?:FROM|INTO|UPDATE|JOIN)\b\<close>, each with the text after it; \<open>prev\<close> tells
  whether the character before is a word character.\<close>

function keyword_matches :: "bool \<Rightarrow> string \<Rightarrow> (string \<times> string) list" where
  "keyword_matches prev [] = []"
| "keyword_matches prev (c # s) =
     (case (if prev then None else keyword_here (c # s)) of
        Some kw \<Rightarrow> (take (length kw) (c # s), drop (length kw) (c # s)) # keyword_matches True (drop (max 1 (length kw)) (c # s))
      | None \<Rightarrow> keyword_matches (word_char c) s)"
  by pat_completeness auto
termination by (relation "measure (\<lambda>(_, s). length s)") auto

text \<open>\<open>^(\s+)([a-zA-Z_][a-zA-Z0-9_]*)(\s*)\<close>: the identifier and what follows the match.\<close>

definition ident_tail :: "string \<Rightarrow> (string \<times> string) option" where
  "ident_tail rest = (let r = dropWhile re_blank rest in
     if rest \<noteq> [] \<and> re_blank (hd rest) \<and> r \<noteq> [] \<and> ident_start (hd r)
     then Some (takeWhile word_char r, dropWhile re_blank (dropWhile word_char r)) else None)"

datatype sql_error = NotAnIdentifier string string | CommaList string string

fun collect_tables :: "(string \<times> string) list \<Rightarrow> string list \<Rightarrow> sql_error + string list" where
  "collect_tables [] tables = Inr tables"
| "collect_tables ((keyword, rest) # ms) tables = (case ident_tail rest of
     None \<Rightarrow> Inl (NotAnIdentifier keyword (take 40 rest))
   | Some (ident, after) \<Rightarrow>
       if after \<noteq> [] \<and> hd after = CHR '','' then Inl (CommaList keyword ident)
       else let name = map ascii_lower ident in
         collect_tables ms (if name \<in> set tables then tables else tables @ [name]))"

definition referencedTablesStrict :: "string \<Rightarrow> sql_error + string list" where
  "referencedTablesStrict content = collect_tables (keyword_matches False (stripSQLLineComments content)) []"

text \<open>A table name in any letter case (Unicode folds the Kelvin sign and the long s to letters), at the
  start of a text: the last byte read and what follows.\<close>

fun match_fold :: "string \<Rightarrow> char \<Rightarrow> string \<Rightarrow> (char \<times> string) option" where
  "match_fold [] l s = Some (l, s)"
| "match_fold (p # ps) l s =
     (case s of
        [] \<Rightarrow> None
      | c # r \<Rightarrow>
          if ascii_lower c = ascii_lower p then match_fold ps c r
          else if ascii_lower p = CHR ''k'' \<and> take 3 s = [CHR 0xE2, CHR 0x84, CHR 0xAA] then match_fold ps (CHR 0xAA) (drop 3 s)
          else if ascii_lower p = CHR ''s'' \<and> take 2 s = [CHR 0xC5, CHR 0xBF] then match_fold ps (CHR 0xBF) (drop 2 s)
          else None)"

definition writesToTable :: "string \<Rightarrow> string \<Rightarrow> bool" where
  "writesToTable strippedContent table = list_ex (\<lambda>(kw, rest).
     map ascii_upper kw \<in> {''INTO'', ''UPDATE''} \<and> rest \<noteq> [] \<and> re_blank (hd rest)
     \<and> (case match_fold table (CHR '' '') (dropWhile re_blank rest) of
          None \<Rightarrow> False
        | Some (l, after) \<Rightarrow> word_char l \<noteq> (after \<noteq> [] \<and> word_char (hd after))))
     (keyword_matches False strippedContent)"

section \<open>The assertions\<close>

datatype failure =
    CannotRead os_error
  | NoDeclaredOwner string
  | UnsupportedSQL sql_error
  | OwnTableMissing string
  | UndeclaredTable string
  | WritesGranted string
  | I4Violation string

definition table_failures :: "ReadOnlyGrant list \<Rightarrow> string \<Rightarrow> string \<Rightarrow> string \<Rightarrow> string \<Rightarrow> failure list" where
  "table_failures grants filename mdl stripped tbl = (case TableOwnership tbl of
     None \<Rightarrow> [UndeclaredTable tbl]
   | Some owner \<Rightarrow>
       if owner = mdl then []
       else if grantedReadOnly grants filename tbl then
         (if writesToTable stripped tbl then [WritesGranted tbl] else [])
       else [I4Violation tbl])"

definition AssertQueryFileReferencesOnlyOwnTable ::
    "ReadOnlyGrant list \<Rightarrow> (string \<Rightarrow> string) \<Rightarrow> filesystem \<Rightarrow> string \<Rightarrow> string \<Rightarrow> string \<Rightarrow> failure list" where
  "AssertQueryFileReferencesOnlyOwnTable grants uni fs queriesDir filename ownTable =
     (case os_ReadFile fs (filepath_Join [queriesDir, filename]) of
        Inl err \<Rightarrow> [CannotRead err]
      | Inr content \<Rightarrow>
          let stripped = stripSQLLineComments content; ownTableLower = strings_ToLower uni ownTable in
          (case TableOwnership ownTableLower of
             None \<Rightarrow> [NoDeclaredOwner ownTable]
           | Some mdl \<Rightarrow>
               (case referencedTablesStrict content of
                  Inl err \<Rightarrow> [UnsupportedSQL err]
                | Inr tables \<Rightarrow>
                    (if ownTableLower \<in> set tables then [] else [OwnTableMissing ownTable])
                    @ concat (map (table_failures grants filename mdl stripped) tables))))"

text \<open>The first grant whose file cannot be read or scanned ends the check.\<close>

fun AssertEveryReadOnlyGrantIsExercised :: "(string \<Rightarrow> string) \<Rightarrow> filesystem \<Rightarrow> string \<Rightarrow> ReadOnlyGrant list \<Rightarrow> failure list" where
  "AssertEveryReadOnlyGrantIsExercised uni fs queriesDir [] = []"
| "AssertEveryReadOnlyGrantIsExercised uni fs queriesDir (g # grants) =
     (case os_ReadFile fs (filepath_Join [queriesDir, gr_File g]) of
        Inl err \<Rightarrow> [CannotRead err]
      | Inr content \<Rightarrow> (case referencedTablesStrict content of
            Inl err \<Rightarrow> [UnsupportedSQL err]
          | Inr tables \<Rightarrow> (if strings_ToLower uni (gr_Table g) \<in> set tables then [] else [OwnTableMissing (gr_Table g)])
              @ AssertEveryReadOnlyGrantIsExercised uni fs queriesDir grants))"

section \<open>Every occurrence is found\<close>

text \<open>A keyword stands at position i of a text, between word boundaries; \<open>prev\<close> tells of the character
  before the text.\<close>

definition stands_after :: "bool \<Rightarrow> string \<Rightarrow> string \<Rightarrow> nat \<Rightarrow> bool" where
  "stands_after prev s kw i \<longleftrightarrow> i + length kw \<le> length s \<and> map ascii_upper (take (length kw) (drop i s)) = kw
     \<and> (if i = 0 then \<not> prev else \<not> word_char (s ! (i - 1)))
     \<and> (i + length kw = length s \<or> \<not> word_char (s ! (i + length kw)))"

abbreviation stands_at :: "string \<Rightarrow> string \<Rightarrow> nat \<Rightarrow> bool" where
  "stands_at \<equiv> stands_after False"

lemma upper_word: "word_char (ascii_upper c) \<longleftrightarrow> word_char c"
  by (auto simp: word_char_def ascii_upper_def Let_def)

lemma keyword_words: "kw \<in> set sql_keywords \<Longrightarrow> list_all word_char kw \<and> kw \<noteq> []"
proof -
  have "list_all (\<lambda>kw. list_all word_char kw \<and> kw \<noteq> []) sql_keywords" by code_simp
  then show "kw \<in> set sql_keywords \<Longrightarrow> list_all word_char kw \<and> kw \<noteq> []" by (auto simp: list_all_iff)
qed

lemma keyword_chars:
  assumes "kw \<in> set sql_keywords" "map ascii_upper (take (length kw) s) = kw" "j < length kw"
  shows "word_char (s ! j)"
proof -
  have l: "length kw \<le> length s" using arg_cong [OF assms(2), of length] by simp
  have "ascii_upper (s ! j) = kw ! j"
    using arg_cong [OF assms(2), of "\<lambda>x. x ! j"] assms(3) l by simp
  moreover have "word_char (kw ! j)" using keyword_words [OF assms(1)] assms(3) by (simp add: list_all_length)
  ultimately show ?thesis by (metis upper_word)
qed

lemma find_only:
  "(\<And>y z. y \<in> set xs \<Longrightarrow> z \<in> set xs \<Longrightarrow> P y \<Longrightarrow> P z \<Longrightarrow> y = z)
    \<Longrightarrow> find P xs = Some x \<longleftrightarrow> x \<in> set xs \<and> P x"
  by (induction xs) (auto split: if_splits)

lemma keywords_apart:
  assumes "a \<in> set sql_keywords" "b \<in> set sql_keywords" "map ascii_upper (take (length a) s) = a"
    "map ascii_upper (take (length b) s) = b"
  shows "a = b"
proof -
  have "list_all (\<lambda>a. list_all (\<lambda>b. length a \<le> length b \<and> take (length a) b = a \<longrightarrow> a = b) sql_keywords) sql_keywords"
    by code_simp
  then have apart: "length a \<le> length b \<Longrightarrow> take (length a) b = a \<Longrightarrow> a = b"
    if "a \<in> set sql_keywords" "b \<in> set sql_keywords" for a b
    using that by (auto simp: list_all_iff)
  have pre: "length a \<le> length b \<Longrightarrow> take (length a) b = a"
    if "map ascii_upper (take (length a) s) = a" "map ascii_upper (take (length b) s) = b" for a b
    using that by (metis min.absorb1 take_map take_take)
  show ?thesis
    using apart [OF assms(1,2)] pre [OF assms(3,4)] apart [OF assms(2,1)] pre [OF assms(4,3)] by (cases "length a \<le> length b") auto
qed

lemma keyword_here_iff:
  "keyword_here s = Some kw \<longleftrightarrow> kw \<in> set sql_keywords \<and> stands_after False s kw 0"
proof -
  have l: "map ascii_upper (take (length kw) s) = kw \<Longrightarrow> length kw \<le> length s"
    by (drule arg_cong [where f = length]) simp
  show ?thesis unfolding keyword_here_def
    by (subst find_only) (auto simp: stands_after_def dest: keywords_apart l)
qed

lemma matches_complete:
  "stands_after prev s kw i \<Longrightarrow> kw \<in> set sql_keywords
    \<Longrightarrow> (take (length kw) (drop i s), drop (i + length kw) s) \<in> set (keyword_matches prev s)"
proof (induction prev s arbitrary: i rule: keyword_matches.induct)
  case (1 prev)
  then show ?case using keyword_words by (auto simp: stands_after_def)
next
  case (2 prev c s)
  show ?case
  proof (cases "if prev then None else keyword_here (c # s)")
    case None
    have "i \<noteq> 0"
    proof
      assume "i = 0"
      then have "\<not> prev" "stands_after False (c # s) kw 0" using 2(3) by (auto simp: stands_after_def)
      then have "keyword_here (c # s) = Some kw" "\<not> prev" using keyword_here_iff 2(4) by blast+
      with None show False by simp
    qed
    then obtain j where j: "i = Suc j" by (cases i) auto
    then have "stands_after (word_char c) s kw j" using 2(3) by (auto simp: stands_after_def nth_Cons' split: if_splits)
    from 2(1) [OF None this 2(4)] show ?thesis using None j by simp
  next
    case (Some kw0)
    then have k0: "keyword_here (c # s) = Some kw0" "\<not> prev" by (auto split: if_splits)
    then have k: "kw0 \<in> set sql_keywords" "stands_after False (c # s) kw0 0" using keyword_here_iff by blast+
    have len: "0 < length kw0" "max 1 (length kw0) = length kw0" using keyword_words [OF k(1)] by (cases kw0; simp)+
    show ?thesis
    proof (cases "i = 0")
      case True
      then have "keyword_here (c # s) = Some kw" using keyword_here_iff 2(3,4) k0(2) by (simp add: stands_after_def)
      then show ?thesis using k0 True by simp
    next
      case False
      have "length kw0 < i"
      proof (rule ccontr)
        assume "\<not> length kw0 < i"
        then have "word_char ((c # s) ! (i - 1))"
          using k(2) False by (intro keyword_chars [OF k(1)]) (auto simp: stands_after_def)
        then show False using 2(3) False by (simp add: stands_after_def)
      qed
      then obtain j where j: "i = length kw0 + Suc j" by (metis add_Suc_right less_iff_Suc_add)
      have "stands_after True (drop (max 1 (length kw0)) (c # s)) kw (Suc j)"
        using 2(3) unfolding len(2) stands_after_def j by (auto simp: algebra_simps)
      from 2(2) [OF Some this 2(4)] show ?thesis using k0 len(2) unfolding j by (simp add: algebra_simps del: max_def)
    qed
  qed
qed

lemma collect_tables_ok:
  "collect_tables ms tables = Inr out \<Longrightarrow> distinct tables \<Longrightarrow> distinct out \<and> set tables \<subseteq> set out
    \<and> (\<forall>(kw, rest) \<in> set ms. \<exists>ident after. ident_tail rest = Some (ident, after)
        \<and> \<not> (after \<noteq> [] \<and> hd after = CHR '','') \<and> map ascii_lower ident \<in> set out)"
proof (induction ms arbitrary: tables)
  case (Cons m ms)
  obtain kw rest where m: "m = (kw, rest)" by fastforce
  obtain ident after where i: "ident_tail rest = Some (ident, after)" "\<not> (after \<noteq> [] \<and> hd after = CHR '','')"
    "collect_tables ms (if map ascii_lower ident \<in> set tables then tables else tables @ [map ascii_lower ident]) = Inr out"
    using Cons.prems(1) m by (auto simp: Let_def split: option.splits if_splits)
  have "distinct (if map ascii_lower ident \<in> set tables then tables else tables @ [map ascii_lower ident])"
    using Cons.prems(2) by simp
  from Cons.IH [OF i(3) this] show ?case using i m by (auto split: if_splits)
qed simp

text \<open>A file without its line comments, told by its lines: of each line, what stands before its first two
  hyphens.\<close>

fun before_comment :: "string \<Rightarrow> string" where
  "before_comment [] = []"
| "before_comment (c # s) = (if c = CHR ''-'' \<and> s \<noteq> [] \<and> hd s = CHR ''-'' then [] else c # before_comment s)"

definition uncommented :: "string \<Rightarrow> string" where
  "uncommented content = join_on (CHR 0x0A) (map before_comment (split_on (CHR 0x0A) content))"

lemma strip_line: "CHR 0x0A \<notin> set x \<Longrightarrow> stripSQLLineComments x = before_comment x"
proof (induction x)
  case (Cons c x)
  show ?case
  proof (cases "c = CHR ''-'' \<and> x \<noteq> [] \<and> hd x = CHR ''-''")
    case True
    then have e: "dropWhile (\<lambda>u. u \<noteq> CHR 0x0A) (tl x) = []"
      using Cons.prems list.set_sel(2) [of x] by (simp add: dropWhile_eq_Nil_conv) blast
    have "stripSQLLineComments (c # x) = stripSQLLineComments (dropWhile (\<lambda>u. u \<noteq> CHR 0x0A) (tl x))" using True by simp
    also have "\<dots> = before_comment (c # x)" unfolding e using True by simp
    finally show ?thesis .
  next
    case False
    then have "stripSQLLineComments (c # x) = c # stripSQLLineComments x" "before_comment (c # x) = c # before_comment x"
      unfolding stripSQLLineComments.simps(2) before_comment.simps(2) by (simp_all only: if_not_P if_False)
    then show ?thesis using Cons by simp
  qed
qed simp

lemma strip_lines:
  "CHR 0x0A \<notin> set x \<Longrightarrow> stripSQLLineComments (x @ CHR 0x0A # t) = before_comment x @ CHR 0x0A # stripSQLLineComments t"
proof (induction x)
  case (Cons c x)
  show ?case
  proof (cases "c = CHR ''-'' \<and> x \<noteq> [] \<and> hd x = CHR ''-''")
    case True
    then obtain y where x: "x = CHR ''-'' # y" by (cases x) auto
    have "dropWhile (\<lambda>u. u \<noteq> CHR 0x0A) (y @ CHR 0x0A # t) = CHR 0x0A # t"
      using Cons.prems by (subst dropWhile_append2) (auto simp: x)
    then show ?thesis using True by (simp add: x)
  next
    case False
    then have "\<not> (c = CHR ''-'' \<and> x @ CHR 0x0A # t \<noteq> [] \<and> hd (x @ CHR 0x0A # t) = CHR ''-'')" by (cases x) auto
    then have "stripSQLLineComments ((c # x) @ CHR 0x0A # t) = c # stripSQLLineComments (x @ CHR 0x0A # t)"
      unfolding append_Cons stripSQLLineComments.simps by (rule if_not_P)
    moreover have "before_comment (c # x) = c # before_comment x" using False unfolding before_comment.simps by (rule if_not_P)
    ultimately show ?thesis using Cons by simp
  qed
qed simp

lemma strip_uncommented: "stripSQLLineComments content = uncommented content"
proof (induction "length content" arbitrary: content rule: less_induct)
  case less
  show ?case
  proof (cases "CHR 0x0A \<in> set content")
    case True
    then obtain x t where c: "content = x @ CHR 0x0A # t" "CHR 0x0A \<notin> set x" by (metis split_list_first)
    have "split_on (CHR 0x0A) t \<noteq> []" using split_on_last [of "CHR 0x0A" t] by auto
    then have "uncommented content = before_comment x @ CHR 0x0A # uncommented t"
      unfolding uncommented_def c(1) split_on_append split_on_none [OF c(2)]
      by (cases "split_on (CHR 0x0A) t") auto
    moreover have "stripSQLLineComments t = uncommented t" by (rule less) (simp add: c)
    ultimately show ?thesis by (simp add: c strip_lines)
  next
    case False
    then show ?thesis by (simp add: strip_line uncommented_def split_on_none)
  qed
qed

lemma matches_sound:
  "(w, rest) \<in> set (keyword_matches prev s)
    \<Longrightarrow> \<exists>kw i. kw \<in> set sql_keywords \<and> stands_after prev s kw i \<and> rest = drop (i + length kw) s"
proof (induction prev s rule: keyword_matches.induct)
  case (2 prev c s)
  show ?case
  proof (cases "if prev then None else keyword_here (c # s)")
    case None
    then have "(w, rest) \<in> set (keyword_matches (word_char c) s)" using 2(3) by simp
    from 2(1) [OF None this] obtain kw i where "kw \<in> set sql_keywords" "stands_after (word_char c) s kw i"
      "rest = drop (i + length kw) s" by blast
    then show ?thesis
      by (intro exI [of _ kw] exI [of _ "Suc i"]) (auto simp: stands_after_def nth_Cons' split: if_splits)
  next
    case (Some kw0)
    then have k0: "keyword_here (c # s) = Some kw0" "\<not> prev" by (auto split: if_splits)
    then have k: "kw0 \<in> set sql_keywords" "stands_after False (c # s) kw0 0" using keyword_here_iff by blast+
    have len: "0 < length kw0" "max 1 (length kw0) = length kw0" using keyword_words [OF k(1)] by (cases kw0; simp)+
    show ?thesis
    proof (cases "rest = drop (length kw0) (c # s)")
      case True
      then show ?thesis using k k0(2) by (intro exI [of _ kw0] exI [of _ 0]) simp
    next
      case False
      then have "(w, rest) \<in> set (keyword_matches True (drop (max 1 (length kw0)) (c # s)))" using 2(3) k0 by simp
      from 2(2) [OF Some this] obtain kw i where i: "kw \<in> set sql_keywords" "stands_after True (drop (length kw0) (c # s)) kw i"
        "rest = drop (i + length kw) (drop (length kw0) (c # s))" unfolding len(2) by blast
      have "i \<noteq> 0" using i(2) unfolding stands_after_def by presburger
      then have "stands_after prev (c # s) kw (i + length kw0)"
        using i(2) k(2) unfolding stands_after_def by (auto simp: add_ac)
      then show ?thesis using i(1,3) by (intro exI [of _ kw] exI [of _ "i + length kw0"]) (simp add: add_ac)
    qed
  qed
qed simp

lemma collect_tables_from:
  "collect_tables ms tables = Inr out \<Longrightarrow> t \<in> set out \<Longrightarrow> t \<in> set tables
    \<or> (\<exists>w rest ident after. (w, rest) \<in> set ms \<and> ident_tail rest = Some (ident, after) \<and> t = map ascii_lower ident)"
proof (induction ms arbitrary: tables)
  case (Cons m ms)
  obtain w rest where m: "m = (w, rest)" by fastforce
  obtain ident after where i: "ident_tail rest = Some (ident, after)"
    "collect_tables ms (if map ascii_lower ident \<in> set tables then tables else tables @ [map ascii_lower ident]) = Inr out"
    using Cons.prems(1) m by (auto simp: Let_def split: option.splits if_splits)
  from Cons.IH [OF i(2) Cons.prems(2)] show ?case using i(1) m by (fastforce split: if_splits)
qed simp

text \<open>The scan for writes sees every identifier after INTO and UPDATE.\<close>

lemma ascii_lower_idem: "ascii_lower (ascii_lower c) = ascii_lower c"
  by (auto simp: ascii_lower_def of_char_of)

lemma match_fold_self: "match_fold (map ascii_lower p) l (p @ t) = Some (last (l # p), t)"
  by (induction p arbitrary: l) (auto simp: ascii_lower_idem)

lemma write_seen:
  assumes "stands_at s kw i" "kw \<in> {''INTO'', ''UPDATE''}" "ident_tail (drop (i + length kw) s) = Some (ident, after)"
  shows "writesToTable s (map ascii_lower ident)"
proof -
  define rest where "rest = drop (i + length kw) s"
  define r where "r = dropWhile re_blank rest"
  have r: "rest \<noteq> []" "re_blank (hd rest)" "r \<noteq> []" "ident_start (hd r)" "ident = takeWhile word_char r"
    using assms(3) by (auto simp: ident_tail_def Let_def rest_def r_def split: if_splits)
  have m: "(take (length kw) (drop i s), rest) \<in> set (keyword_matches False s)"
    unfolding rest_def by (rule matches_complete [OF assms(1)]) (use assms(2) in \<open>auto simp: sql_keywords_def\<close>)
  have k: "map ascii_upper (take (length kw) (drop i s)) \<in> {''INTO'', ''UPDATE''}"
    using assms(1,2) by (simp add: stands_after_def)
  have ne: "ident \<noteq> []" using r(3-5) by (cases r) (auto simp: ident_start_def)
  then have l: "word_char (last ident)" unfolding r(5) by (meson last_in_set set_takeWhileD)
  have "match_fold (map ascii_lower ident) (CHR '' '') r = Some (last ident, dropWhile word_char r)"
    using match_fold_self [of ident "CHR '' ''" "dropWhile word_char r"] ne r(5) by simp
  moreover have "\<not> (dropWhile word_char r \<noteq> [] \<and> word_char (hd (dropWhile word_char r)))" using hd_dropWhile by blast
  ultimately have "case match_fold (map ascii_lower ident) (CHR '' '') (dropWhile re_blank rest) of None \<Rightarrow> False
      | Some (l, after) \<Rightarrow> word_char l \<noteq> (after \<noteq> [] \<and> word_char (hd after))"
    using l by (simp add: r_def)
  then show ?thesis unfolding writesToTable_def list_ex_iff by (intro bexI [OF _ m]) (use k r(1,2) in simp)
qed

text \<open>
  C40. What a clean check proves: if the check of a query file reports nothing, the file names its own
  table after one of FROM, INTO, UPDATE and JOIN, and every FROM, INTO, UPDATE or JOIN that stands in it as a word before the first two hyphens of
  its line, in any letter case, is followed by white space and a plain identifier without a comma after it,
  which names a table of the same module, or, after FROM or JOIN only, one granted to this file. (Two
  hyphens start a comment also within a literal, a DELETE counts by its FROM, and a table after an aliased
  one and a comma is not looked at: the lemmas after the theorem.)
\<close>

theorem isolation_sound:
  assumes "AssertQueryFileReferencesOnlyOwnTable grants uni fs dir filename own = []"
  shows "\<exists>content mdl. os_ReadFile fs (filepath_Join [dir, filename]) = Inr content
    \<and> TableOwnership (strings_ToLower uni own) = Some mdl
    \<and> (\<exists>kw i ident after. kw \<in> {''FROM'', ''INTO'', ''UPDATE'', ''JOIN''} \<and> stands_at (uncommented content) kw i
        \<and> ident_tail (drop (i + length kw) (uncommented content)) = Some (ident, after)
        \<and> map ascii_lower ident = strings_ToLower uni own)
    \<and> (\<forall>kw i. kw \<in> {''FROM'', ''INTO'', ''UPDATE'', ''JOIN''} \<longrightarrow> stands_at (uncommented content) kw i \<longrightarrow>
        (\<exists>ident after. ident_tail (drop (i + length kw) (uncommented content)) = Some (ident, after)
          \<and> \<not> (after \<noteq> [] \<and> hd after = CHR '','')
          \<and> (TableOwnership (map ascii_lower ident) = Some mdl
            \<or> grantedReadOnly grants filename (map ascii_lower ident) \<and> kw \<in> {''FROM'', ''JOIN''})))"
proof -
  obtain content mdl tables where c: "os_ReadFile fs (filepath_Join [dir, filename]) = Inr content"
    "TableOwnership (strings_ToLower uni own) = Some mdl" "referencedTablesStrict content = Inr tables"
    "\<forall>tbl \<in> set tables. table_failures grants filename mdl (uncommented content) tbl = []"
    "strings_ToLower uni own \<in> set tables"
    using assms unfolding strip_uncommented [symmetric]
    by (auto simp: AssertQueryFileReferencesOnlyOwnTable_def Let_def split: sum.splits option.splits if_splits)
  note out = collect_tables_ok [OF c(3) [unfolded referencedTablesStrict_def strip_uncommented] distinct.simps(1) [THEN iffD2, OF TrueI]]
  have keys: "set sql_keywords = {''FROM'', ''INTO'', ''UPDATE'', ''JOIN''}" by (simp add: sql_keywords_def)
  obtain w rest ident after where o: "(w, rest) \<in> set (keyword_matches False (uncommented content))"
    "ident_tail rest = Some (ident, after)" "strings_ToLower uni own = map ascii_lower ident"
    using collect_tables_from [OF c(3) [unfolded referencedTablesStrict_def strip_uncommented] c(5)] by auto
  obtain kw i where "kw \<in> set sql_keywords" "stands_at (uncommented content) kw i" "rest = drop (i + length kw) (uncommented content)"
    using matches_sound [OF o(1)] by blast
  then have own: "\<exists>kw i ident after. kw \<in> {''FROM'', ''INTO'', ''UPDATE'', ''JOIN''} \<and> stands_at (uncommented content) kw i
        \<and> ident_tail (drop (i + length kw) (uncommented content)) = Some (ident, after)
        \<and> map ascii_lower ident = strings_ToLower uni own"
    unfolding keys using o(2,3) by metis
  have "\<exists>ident after. ident_tail (drop (i + length kw) (uncommented content)) = Some (ident, after)
          \<and> \<not> (after \<noteq> [] \<and> hd after = CHR '','')
          \<and> (TableOwnership (map ascii_lower ident) = Some mdl
            \<or> grantedReadOnly grants filename (map ascii_lower ident) \<and> kw \<in> {''FROM'', ''JOIN''})"
    if kw: "kw \<in> {''FROM'', ''INTO'', ''UPDATE'', ''JOIN''}" "stands_at (uncommented content) kw i" for kw i
  proof -
    have k: "kw \<in> set sql_keywords" unfolding keys by (rule kw(1))
    obtain ident after where i: "ident_tail (drop (i + length kw) (uncommented content)) = Some (ident, after)"
      "\<not> (after \<noteq> [] \<and> hd after = CHR '','')" "map ascii_lower ident \<in> set tables"
      using out matches_complete [OF kw(2) k] by blast
    with c(4) have none: "table_failures grants filename mdl (uncommented content) (map ascii_lower ident) = []" by blast
    have "kw \<in> {''FROM'', ''JOIN''}" if "\<not> writesToTable (uncommented content) (map ascii_lower ident)"
      using write_seen [OF kw(2) _ i(1)] that kw(1) by blast
    moreover have "TableOwnership (map ascii_lower ident) = Some mdl
        \<or> grantedReadOnly grants filename (map ascii_lower ident) \<and> \<not> writesToTable (uncommented content) (map ascii_lower ident)"
      using none by (simp add: table_failures_def split: option.splits if_splits)
    ultimately show ?thesis using i(1,2) by blast
  qed
  then have all: "\<forall>kw i. kw \<in> {''FROM'', ''INTO'', ''UPDATE'', ''JOIN''} \<longrightarrow> stands_at (uncommented content) kw i \<longrightarrow>
        (\<exists>ident after. ident_tail (drop (i + length kw) (uncommented content)) = Some (ident, after)
          \<and> \<not> (after \<noteq> [] \<and> hd after = CHR '','')
          \<and> (TableOwnership (map ascii_lower ident) = Some mdl
            \<or> grantedReadOnly grants filename (map ascii_lower ident) \<and> kw \<in> {''FROM'', ''JOIN''}))"
    by simp
  show ?thesis by (rule exI [of _ content], rule exI [of _ mdl], intro conjI) (fact c(1) c(2) own all)+
qed

text \<open>What a clean check does not prove: a table after an aliased one is not seen, two hyphens within a string
  literal hide the rest of their line, and deleting from a granted table is no write.\<close>

lemma alias_join_missed:
  "referencedTablesStrict ''SELECT 1 FROM users u, snippets s'' = Inr [''users'']"
  by code_simp

lemma literal_hides_line:
  "referencedTablesStrict (''SELECT '' @ [CHR 0x27] @ ''--'' @ [CHR 0x27] @ '' FROM snippets'') = Inr []"
  by code_simp

lemma delete_is_no_write:
  "\<not> writesToTable ''DELETE FROM users'' ''users''"
  by code_simp

definition sample_sql :: filesystem where
  "sample_sql = \<lparr>fs_root = DirN True [(''q.sql'', FileN True (''-- from x'' @ [CHR 0x0A] @ ''select 1 from Users where a = 1''))], fs_cwd = []\<rparr>"

theorem isolation_sound_witness:
  "AssertQueryFileReferencesOnlyOwnTable ReadOnlyGrants (\<lambda>s. s) sample_sql ''/'' ''q.sql'' ''Users'' = []
   \<and> (\<exists>after. ident_tail '' Users where a = 1'' = Some (''Users'', after))
   \<and> TableOwnership ''users'' = Some ''identity''"
proof -
  have run: "AssertQueryFileReferencesOnlyOwnTable ReadOnlyGrants (\<lambda>s. s) sample_sql ''/'' ''q.sql'' ''Users'' = []" by code_simp
  have rd: "os_ReadFile sample_sql (filepath_Join [''/'', ''q.sql'']) = Inr (''-- from x'' @ [CHR 0x0A] @ ''select 1 from Users where a = 1'')"
    by code_simp
  have st: "uncommented (''-- from x'' @ [CHR 0x0A] @ ''select 1 from Users where a = 1'') = [CHR 0x0A] @ ''select 1 from Users where a = 1''"
    "stands_at ([CHR 0x0A] @ ''select 1 from Users where a = 1'') ''FROM'' 10"
    "drop (10 + length ''FROM'') ([CHR 0x0A] @ ''select 1 from Users where a = 1'') = '' Users where a = 1''"
    "strings_ToLower (\<lambda>s. s) ''Users'' = ''users''"
    by code_simp+
  from isolation_sound [OF run] obtain mdl where m: "TableOwnership ''users'' = Some mdl"
    "\<exists>ident after. ident_tail '' Users where a = 1'' = Some (ident, after)"
    unfolding rd sum.inject using st by (metis insertI1)
  moreover have "TableOwnership ''users'' = Some ''identity''" by code_simp
  moreover have "ident_tail '' Users where a = 1'' = Some (''Users'', ''where a = 1'')" by code_simp
  ultimately show ?thesis using run by blast
qed

end
