(* ===== verification/Platform.thy ===== *)
theory Platform
  imports Server
begin

text \<open>
  src/internal/platform (config.go, db.go, migrate.go, \<open>RunServer\<close> of server.go) and the start of
  src/cmd/server/main.go and src/cmd/issue-key/main.go: how a process gets its configuration and its
  database, and how the server stops. The .env file, the environment, the SQL driver and goose are what
  they answer; the goroutines of \<open>RunServer\<close> are a step relation, apart from what their surroundings
  may do.
\<close>

section \<open>Configuration and database\<close>

datatype dotenv_error = FileErr os_error | SyntaxErr string

datatype startup_error =
    LoadingEnv dotenv_error
  | ParsingEnv string
  | CreatingDir string os_error
  | OpeningDB go_error
  | PingingDB go_error
  | SettingDialect go_error
  | ApplyingMigrations go_error
  | BuildingHandler go_error
  | RunningServer go_error

record Startup =
  su_dotenv :: "dotenv_error option"
  su_env :: "string + Config"
  su_Open :: "string \<Rightarrow> go_error option"
  su_Ping :: "string \<Rightarrow> go_error option"
  su_Dialect :: "go_error option"
  su_Up :: "bool \<Rightarrow> go_error option"

text \<open>The process: its files, its open database handles, and whether goose reads the embedded migrations.\<close>

record process =
  ps_fs :: filesystem
  ps_open :: nat
  ps_BaseFS :: bool

definition closeDB :: "process \<Rightarrow> process" where
  "closeDB p = p\<lparr>ps_open := ps_open p - 1\<rparr>"

definition LoadConfig :: "Startup \<Rightarrow> startup_error + Config" where
  "LoadConfig u = (case su_dotenv u of
     Some e \<Rightarrow> if e \<noteq> FileErr NotExist then Inl (LoadingEnv e)
       else (case su_env u of Inl err \<Rightarrow> Inl (ParsingEnv err) | Inr cfg \<Rightarrow> Inr cfg)
   | None \<Rightarrow> (case su_env u of Inl err \<Rightarrow> Inl (ParsingEnv err) | Inr cfg \<Rightarrow> Inr cfg))"

definition OpenDB :: "Startup \<Rightarrow> string \<Rightarrow> (process, startup_error, unit) io" where
  "OpenDB u path p =
     (let dir = filepath_Dir path in
      case (if dir \<noteq> ''.'' \<and> dir \<noteq> [] then os_MkdirAll (ps_fs p) dir else Inr (ps_fs p)) of
        Inl err \<Rightarrow> (Inl (CreatingDir dir err), p)
      | Inr fs \<Rightarrow>
          (case su_Open u path of
             Some err \<Rightarrow> (Inl (OpeningDB err), p\<lparr>ps_fs := fs\<rparr>)
           | None \<Rightarrow>
               (let q = p\<lparr>ps_fs := fs, ps_open := ps_open p + 1\<rparr> in
                case su_Ping u path of Some err \<Rightarrow> (Inl (PingingDB err), closeDB q) | None \<Rightarrow> (Inr (), q))))"

definition Migrate :: "Startup \<Rightarrow> (process, startup_error, unit) io" where
  "Migrate u p =
     (let q = p\<lparr>ps_BaseFS := True\<rparr>;
          r = (case su_Dialect u of
                 Some err \<Rightarrow> Inl (SettingDialect err)
               | None \<Rightarrow> (case su_Up u (ps_BaseFS q) of Some err \<Rightarrow> Inl (ApplyingMigrations err) | None \<Rightarrow> Inr ()))
      in (r, q\<lparr>ps_BaseFS := False\<rparr>))"

text \<open>What issue-key runs on: the service is the repositories on the open database.\<close>

definition newIdentityService :: "Startup \<Rightarrow> (process, startup_error, Config) io" where
  "newIdentityService u p =
     (case LoadConfig u of
        Inl err \<Rightarrow> (Inl err, p)
      | Inr cfg \<Rightarrow>
          (case OpenDB u (cf_DatabasePath cfg) p of
             (Inl err, q) \<Rightarrow> (Inl err, q)
           | (Inr _, q) \<Rightarrow> (case Migrate u q of (Inl err, q') \<Rightarrow> (Inl err, closeDB q') | (Inr _, q') \<Rightarrow> (Inr cfg, q'))))"

text \<open>The server's \<open>run\<close> and its exit status; \<open>served\<close> is what \<open>RunServer\<close> returns.\<close>

definition server_run ::
    "Startup \<Rightarrow> (string \<Rightarrow> string \<Rightarrow> go_error + (string \<Rightarrow> go_error + string)) \<Rightarrow> go_error + string
     \<Rightarrow> (Wiring \<Rightarrow> go_error option) \<Rightarrow> (process, startup_error, unit) io"
where
  "server_run u newVerifier rnd served p =
     (case LoadConfig u of
        Inl err \<Rightarrow> (Inl err, p)
      | Inr cfg \<Rightarrow>
          (case OpenDB u (cf_DatabasePath cfg) p of
             (Inl err, q) \<Rightarrow> (Inl err, q)
           | (Inr _, q) \<Rightarrow>
               (case Migrate u q of
                  (Inl err, q') \<Rightarrow> (Inl err, closeDB q')
                | (Inr _, q') \<Rightarrow>
                    (case buildWiring newVerifier rnd cfg of
                       Inl err \<Rightarrow> (Inl (BuildingHandler err), closeDB q')
                     | Inr w \<Rightarrow> (case served w of
                         Some err \<Rightarrow> (Inl (RunningServer err), closeDB q') | None \<Rightarrow> (Inr (), closeDB q'))))))"

definition server_main ::
    "Startup \<Rightarrow> (string \<Rightarrow> string \<Rightarrow> go_error + (string \<Rightarrow> go_error + string)) \<Rightarrow> go_error + string
     \<Rightarrow> (Wiring \<Rightarrow> go_error option) \<Rightarrow> process \<Rightarrow> nat \<times> process"
where
  "server_main u newVerifier rnd served p = (case server_run u newVerifier rnd served p of
     (Inl _, q) \<Rightarrow> (1, q) | (Inr _, q) \<Rightarrow> (0, q))"

text \<open>Whatever fails, every handle that was opened is closed again, but for the one that is returned.\<close>

lemma OpenDB_handles: "OpenDB u path p = (r, q) \<Longrightarrow> ps_open q = ps_open p + (case r of Inl _ \<Rightarrow> 0 | Inr _ \<Rightarrow> 1)
    \<and> ps_BaseFS q = ps_BaseFS p"
  by (auto simp: OpenDB_def closeDB_def Let_def split: sum.splits option.splits if_splits)

lemma Migrate_handles: "Migrate u p = (r, q) \<Longrightarrow> ps_open q = ps_open p \<and> \<not> ps_BaseFS q \<and> ps_fs q = ps_fs p"
  by (auto simp: Migrate_def Let_def)

lemma newIdentityService_handles:
  "newIdentityService u p = (r, q) \<Longrightarrow> ps_open q = ps_open p + (case r of Inl _ \<Rightarrow> 0 | Inr _ \<Rightarrow> 1)"
  by (auto simp: newIdentityService_def closeDB_def split: sum.splits prod.splits dest!: OpenDB_handles Migrate_handles)

lemma server_run_handles: "server_run u newVerifier rnd served p = (r, q) \<Longrightarrow> ps_open q = ps_open p"
  by (auto simp: server_run_def closeDB_def split: sum.splits prod.splits option.splits dest!: OpenDB_handles Migrate_handles)

section \<open>Serving and stopping\<close>

text \<open>The goroutine that listens: it sends what ended it, \<open>None\<close> for a server that was closed, into a channel
  with room for one value.\<close>

datatype listener = Listening | Sending "go_error option" | Finished

datatype control = Selecting | ShuttingDown | Receiving | Returned "go_error option"

record serve_state =
  sv_control :: control
  sv_listener :: listener
  sv_serveErr :: "go_error option list"
  sv_cancelled :: bool
  sv_closed :: bool

definition RunServer :: serve_state where
  "RunServer = \<lparr>sv_control = Selecting, sv_listener = Listening, sv_serveErr = [], sv_cancelled = False, sv_closed = False\<rparr>"

text \<open>The steps of the surroundings, which may come or not: the context is cancelled, \<open>ListenAndServe\<close> fails.\<close>

inductive env_step :: "serve_state \<Rightarrow> serve_state \<Rightarrow> bool" where
  cancel: "\<not> sv_cancelled v \<Longrightarrow> env_step v (v\<lparr>sv_cancelled := True\<rparr>)"
| fails: "sv_listener v = Listening \<Longrightarrow> env_step v (v\<lparr>sv_listener := Sending (Some err)\<rparr>)"

text \<open>The steps of the program, one of which is taken as long as one is possible: \<open>ListenAndServe\<close> returns
  because the server is closed; the goroutine sends; the select takes either case; \<open>Shutdown\<close>, which has
  closed the server, succeeds or, after its five seconds, gives up; the last value is received.\<close>

inductive serve_step :: "serve_state \<Rightarrow> serve_state \<Rightarrow> bool" where
  closed: "sv_listener v = Listening \<Longrightarrow> sv_closed v \<Longrightarrow> serve_step v (v\<lparr>sv_listener := Sending None\<rparr>)"
| send: "sv_listener v = Sending m \<Longrightarrow> sv_serveErr v = [] \<Longrightarrow> serve_step v (v\<lparr>sv_listener := Finished, sv_serveErr := [m]\<rparr>)"
| ctx_done: "sv_control v = Selecting \<Longrightarrow> sv_cancelled v \<Longrightarrow> serve_step v (v\<lparr>sv_control := ShuttingDown, sv_closed := True\<rparr>)"
| serve_err: "sv_control v = Selecting \<Longrightarrow> sv_serveErr v = [m] \<Longrightarrow> serve_step v (v\<lparr>sv_control := Returned m, sv_serveErr := []\<rparr>)"
| drained: "sv_control v = ShuttingDown \<Longrightarrow> serve_step v (v\<lparr>sv_control := Receiving\<rparr>)"
| gives_up: "sv_control v = ShuttingDown \<Longrightarrow> serve_step v (v\<lparr>sv_control := Returned (Some err)\<rparr>)"
| receive: "sv_control v = Receiving \<Longrightarrow> sv_serveErr v = [m] \<Longrightarrow> serve_step v (v\<lparr>sv_control := Returned m, sv_serveErr := []\<rparr>)"

definition run_step :: "serve_state \<Rightarrow> serve_state \<Rightarrow> bool" where
  "run_step v w \<longleftrightarrow> env_step v w \<or> serve_step v w"

text \<open>What holds all along: the server is closed exactly once the select has seen the context, a value is in
  flight only once, and a missing error means a closed server.\<close>

definition serving_ok :: "serve_state \<Rightarrow> bool" where
  "serving_ok v \<longleftrightarrow>
     (sv_control v = Selecting \<longrightarrow> \<not> sv_closed v)
   \<and> (sv_control v \<in> {ShuttingDown, Receiving} \<longrightarrow> sv_closed v \<and> sv_cancelled v)
   \<and> (sv_listener v \<noteq> Finished \<longrightarrow> sv_serveErr v = [] \<and> (case sv_control v of Returned m \<Rightarrow> m \<noteq> None \<and> sv_closed v | _ \<Rightarrow> True))
   \<and> (sv_listener v = Finished \<longrightarrow> (case sv_control v of Returned m \<Rightarrow> length (sv_serveErr v) \<le> 1 | _ \<Rightarrow> length (sv_serveErr v) = 1))
   \<and> (sv_listener v = Sending None \<or> sv_serveErr v = [None] \<or> sv_control v = Returned None \<longrightarrow> sv_closed v \<and> sv_cancelled v)
   \<and> (sv_closed v \<longrightarrow> sv_cancelled v)"

lemma serving_start: "serving_ok RunServer"
  by (simp add: serving_ok_def RunServer_def)

lemma serving_env: "env_step v w \<Longrightarrow> serving_ok v \<Longrightarrow> serving_ok w"
  by (induction rule: env_step.induct) (auto simp: serving_ok_def split: control.splits)

lemma serving_step: "serve_step v w \<Longrightarrow> serving_ok v \<Longrightarrow> serving_ok w"
  by (induction rule: serve_step.induct) (auto simp: serving_ok_def split: control.splits)

lemma serving_run: "run_step v w \<Longrightarrow> serving_ok v \<Longrightarrow> serving_ok w"
  using serving_env serving_step by (auto simp: run_step_def)

lemma serving_reach: "run_step\<^sup>*\<^sup>* RunServer v \<Longrightarrow> serving_ok v"
  by (induction rule: rtranclp_induct) (auto simp: serving_start intro: serving_run)

text \<open>Every step is progress.\<close>

definition to_go :: "serve_state \<Rightarrow> nat" where
  "to_go v = (if sv_cancelled v then 0 else 1)
     + (case sv_listener v of Listening \<Rightarrow> 2 | Sending _ \<Rightarrow> 1 | Finished \<Rightarrow> 0)
     + (case sv_control v of Selecting \<Rightarrow> 3 | ShuttingDown \<Rightarrow> 2 | Receiving \<Rightarrow> 1 | Returned _ \<Rightarrow> 0)"

lemma run_step_progress: "run_step v w \<Longrightarrow> to_go w < to_go v"
  unfolding run_step_def
proof (elim disjE)
  show "env_step v w \<Longrightarrow> to_go w < to_go v" by (induction rule: env_step.induct) (auto simp: to_go_def)
  show "serve_step v w \<Longrightarrow> to_go w < to_go v" by (induction rule: serve_step.induct) (auto simp: to_go_def)
qed

lemma run_steps_bound: "(run_step ^^ n) v w \<Longrightarrow> n + to_go w \<le> to_go v"
proof (induction n arbitrary: w)
  case (Suc n)
  then obtain x where "(run_step ^^ n) v x" "run_step x w" by auto
  then show ?case using Suc.IH run_step_progress by fastforce
qed auto

text \<open>
  C36. Stopping the server: in every run, whatever the surroundings do, once the context is cancelled a step
  of the program itself is possible until \<open>RunServer\<close> has returned and its goroutine has ended, so it never
  waits for a failure of the listener, also when the shutdown ran out of time and nobody receives any
  more; no run has more than six steps; and it returns without an error only after the context was
  cancelled, the server was closed and the goroutine was done.
\<close>

theorem shutdown_completes:
  assumes "(run_step ^^ n) RunServer v"
  shows "n \<le> 6
    \<and> (sv_cancelled v \<longrightarrow> (\<exists>w. serve_step v w) \<or> (\<exists>m. sv_control v = Returned m) \<and> sv_listener v = Finished)
    \<and> (sv_control v = Returned None \<longrightarrow> sv_cancelled v \<and> sv_closed v \<and> sv_listener v = Finished)"
proof -
  have ok: "serving_ok v" using assms serving_reach relpowp_imp_rtranclp by metis
  have "n \<le> 6" using run_steps_bound [OF assms] by (simp add: to_go_def RunServer_def)
  moreover have "(\<exists>m. sv_control v = Returned m) \<and> sv_listener v = Finished" if c: "sv_cancelled v" and stuck: "\<nexists>w. serve_step v w"
  proof -
    have sel: "sv_control v \<noteq> Selecting" using stuck c serve_step.ctx_done by blast
    have shut: "sv_control v \<noteq> ShuttingDown" using stuck serve_step.drained by blast
    have "sv_listener v \<noteq> Listening"
      using stuck serve_step.closed [of v] ok sel by (cases "sv_control v") (auto simp: serving_ok_def)
    then have l: "sv_listener v = Finished"
      using stuck serve_step.send [of v] ok by (cases "sv_listener v") (auto simp: serving_ok_def)
    have "sv_control v \<noteq> Receiving"
      using stuck serve_step.receive [of v] ok l by (cases "sv_serveErr v") (auto simp: serving_ok_def)
    then show ?thesis using sel shut l by (cases "sv_control v") auto
  qed
  moreover have "sv_control v = Returned None \<Longrightarrow> sv_cancelled v \<and> sv_closed v \<and> sv_listener v = Finished"
    using ok by (auto simp: serving_ok_def)
  ultimately show ?thesis by blast
qed

theorem shutdown_completes_witness:
  "\<exists>v. (run_step ^^ 6) RunServer v \<and> sv_control v = Returned None \<and> sv_listener v = Finished \<and> sv_closed v"
proof -
  let ?v = "\<lambda>c l ch x. \<lparr>sv_control = c, sv_listener = l, sv_serveErr = ch, sv_cancelled = True, sv_closed = x\<rparr>"
  have "env_step RunServer (?v Selecting Listening [] False)"
    using env_step.cancel [of RunServer] by (simp add: RunServer_def)
  moreover have "serve_step (?v Selecting Listening [] False) (?v ShuttingDown Listening [] True)"
    using serve_step.ctx_done [of "?v Selecting Listening [] False"] by simp
  moreover have "serve_step (?v ShuttingDown Listening [] True) (?v ShuttingDown (Sending None) [] True)"
    using serve_step.closed [of "?v ShuttingDown Listening [] True"] by simp
  moreover have "serve_step (?v ShuttingDown (Sending None) [] True) (?v ShuttingDown Finished [None] True)"
    using serve_step.send [of "?v ShuttingDown (Sending None) [] True"] by simp
  moreover have "serve_step (?v ShuttingDown Finished [None] True) (?v Receiving Finished [None] True)"
    using serve_step.drained [of "?v ShuttingDown Finished [None] True"] by simp
  moreover have "serve_step (?v Receiving Finished [None] True) (?v (Returned None) Finished [] True)"
    using serve_step.receive [of "?v Receiving Finished [None] True"] by simp
  ultimately have run: "(run_step ^^ 6) RunServer (?v (Returned None) Finished [] True)"
    by (simp add: numeral_eq_Suc relcompp_apply run_step_def) blast
  from shutdown_completes [OF run] run show ?thesis by (intro exI conjI) auto
qed

end
