(* ===== verification/Spec2Isabelle.thy ===== *)
theory Spec2Isabelle
  imports Prelude GoFloat GoTime GoCrypto GoJson GoRFC3339 GoBase64 Pricing Collector_Pricing Database
    Usage_Repo Usage_Summary Usage_Service Identity_Repo Identity_Service Identity_JWT Http Public_API
    Bff_Session Bff_Login Bff_API GoPath GoMarshal Collector_Scan Collector_Transcript Collector_Touched
    Collector_Path Collector_PathStore Collector_State Collector_Config Collector_Client Collector_Run
    Collector_Upload Server Commands Table_Isolation
    Platform
begin

text \<open>
  The program. my-token records what coding agents spend. A collector (src/cmd/collector,
  src/internal/collector) runs on every machine: it reads the agents' transcripts, turns each message
  with token counts into an event, attributes it to a directory, and uploads the events it has not sent
  yet. A server (src/cmd/server) keeps them in SQLite and has two HTTP surfaces: /api/v1 for agents, who
  present an API key or a JWT, and /api/bff for the owner, who logs in at an SSO provider and carries a
  signed cookie; every other path is a single-page application. Two commands write the identity tables
  directly: src/cmd/seed and src/cmd/issue-key. src/internal/dbquery checks that the query files of one
  module name no table of another.

  How the code is modelled. A Go string is its bytes (a char list), an int64 is a 64-bit word (\<open>i64\<close>,
  its sums wrap), a float64 is the rational it denotes with every operation rounded (\<open>GoFloat\<close>), a time
  is its instant in nanoseconds. A struct is a record and keeps the names of its fields, an interface is
  a record of functions over an explicit state, an enumeration is a datatype. A function that may fail
  and changes a state returns an error or a value together with the new state (type \<open>io\<close> of \<open>Prelude\<close>);
  a panic is a response body of its own (\<open>Panic\<close>). The database is the record of its tables with a script
  \<open>faults\<close> that says which of the coming statements fail, so a theorem about all databases is one about
  every place where the engine may fail; a statement or a commit that reports an error is taken to have had
  no effect, and a file write to be complete or not begun. Clocks, fresh ids and what the random source
  gives are arguments; a buffer filled from that source has its length (\<open>rand_Read\<close>).

  The theories, from the bottom up, and the code they model:

  \<^item> \<open>Prelude\<close>: strings, the state-and-error monad, map and list lemmas, and the collections
    \<open>io_simps\<close> and \<open>frame_simps\<close>.
  \<^item> \<open>GoFloat\<close>, \<open>GoTime\<close>, \<open>GoRFC3339\<close>, \<open>GoCrypto\<close>, \<open>GoBase64\<close>, \<open>GoJson\<close>, \<open>GoMarshal\<close>, \<open>GoPath\<close>: the parts
    of Go's standard library the code rests on, executable.
  \<^item> \<open>Pricing\<close> (domain/usage/pricing.go), \<open>Collector_Pricing\<close> (collector/pricing.go): the price tables; the
    stored cost is within 2^-50 of the exact price, and the two copies agree on every input.
  \<^item> \<open>Database\<close> and \<open>Usage_Repo\<close> (internal/db, domain/usage/repo.go), \<open>Usage_Summary\<close> (summary.go),
    \<open>Usage_Service\<close> (service.go): ingestion is atomic, idempotent and prices every event itself; windows,
    filters, breakdowns and the machine list are exactly the sums over the events they select.
  \<^item> \<open>Identity_Repo\<close>, \<open>Identity_Service\<close>, \<open>Identity_JWT\<close> (internal/identity): who a credential stands for,
    issuing, rotation and revocation of keys, and the JWT verifier.
  \<^item> \<open>Http\<close>, \<open>Public_API\<close> (transport/publicapi, internal/api): the middlewares and handlers of /api/v1 and
    what a request may change.
  \<^item> \<open>Bff_Session\<close>, \<open>Bff_Login\<close>, \<open>Bff_API\<close> (transport/bff, internal/bffapi): the cookies, the login with its
    callback, the session gate and the handlers of /api/bff.
  \<^item> \<open>Server\<close> (cmd/server, platform/middleware.go and server.go): the wiring, both engines, the mux, the
    single-page application, and the server over time: \<open>serves s t\<close> says that requests can lead from
    database s to t.
  \<^item> \<open>Platform\<close> (platform/config.go, db.go, migrate.go, server.go, and \<open>run\<close> of cmd/server): how the process
    starts, that it closes every database handle it opened, and how it stops: the steps of \<open>RunServer\<close> and
    its goroutine (\<open>serve_step\<close>) beside those of its surroundings (\<open>env_step\<close>), with the proof that after the
    cancellation the program always has a step of its own until it has ended.
  \<^item> \<open>Collector_Scan\<close>, \<open>Collector_Transcript\<close>, \<open>Collector_Touched\<close>, \<open>Collector_Path\<close>, \<open>Collector_PathStore\<close>,
    \<open>Collector_State\<close>, \<open>Collector_Config\<close>: the files the collector reads and writes and how it attributes a
    session; \<open>Collector_Client\<close> and \<open>Collector_Run\<close>: the wire form, the upload, one run and the command.
  \<^item> \<open>Collector_Upload\<close>: collector, network and server together. What the collector marshals the server
    decodes to the same batch; in every reachable state an id marked as sent is stored exactly once, and
    after a run that succeeds so is every message of the transcripts, whatever the network lost before.
  \<^item> \<open>Commands\<close> (cmd/seed, cmd/issue-key): the owner's row, the key files and the script that reads them:
    \<open>resolverScript\<close> is its text, \<open>resolver_run\<close> what bash does with that text, and \<open>exec_key\<close> runs the file
    bin/key as long as it holds it.
  \<^item> \<open>Table_Isolation\<close> (internal/dbquery/tableisolation.go): the scanner of query files, against a reading
    of comments line by line (\<open>uncommented\<close>) and of keyword positions (\<open>stands_at\<close>).

  Interfaces. \<open>usage_repository\<close> (Usage_Repo) is the contract the usage service is proved from,
  \<open>user_directory\<close> and its extension \<open>resolver\<close> (Identity_Service) the one actor resolution is proved from,
  \<open>git_resolver\<close> (Collector_Path) the one of path attribution, interpreted both without and with the cache,
  and \<open>batch_poster\<close> (Collector_Run) the one a run of the collector is proved from. Each is interpreted on
  the model of the code that provides it; \<open>batch_poster\<close> on the uploader in front of the server's own
  handler, in \<open>Collector_Upload\<close>.

  Parameters. Code that is not in the repository is an argument: the order and SUM of the SQL engine (with
  \<open>engine_ok\<close> as the only law: a SELECT returns each row once, stored times of one zone and of the years
  0 to 9999 compare as instants, times of different zones as whatever their texts say, and
  a SUM of non-negative integers that fits is exact),
  lower-casing beyond ASCII, the JWKS cache, key sets and parser of the jwx package, the request
  validator and the parameter binder of the generated servers, package oauth2 and the rest of
  \<open>url.Parse\<close>, gin's answers where no route matches, godotenv, env, the SQL driver and
  goose, git, the HTTP transport, the host name, the home
  directory and UUIDs. No cryptographic assumption is made: a theorem about keys speaks of digests.

  Bounds. \<open>json.Unmarshal\<close> stops at Go's nesting limit of 10000 (\<open>max_depth\<close>); a transcript line of 16 MiB
  or more is an error (\<open>max_line\<close>), as in the code. The loops are structural recursions or have a measure;
  the two helpers with fuel (\<open>drop_seqs\<close>, \<open>chunks_of\<close>) are started with the length of their input and use at
  least one byte for each unit.

  Not modelled. The smoke driver (src/cmd/smoke) is a script of HTTP calls against the resources of an
  earlier program, which this server does not have. Generated specifications and validators are data of
  third-party packages. Of the environment, the SQL driver, goose and net/http's listener only the
  answers are modelled, and logging not at all. Inside the modelled parts the following is left out: the texts of log lines and of what
  commands print, the serialisation of responses except the receipt of an upload, percent-encoded paths
  and conditional or range requests, file modes and symbolic links, the column resolved_at of the
  collector's cache, and of a JSON object with a repeated member that holds a slice the reuse of the old
  elements. Vote counts and offsets are unbounded integers.
\<close>

end
